(* ===== verification/Prelude.thy ===== *)
theory Prelude
  imports Main "HOL-Library.Sublist" "HOL-Library.List_Lexorder" "HOL-Library.Char_ord"
begin

text \<open>
  Shared vocabulary of the development: the C++ exception classes as a datatype and the
  sequencing of fallible steps, character classes of the C locale, the string searches and the
  number conversions of the standard library that the sources call, \<open>std::map\<close> as a
  strictly sorted association list behind an interface locale, and the generic notion of a
  state machine with an invariant.
\<close>

named_theorems strlib \<open>defining equations of the modelled standard library functions\<close>
named_theorems charclass \<open>character class predicates\<close>

section \<open>Exceptions and fallible steps\<close>

datatype exn =
    SecurityError string
  | ConfigParseError string
  | InvalidArgument string
  | OutOfRange string
  | FileParserError string nat
  | XmlRpcError string string string
  | SystemError string
  | RuntimeError string

fun what :: "exn \<Rightarrow> string" where
  "what (SecurityError m) = m"
| "what (ConfigParseError m) = m"
| "what (InvalidArgument m) = m"
| "what (OutOfRange m) = m"
| "what (FileParserError m l) = m"
| "what (XmlRpcError c n m) = m"
| "what (SystemError m) = m"
| "what (RuntimeError m) = m"

type_synonym 'a res = "exn + 'a"

definition bind_res :: "'a res \<Rightarrow> ('a \<Rightarrow> 'b res) \<Rightarrow> 'b res" where
  "bind_res r f = (case r of Inl e \<Rightarrow> Inl e | Inr v \<Rightarrow> f v)"

lemma bind_res_simps [simp]:
  "bind_res (Inl e) f = Inl e"
  "bind_res (Inr v) f = f v"
  by (simp_all add: bind_res_def)

lemma bind_res_eq_Inr [simp]: "bind_res r f = Inr w \<longleftrightarrow> (\<exists>v. r = Inr v \<and> f v = Inr w)"
  by (cases r) auto

lemma bind_res_eq_Inl: "bind_res r f = Inl e \<longleftrightarrow> r = Inl e \<or> (\<exists>v. r = Inr v \<and> f v = Inl e)"
  by (cases r) auto

text \<open>Applying a fallible step to each element in order stops at the first exception.\<close>

fun fold_res :: "('a \<Rightarrow> 's \<Rightarrow> 's res) \<Rightarrow> 'a list \<Rightarrow> 's \<Rightarrow> 's res" where
  "fold_res f [] s = Inr s"
| "fold_res f (x # xs) s = bind_res (f x s) (fold_res f xs)"

lemma bind_res_cong [fundef_cong]:
  "r = r' \<Longrightarrow> (\<And>v. r' = Inr v \<Longrightarrow> f v = g v) \<Longrightarrow> bind_res r f = bind_res r' g"
  by (cases r') auto

lemma fold_res_append: "fold_res f (xs @ ys) s = bind_res (fold_res f xs s) (fold_res f ys)"
  by (induction xs arbitrary: s) (auto simp: bind_res_def split: sum.splits)

lemma fold_res_invariant:
  assumes "fold_res f xs s = Inr t" "P s"
    and "\<And>x s t. x \<in> set xs \<Longrightarrow> P s \<Longrightarrow> f x s = Inr t \<Longrightarrow> P t"
  shows "P t"
  using assms
proof (induction xs arbitrary: s)
  case (Cons x xs)
  then obtain u where u: "f x s = Inr u" "fold_res f xs u = Inr t" by auto
  with Cons.prems have "P u" by (metis list.set_intros(1))
  with u Cons show ?case by (metis list.set_intros(2))
qed simp

section \<open>Characters and strings\<close>

abbreviation NUL :: char where "NUL \<equiv> CHR 0x00"
abbreviation TAB :: char where "TAB \<equiv> CHR 0x09"
abbreviation NL :: char where "NL \<equiv> CHR 0x0A"
abbreviation CR :: char where "CR \<equiv> CHR 0x0D"
abbreviation BACKSLASH :: char where "BACKSLASH \<equiv> CHR 0x5C"
abbreviation DQUOTE :: char where "DQUOTE \<equiv> CHR 0x22"
abbreviation SQUOTE :: char where "SQUOTE \<equiv> CHR 0x27"

abbreviation npos :: "nat option" where "npos \<equiv> None"

definition ccode :: "char \<Rightarrow> nat" where
  [charclass]: "ccode c = of_char c"

definition isdigit :: "char \<Rightarrow> bool" where
  [charclass]: "isdigit c \<longleftrightarrow> 48 \<le> ccode c \<and> ccode c \<le> 57"

definition isupper :: "char \<Rightarrow> bool" where
  [charclass]: "isupper c \<longleftrightarrow> 65 \<le> ccode c \<and> ccode c \<le> 90"

definition islower :: "char \<Rightarrow> bool" where
  [charclass]: "islower c \<longleftrightarrow> 97 \<le> ccode c \<and> ccode c \<le> 122"

definition isalnum :: "char \<Rightarrow> bool" where
  [charclass]: "isalnum c \<longleftrightarrow> isdigit c \<or> isupper c \<or> islower c"

definition isspace :: "char \<Rightarrow> bool" where
  [charclass]: "isspace c \<longleftrightarrow> ccode c = 32 \<or> 9 \<le> ccode c \<and> ccode c \<le> 13"

definition tolower :: "char \<Rightarrow> char" where
  [charclass]: "tolower c = (if isupper c then char_of (ccode c + 32) else c)"

definition starts_with :: "string \<Rightarrow> string \<Rightarrow> bool" where
  [strlib]: "starts_with s p = prefix p s"

text \<open>\<open>std::string::find(needle, 0)\<close>: the first position where the needle occurs.\<close>

fun find_str :: "string \<Rightarrow> string \<Rightarrow> nat option" where
  "find_str pat [] = (if pat = [] then Some 0 else None)"
| "find_str pat (c # cs) =
     (if prefix pat (c # cs) then Some 0 else map_option Suc (find_str pat cs))"

text \<open>\<open>find_first_of\<close>/\<open>find_first_not_of\<close> from a position, with a character predicate.\<close>

fun find_char :: "(char \<Rightarrow> bool) \<Rightarrow> string \<Rightarrow> nat option" where
  "find_char p [] = None"
| "find_char p (c # cs) = (if p c then Some 0 else map_option Suc (find_char p cs))"

definition find_char_from :: "(char \<Rightarrow> bool) \<Rightarrow> string \<Rightarrow> nat \<Rightarrow> nat option" where
  [strlib]: "find_char_from p s i = map_option ((+) i) (find_char p (drop i s))"

text \<open>\<open>rfind\<close> of one character: the last position where it occurs.\<close>

fun rfind_char :: "char \<Rightarrow> string \<Rightarrow> nat option" where
  "rfind_char x [] = None"
| "rfind_char x (c # cs) =
     (case rfind_char x cs of Some i \<Rightarrow> Some (Suc i) | None \<Rightarrow> if c = x then Some 0 else None)"

text \<open>\<open>substr(pos, len)\<close> for positions within the string.\<close>

definition substr :: "string \<Rightarrow> nat \<Rightarrow> nat \<Rightarrow> string" where
  [strlib]: "substr s pos len = take len (drop pos s)"

lemma find_str_Some_iff:
  "find_str pat s = Some i \<longleftrightarrow>
     i \<le> length s \<and> prefix pat (drop i s) \<and> (\<forall>j<i. \<not> prefix pat (drop j s))"
proof (induction s arbitrary: i)
  case Nil
  then show ?case by auto
next
  case (Cons c s)
  show ?case
  proof (cases i)
    case 0
    then show ?thesis by auto
  next
    case (Suc k)
    have all: "(\<forall>j<Suc k. \<not> prefix pat (drop j (c # s))) \<longleftrightarrow>
        \<not> prefix pat (c # s) \<and> (\<forall>j<k. \<not> prefix pat (drop j s))"
      using less_Suc_eq_0_disj by auto
    have eq: "find_str pat (c # s) = Some (Suc k) \<longleftrightarrow>
        \<not> prefix pat (c # s) \<and> find_str pat s = Some k" by auto
    show ?thesis unfolding Suc eq all Cons.IH by auto
  qed
qed

lemma find_str_None_iff: "find_str pat s = None \<longleftrightarrow> (\<forall>i\<le>length s. \<not> prefix pat (drop i s))"
proof (induction s)
  case (Cons c s)
  have "(\<forall>i\<le>Suc (length s). \<not> prefix pat (drop i (c # s))) \<longleftrightarrow>
      \<not> prefix pat (c # s) \<and> (\<forall>i\<le>length s. \<not> prefix pat (drop i s))"
    by (metis drop0 drop_Suc_Cons le0 not0_implies_Suc Suc_le_mono)
  with Cons show ?case by auto
qed auto

lemma find_str_le: "find_str pat s = Some i \<Longrightarrow> i + length pat \<le> length s"
  using prefix_length_le by (fastforce simp: find_str_Some_iff)

lemma find_char_Some:
  "find_char p s = Some i \<longleftrightarrow> i < length s \<and> p (s ! i) \<and> (\<forall>j<i. \<not> p (s ! j))"
proof (induction s arbitrary: i)
  case (Cons c s)
  show ?case
  proof (cases i)
    case (Suc k)
    have "(\<forall>j<Suc k. \<not> p ((c # s) ! j)) \<longleftrightarrow> \<not> p c \<and> (\<forall>j<k. \<not> p (s ! j))"
      using less_Suc_eq_0_disj by auto
    with Suc Cons.IH show ?thesis by auto
  qed auto
qed simp

lemma find_char_None: "find_char p s = None \<longleftrightarrow> (\<forall>c\<in>set s. \<not> p c)"
  by (induction s) auto

lemma find_char_skip: "\<forall>c\<in>set s. \<not> p c \<Longrightarrow> find_char p (s @ t) = map_option ((+) (length s)) (find_char p t)"
  by (induction s; cases "find_char p t") auto

lemma rfind_char_None: "rfind_char x s = None \<longleftrightarrow> x \<notin> set s"
  by (induction s) (auto split: option.splits)

lemma rfind_char_Some: "rfind_char x s = Some i \<Longrightarrow> i < length s \<and> s ! i = x \<and> x \<notin> set (drop (Suc i) s)"
  by (induction s arbitrary: i)
    (auto split: option.splits if_splits simp: rfind_char_None)

section \<open>Numbers as text\<close>

definition digit_val :: "char \<Rightarrow> nat" where
  [strlib]: "digit_val c = ccode c - 48"

definition digit_char :: "nat \<Rightarrow> char" where
  [strlib]: "digit_char n = char_of (48 + n)"

text \<open>\<open>std::to_string\<close> and stream output of integers.\<close>

fun show_nat :: "nat \<Rightarrow> string" where
  "show_nat n = (if n < 10 then [digit_char n] else show_nat (n div 10) @ [digit_char (n mod 10)])"

declare show_nat.simps [simp del]

definition show_int :: "int \<Rightarrow> string" where
  [strlib]: "show_int i = (if i < 0 then CHR ''-'' # show_nat (nat (- i)) else show_nat (nat i))"

text \<open>The value of a string of digits in a base (8 or 10 in the sources).\<close>

fun read_digits :: "nat \<Rightarrow> nat \<Rightarrow> string \<Rightarrow> nat" where
  "read_digits b acc [] = acc"
| "read_digits b acc (c # cs) = read_digits b (b * acc + digit_val c) cs"

definition is_digit_in :: "nat \<Rightarrow> char \<Rightarrow> bool" where
  [strlib]: "is_digit_in b c \<longleftrightarrow> isdigit c \<and> digit_val c < b"

text \<open>
  \<open>std::stoull(s)\<close> and \<open>std::stoul(s, nullptr, 8)\<close>, both 64 bits wide: white space
  is skipped, an optional sign is read, the longest run of digits is converted; no digit is
  \<open>std::invalid_argument\<close>, a value that does not fit is \<open>std::out_of_range\<close>, a minus
  sign negates modulo \<open>2 ^ 64\<close>, and what follows the digits is ignored.
\<close>

definition sto_unsigned :: "string \<Rightarrow> nat \<Rightarrow> string \<Rightarrow> nat res" where
  "sto_unsigned fname b s =
     (let t = dropWhile isspace s;
          neg = (t \<noteq> [] \<and> hd t = CHR ''-'');
          u = (if t \<noteq> [] \<and> (hd t = CHR ''-'' \<or> hd t = CHR ''+'') then tl t else t);
          ds = takeWhile (is_digit_in b) u;
          v = read_digits b 0 ds
      in if ds = [] then Inl (InvalidArgument fname)
         else if v \<ge> 2 ^ 64 then Inl (OutOfRange fname)
         else Inr (if neg then (2 ^ 64 - v) mod 2 ^ 64 else v))"

definition stoull :: "string \<Rightarrow> nat res" where
  "stoull s = sto_unsigned ''stoull'' 10 s"

definition stoul_octal :: "string \<Rightarrow> nat res" where
  "stoul_octal s = sto_unsigned ''stoul'' 8 s"

text \<open>
  \<open>std::from_chars\<close> into an \<open>int\<close>, required by the sources to consume the whole
  string: an optional minus sign, digits only, and a value within 32 bits.
\<close>

definition from_chars_int :: "string \<Rightarrow> int option" where
  "from_chars_int s =
     (let neg = (s \<noteq> [] \<and> hd s = CHR ''-'');
          ds = (if neg then tl s else s);
          v = (if neg then - int (read_digits 10 0 ds) else int (read_digits 10 0 ds))
      in if ds \<noteq> [] \<and> (\<forall>c\<in>set ds. isdigit c) \<and> - (2 ^ 31) \<le> v \<and> v < 2 ^ 31 then Some v
         else None)"

lemma ccode_digit_char: "n < 10 \<Longrightarrow> ccode (digit_char n) = 48 + n"
  by (simp add: ccode_def digit_char_def)

lemma isdigit_digit_char [simp]: "n < 10 \<Longrightarrow> isdigit (digit_char n)"
  by (simp add: isdigit_def ccode_digit_char)

lemma digit_val_digit_char [simp]: "n < 10 \<Longrightarrow> digit_val (digit_char n) = n"
  by (simp add: digit_val_def ccode_digit_char)

lemma show_nat_digits: "\<forall>c\<in>set (show_nat n). isdigit c"
proof (induction n rule: show_nat.induct)
  case (1 n)
  then show ?case by (subst show_nat.simps) auto
qed

lemma show_nat_nonempty [simp]: "show_nat n \<noteq> []"
  by (subst show_nat.simps) simp

lemma read_digits_append: "read_digits b acc (xs @ ys) = read_digits b (read_digits b acc xs) ys"
  by (induction xs arbitrary: acc) auto

lemma read_show_nat [simp]: "read_digits 10 0 (show_nat n) = n"
proof (induction n rule: show_nat.induct)
  case (1 n)
  show ?case
  proof (cases "n < 10")
    case True
    then show ?thesis by (subst show_nat.simps) simp
  next
    case False
    with 1 show ?thesis by (subst show_nat.simps) (simp add: read_digits_append)
  qed
qed

lemma isdigit_not_isspace: "isdigit c \<Longrightarrow> \<not> isspace c"
  by (auto simp: isdigit_def isspace_def)

lemma isdigit_not_sign: "isdigit c \<Longrightarrow> c \<noteq> CHR ''-'' \<and> c \<noteq> CHR ''+''"
  by (auto simp: isdigit_def ccode_def)

lemma is_digit_in_10 [simp]: "is_digit_in 10 = isdigit"
  by (auto simp: is_digit_in_def isdigit_def digit_val_def fun_eq_iff)

lemma takeWhile_show_nat:
  "t = [] \<or> \<not> isdigit (hd t) \<Longrightarrow> takeWhile isdigit (show_nat n @ t) = show_nat n"
  using show_nat_digits[of n] by (cases t) auto

text \<open>Reading back a printed number, whatever non-digit follows it.\<close>

lemma stoull_show_nat:
  assumes "n < 2 ^ 64" "t = [] \<or> \<not> isdigit (hd t)"
  shows "stoull (show_nat n @ t) = Inr n"
proof -
  obtain c cs where s: "show_nat n = c # cs" by (meson neq_Nil_conv show_nat_nonempty)
  then have d: "isdigit c" using show_nat_digits[of n] by auto
  have tw: "takeWhile isdigit (c # cs @ t) = show_nat n"
    using takeWhile_show_nat[OF assms(2), of n] s by simp
  show ?thesis
    using assms(1) d isdigit_not_isspace[OF d] isdigit_not_sign[OF d] tw read_show_nat[of n]
    by (simp add: stoull_def sto_unsigned_def s Let_def)
qed

lemma sto_unsigned_bound: "sto_unsigned fname b s = Inr v \<Longrightarrow> v < 2 ^ 64"
  by (auto simp: sto_unsigned_def Let_def split: if_splits)

lemma from_chars_int_bounds: "from_chars_int s = Some v \<Longrightarrow> - (2 ^ 31) \<le> v \<and> v < 2 ^ 31"
  by (auto simp: from_chars_int_def Let_def split: if_splits)

section \<open>Ordered maps\<close>

text \<open>
  \<open>std::map<std::string, V>\<close> keeps its entries in the byte order of the keys and iterates
  in that order, so it is a strictly sorted association list. \<open>map_put\<close> is
  \<open>m[k] = v\<close>, \<open>map_erase\<close> is \<open>m.erase(k)\<close> and \<open>map_of\<close> is \<open>m.find(k)\<close>.
\<close>

type_synonym 'v smap = "(string \<times> 'v) list"

fun map_put :: "string \<Rightarrow> 'v \<Rightarrow> 'v smap \<Rightarrow> 'v smap" where
  "map_put k v [] = [(k, v)]"
| "map_put k v ((a, w) # m) =
     (if k < a then (k, v) # (a, w) # m else if k = a then (k, v) # m else (a, w) # map_put k v m)"

fun map_erase :: "string \<Rightarrow> 'v smap \<Rightarrow> 'v smap" where
  "map_erase k [] = []"
| "map_erase k ((a, w) # m) = (if k = a then m else (a, w) # map_erase k m)"

definition map_wf :: "'v smap \<Rightarrow> bool" where
  "map_wf m \<longleftrightarrow> sorted_wrt (<) (map fst m)"

lemma map_wf_Nil [simp]: "map_wf []"
  by (simp add: map_wf_def)

lemma map_wf_Cons [simp]: "map_wf ((a, w) # m) \<longleftrightarrow> (\<forall>k\<in>fst ` set m. a < k) \<and> map_wf m"
  by (auto simp: map_wf_def)

lemma keys_map_put: "fst ` set (map_put k v m) = insert k (fst ` set m)"
  by (induction k v m rule: map_put.induct) auto

lemma keys_map_erase_sub: "fst ` set (map_erase k m) \<subseteq> fst ` set m"
  by (induction k m rule: map_erase.induct) auto

lemma set_map_erase_sub: "set (map_erase k m) \<subseteq> set m"
  by (induction k m rule: map_erase.induct) auto

lemma set_map_put_sub: "set (map_put k v m) \<subseteq> insert (k, v) (set m)"
  by (induction k v m rule: map_put.induct) auto

lemma map_wf_put: "map_wf m \<Longrightarrow> map_wf (map_put k v m)"
  by (induction k v m rule: map_put.induct) (auto simp: keys_map_put)

lemma map_wf_erase: "map_wf m \<Longrightarrow> map_wf (map_erase k m)"
  using keys_map_erase_sub by (induction k m rule: map_erase.induct) fastforce+

lemma map_of_put: "map_of (map_put k v m) x = (if x = k then Some v else map_of m x)"
  by (induction k v m rule: map_put.induct) auto

lemma map_of_erase: "map_wf m \<Longrightarrow> map_of (map_erase k m) x = (if x = k then None else map_of m x)"
proof (induction k m rule: map_erase.induct)
  case (2 k a w m)
  then have "map_of m a = None" by (force simp: map_of_eq_None_iff)
  with 2 show ?case by auto
qed simp

lemma map_wf_distinct: "map_wf m \<Longrightarrow> distinct (map fst m)"
  by (simp add: map_wf_def strict_sorted_iff)

lemma map_of_rev_distinct:
  assumes "distinct (map fst m)"
  shows "map_of (rev m) k = map_of m k"
proof -
  have d: "distinct (map fst (rev m))" using assms by (simp add: rev_map[symmetric])
  show ?thesis
  proof (cases "map_of m k")
    case None
    then show ?thesis by (metis map_of_eq_None_iff set_rev)
  next
    case (Some v)
    then show ?thesis using assms d by (simp add: map_of_eq_Some_iff)
  qed
qed

lemma map_of_rev_wf: "map_wf m \<Longrightarrow> map_of (rev m) k = map_of m k"
  by (simp add: map_of_rev_distinct map_wf_distinct)

lemma map_wf_map_values: "map_wf (map (\<lambda>(k, v). (k, f k v)) m) = map_wf m"
  by (simp add: map_wf_def comp_def case_prod_unfold)

text \<open>The contract clients of the map rely on, and what they derive from it.\<close>

locale std_map =
  fixes put :: "'k \<Rightarrow> 'v \<Rightarrow> 'm \<Rightarrow> 'm"
    and erase :: "'k \<Rightarrow> 'm \<Rightarrow> 'm"
    and look :: "'m \<Rightarrow> 'k \<Rightarrow> 'v option"
    and wf :: "'m \<Rightarrow> bool"
  assumes look_put: "wf m \<Longrightarrow> look (put k v m) x = (if x = k then Some v else look m x)"
    and look_erase: "wf m \<Longrightarrow> look (erase k m) x = (if x = k then None else look m x)"
    and wf_put: "wf m \<Longrightarrow> wf (put k v m)"
    and wf_erase: "wf m \<Longrightarrow> wf (erase k m)"
begin

lemma wf_puts: "wf m \<Longrightarrow> wf (fold (\<lambda>(k, v). put k v) kvs m)"
  by (induction kvs arbitrary: m) (auto simp: wf_put)

text \<open>After a sequence of assignments the last one to a key is what a lookup finds.\<close>

lemma look_puts:
  "wf m \<Longrightarrow> look (fold (\<lambda>(k, v). put k v) kvs m) x =
     (case map_of (rev kvs) x of Some v \<Rightarrow> Some v | None \<Rightarrow> look m x)"
proof (induction kvs arbitrary: m)
  case (Cons kv kvs)
  then show ?case
    by (cases kv) (auto simp: wf_put look_put map_add_def split: option.splits)
qed simp

lemma look_erases:
  "wf m \<Longrightarrow> look (fold erase ks m) x = (if x \<in> set ks then None else look m x)"
  by (induction ks arbitrary: m) (auto simp: wf_erase look_erase)

lemma wf_erases: "wf m \<Longrightarrow> wf (fold erase ks m)"
  by (induction ks arbitrary: m) (auto simp: wf_erase)

end

interpretation smap: std_map map_put map_erase map_of map_wf
  by unfold_locales (auto simp: map_of_put map_of_erase map_wf_put map_wf_erase)

section \<open>Transition systems\<close>

text \<open>
  A component that reacts to events is a step relation; a predicate every step preserves holds
  in every state reachable from one that satisfies it.
\<close>

locale transition_system =
  fixes step :: "'s \<Rightarrow> 's \<Rightarrow> bool"
    and inv :: "'s \<Rightarrow> bool"
  assumes step_preserves: "step s t \<Longrightarrow> inv s \<Longrightarrow> inv t"
begin

lemma steps_preserve: "step\<^sup>*\<^sup>* s t \<Longrightarrow> inv s \<Longrightarrow> inv t"
  by (induction rule: rtranclp_induct) (auto intro: step_preserves)

lemma run_preserves:
  assumes "successively step xs" "xs \<noteq> []" "inv (hd xs)" "x \<in> set xs"
  shows "inv x"
  using assms
proof (induction xs)
  case (Cons y ys)
  then show ?case by (cases ys) (auto intro: step_preserves)
qed simp

end

end
