(* ===== verification/Util_String.thy ===== *)
theory Util_String
  imports Prelude
begin

text \<open>
  The string utilities of \<^verbatim>\<open>supervisor-lib/src/util/string.cpp\<close>: \<open>escape_str\<close> with its
  index loop, and its two users \<open>escape_xml\<close> and \<open>glob_to_regex\<close>. The loop is shown
  equal to a character-wise substitution; XML escaping is shown to be free of markup
  characters and invertible; the regular expression a glob is turned into is shown to match
  exactly the file names the glob describes, over a model of the part of
  \<open>std::regex\<close> such expressions use.
\<close>

section \<open>Definitions\<close>

type_synonym needles = "(char \<times> string) list"

text \<open>The loop of \<open>escape_str\<close>: \<open>lst\<close> (the source's last) is the start of the run not yet copied.\<close>

function escape_loop :: "needles \<Rightarrow> string \<Rightarrow> nat \<Rightarrow> nat \<Rightarrow> string \<Rightarrow> string" where
  "escape_loop needles str i lst out =
     (if i < length str then
        (case map_of needles (str ! i) of
           Some r \<Rightarrow> escape_loop needles str (i + 1) (i + 1) (out @ substr str lst (i - lst) @ r)
         | None \<Rightarrow> escape_loop needles str (i + 1) lst out)
      else out @ drop lst str)"
  by pat_completeness auto
termination
  by (relation "measure (\<lambda>(needles, str, i, lst, out). length str - i)") auto

declare escape_loop.simps [simp del]

definition escape_str :: "string \<Rightarrow> needles \<Rightarrow> string" where
  "escape_str str needles = escape_loop needles str 0 0 []"

definition xml_needles :: needles where
  "xml_needles =
     [(DQUOTE, ''&quot;''),
      (SQUOTE, ''&apos;''),
      (CHR ''<'', ''&lt;''),
      (CHR ''>'', ''&gt;''),
      (CHR ''&'', ''&amp;'')]"

definition escape_xml :: "string \<Rightarrow> string" where
  "escape_xml str = escape_str str xml_needles"

definition glob_needles :: needles where
  "glob_needles =
     [(CHR ''.'', [BACKSLASH, CHR ''.'']),
      (CHR ''^'', [BACKSLASH, CHR ''^'']),
      (CHR ''$'', [BACKSLASH, CHR ''$'']),
      (CHR ''+'', [BACKSLASH, CHR ''+'']),
      (CHR ''('', [BACKSLASH, CHR ''('']),
      (CHR '')'', [BACKSLASH, CHR '')'']),
      (CHR ''['', [BACKSLASH, CHR ''['']),
      (CHR '']'', [BACKSLASH, CHR '']'']),
      (CHR ''{'', [BACKSLASH, CHR ''{'']),
      (CHR ''}'', [BACKSLASH, CHR ''}'']),
      (BACKSLASH, [BACKSLASH, BACKSLASH]),
      (CHR ''|'', [BACKSLASH, CHR ''|'']),
      (CHR ''*'', ''.*''),
      (CHR ''?'', ''.'')]"

definition glob_to_regex :: "string \<Rightarrow> string" where
  "glob_to_regex str = escape_str str glob_needles"

section \<open>Reference definitions\<close>

text \<open>What the loop computes, character by character.\<close>

definition subst_char :: "needles \<Rightarrow> char \<Rightarrow> string" where
  "subst_char needles c = (case map_of needles c of Some r \<Rightarrow> r | None \<Rightarrow> [c])"

text \<open>Decoding of the five predefined XML entities.\<close>

fun unescape_xml :: "string \<Rightarrow> string" where
  "unescape_xml [] = []"
| "unescape_xml (c # cs) =
     (if c \<noteq> CHR ''&'' then c # unescape_xml cs
      else if prefix ''quot;'' cs then DQUOTE # unescape_xml (drop 5 cs)
      else if prefix ''apos;'' cs then SQUOTE # unescape_xml (drop 5 cs)
      else if prefix ''lt;'' cs then CHR ''<'' # unescape_xml (drop 3 cs)
      else if prefix ''gt;'' cs then CHR ''>'' # unescape_xml (drop 3 cs)
      else if prefix ''amp;'' cs then CHR ''&'' # unescape_xml (drop 4 cs)
      else c # unescape_xml cs)"

text \<open>
  The part of ECMAScript regular expressions that \<open>glob_to_regex\<close> produces: ordinary
  characters, escaped syntax characters, the dot (any character but a line terminator) and the
  postfix star. Anything else is outside the fragment and parses to \<open>None\<close>.
\<close>

datatype re_atom = ReLit char | ReAny

type_synonym regex = "(re_atom \<times> bool) list"

definition re_syntax :: string where
  "re_syntax = [CHR ''^'', CHR ''$'', BACKSLASH, CHR ''.'', CHR ''*'', CHR ''+'', CHR ''?'',
     CHR ''('', CHR '')'', CHR ''['', CHR '']'', CHR ''{'', CHR ''}'', CHR ''|'']"

fun re_star :: "re_atom \<Rightarrow> string \<Rightarrow> (re_atom \<times> bool) \<times> string" where
  "re_star a (c # cs) = (if c = CHR ''*'' then ((a, True), cs) else ((a, False), c # cs))"
| "re_star a [] = ((a, False), [])"

lemma length_re_star: "length (snd (re_star a s)) \<le> length s"
  by (cases s) auto

function parse_regex :: "string \<Rightarrow> regex option" where
  "parse_regex [] = Some []"
| "parse_regex (c # cs) =
     (if c = BACKSLASH then
        (case cs of
           [] \<Rightarrow> None
         | d # ds \<Rightarrow> if d \<in> set re_syntax
             then map_option ((#) (fst (re_star (ReLit d) ds))) (parse_regex (snd (re_star (ReLit d) ds)))
             else None)
      else if c = CHR ''.'' then
        map_option ((#) (fst (re_star ReAny cs))) (parse_regex (snd (re_star ReAny cs)))
      else if c \<in> set re_syntax then None
      else map_option ((#) (fst (re_star (ReLit c) cs))) (parse_regex (snd (re_star (ReLit c) cs))))"
  by pat_completeness auto
termination
  by (relation "measure length") (auto simp: le_imp_less_Suc length_re_star less_Suc_eq_le le_SucI)

fun re_ok :: "re_atom \<Rightarrow> char \<Rightarrow> bool" where
  "re_ok (ReLit d) c = (c = d)"
| "re_ok ReAny c = (c \<noteq> NL \<and> c \<noteq> CR)"

fun re_match :: "regex \<Rightarrow> string \<Rightarrow> bool" where
  "re_match [] s = (s = [])"
| "re_match ((a, False) # r) [] = False"
| "re_match ((a, False) # r) (c # s) = (re_ok a c \<and> re_match r s)"
| "re_match ((a, True) # r) [] = re_match r []"
| "re_match ((a, True) # r) (c # s) = (re_match r (c # s) \<or> re_ok a c \<and> re_match ((a, True) # r) s)"

definition regex_match :: "string \<Rightarrow> string \<Rightarrow> bool option" where
  "regex_match s re = map_option (\<lambda>r. re_match r s) (parse_regex re)"

text \<open>What a glob means: \<open>*\<close> a run and \<open>?\<close> one of the characters a dot matches.\<close>

fun glob_match :: "string \<Rightarrow> string \<Rightarrow> bool" where
  "glob_match [] s = (s = [])"
| "glob_match (g # gs) [] = (g = CHR ''*'' \<and> glob_match gs [])"
| "glob_match (g # gs) (c # s) =
     (if g = CHR ''*'' then glob_match gs (c # s) \<or> re_ok ReAny c \<and> glob_match (g # gs) s
      else if g = CHR ''?'' then re_ok ReAny c \<and> glob_match gs s
      else c = g \<and> glob_match gs s)"

section \<open>The escape loop\<close>

lemma escape_loop_eq:
  assumes "lst \<le> i" "\<forall>c\<in>set (substr str lst (i - lst)). map_of needles c = None" "i \<le> length str"
  shows "escape_loop needles str i lst out = out @ concat (map (subst_char needles) (drop lst str))"
  using assms
proof (induction needles str i lst out rule: escape_loop.induct)
  case (1 needles str i lst out)
  have plain: "concat (map (subst_char needles) xs) = xs" if "\<forall>c\<in>set xs. map_of needles c = None" for xs
    using that by (induction xs) (auto simp: subst_char_def)
  show ?case
  proof (cases "i < length str")
    case False
    with "1.prems" have "substr str lst (i - lst) = drop lst str" by (simp add: substr_def)
    with "1.prems" False show ?thesis by (subst escape_loop.simps) (simp add: plain)
  next
    case True
    have split: "drop lst str = substr str lst (i - lst) @ str ! i # drop (Suc i) str"
    proof -
      have "drop lst str = take (i - lst) (drop lst str) @ drop (i - lst) (drop lst str)"
        by (rule append_take_drop_id[symmetric])
      moreover have "drop (i - lst) (drop lst str) = str ! i # drop (Suc i) str"
        using "1.prems" True by (simp add: Cons_nth_drop_Suc)
      ultimately show ?thesis by (simp add: substr_def)
    qed
    show ?thesis
    proof (cases "map_of needles (str ! i)")
      case None
      have "substr str lst (Suc i - lst) = substr str lst (i - lst) @ [str ! i]"
        using "1.prems" True by (simp add: substr_def Suc_diff_le take_Suc_conv_app_nth)
      with None True "1.prems" "1.IH"(1) show ?thesis by (subst escape_loop.simps) simp
    next
      case (Some r)
      with True "1.IH"(2) have
        "escape_loop needles str (i + 1) (i + 1) (out @ substr str lst (i - lst) @ r) =
           out @ substr str lst (i - lst) @ r @ concat (map (subst_char needles) (drop (i + 1) str))"
        by (simp add: substr_def)
      with Some True "1.prems" show ?thesis
        by (subst escape_loop.simps) (simp add: split plain subst_char_def)
    qed
  qed
qed

lemma escape_str_concat: "escape_str str needles = concat (map (subst_char needles) str)"
  by (simp add: escape_str_def escape_loop_eq substr_def)

lemma escape_str_Nil [simp]: "escape_str [] n = []"
  by (simp add: escape_str_concat)

lemma escape_str_Cons [simp]: "escape_str (c # s) n = subst_char n c @ escape_str s n"
  by (simp add: escape_str_concat)

section \<open>Invertible encodings\<close>

text \<open>An encoding of characters that a decoder undoes one at a time is invertible.\<close>

locale char_encoding =
  fixes enc :: "char \<Rightarrow> string"
    and dec :: "string \<Rightarrow> string"
  assumes dec_enc: "dec (enc c @ s) = c # dec s"
    and dec_Nil: "dec [] = []"
begin

lemma dec_concat: "dec (concat (map enc s) @ t) = s @ dec t"
  by (induction s) (auto simp: dec_enc)

lemma dec_concat_all: "dec (concat (map enc s)) = s"
  using dec_concat[of s "[]"] by (simp add: dec_Nil)

lemma concat_inj: "concat (map enc s) = concat (map enc t) \<Longrightarrow> s = t"
  by (metis dec_concat_all)

end

lemma unescape_subst: "unescape_xml (subst_char xml_needles c @ s) = c # unescape_xml s"
  by (auto simp: subst_char_def xml_needles_def)

interpretation xml: char_encoding "subst_char xml_needles" unescape_xml
  by unfold_locales (auto simp: unescape_subst)

lemma subst_xml_chars:
  "set (subst_char xml_needles c) \<inter> {CHR ''<'', CHR ''>'', DQUOTE, SQUOTE} = {}"
  by (auto simp: subst_char_def xml_needles_def)

lemma escape_xml_chars: "set (escape_xml s) \<inter> {CHR ''<'', CHR ''>'', DQUOTE, SQUOTE} = {}"
  using subst_xml_chars by (induction s) (auto simp: escape_xml_def)

text \<open>
  C38: XML escaping is safe and loses nothing: the escaped text holds no angle bracket and no
  quote, so it can neither open nor close markup, and decoding the five entities gives the
  original string back.
\<close>

theorem escape_xml_roundtrip:
  "set (escape_xml s) \<inter> {CHR ''<'', CHR ''>'', DQUOTE, SQUOTE} = {} \<and> unescape_xml (escape_xml s) = s"
  using escape_xml_chars xml.dec_concat_all by (simp add: escape_xml_def escape_str_concat)

section \<open>Globs\<close>

lemma hd_glob_to_regex: "glob_to_regex g \<noteq> [] \<Longrightarrow> hd (glob_to_regex g) \<noteq> CHR ''*''"
  by (cases g) (auto simp: glob_to_regex_def subst_char_def glob_needles_def)

lemma re_star_plain: "t = [] \<or> hd t \<noteq> CHR ''*'' \<Longrightarrow> re_star a t = ((a, False), t)"
  by (cases t) auto

lemma parse_regex_step:
  assumes "g \<noteq> CHR ''*''" "t = [] \<or> hd t \<noteq> CHR ''*''"
  shows "parse_regex (subst_char glob_needles g @ t) =
     map_option ((#) (if g = CHR ''?'' then ReAny else ReLit g, False)) (parse_regex t)"
proof (cases "g \<in> set re_syntax")
  case True
  with assms show ?thesis
    by (auto simp: re_syntax_def subst_char_def glob_needles_def re_star_plain)
next
  case False
  then have "subst_char glob_needles g = [g]" and "g \<noteq> CHR ''?''"
    by (auto simp: re_syntax_def subst_char_def glob_needles_def)
  with False assms show ?thesis by (auto simp: re_star_plain re_syntax_def)
qed

text \<open>The atoms a glob stands for.\<close>

definition glob_atom :: "char \<Rightarrow> re_atom \<times> bool" where
  "glob_atom g = (if g = CHR ''*'' then (ReAny, True) else if g = CHR ''?'' then (ReAny, False) else (ReLit g, False))"

lemma parse_glob_to_regex: "parse_regex (glob_to_regex g) = Some (map glob_atom g)"
proof (induction g)
  case (Cons c g)
  have "parse_regex (glob_to_regex (c # g)) = map_option ((#) (glob_atom c)) (parse_regex (glob_to_regex g))"
  proof (cases "c = CHR ''*''")
    case True
    then show ?thesis by (simp add: glob_to_regex_def subst_char_def glob_needles_def glob_atom_def)
  next
    case False
    have "glob_to_regex g = [] \<or> hd (glob_to_regex g) \<noteq> CHR ''*''"
      using hd_glob_to_regex by blast
    from parse_regex_step[OF False this] False show ?thesis
      by (auto simp: glob_to_regex_def glob_atom_def)
  qed
  with Cons show ?case by simp
qed (simp add: glob_to_regex_def)

lemma re_match_glob: "re_match (map glob_atom g) s = glob_match g s"
  by (induction g s rule: glob_match.induct) (auto simp: glob_atom_def)

text \<open>
  C39: The regular expression built from a glob is always well formed and accepts exactly the
  names the glob describes: every other syntax character of the glob is matched literally.
\<close>

theorem glob_to_regex_correct: "regex_match s (glob_to_regex g) = Some (glob_match g s)"
  by (simp add: regex_match_def parse_glob_to_regex re_match_glob)

end
