(* ===== verification/Boost_Strings.thy ===== *)
theory Boost_Strings
  imports Prelude
begin

text \<open>
  The Boost string algorithms the sources call are code outside this repository: they are the
  fields of a record that every definition using them takes as an argument. The predicate
  \<open>boost_ok\<close> states their documented behaviour in the classic locale, which the program
  never changes; \<open>classic_boost\<close> is a record with that behaviour, at which theorems are
  instantiated.
\<close>

record boost_algo =
  trim_copy :: "string \<Rightarrow> string"
  iequals :: "string \<Rightarrow> string \<Rightarrow> bool"
  to_lower_copy :: "string \<Rightarrow> string"
  ifind_first :: "string \<Rightarrow> string \<Rightarrow> (nat \<times> nat) option"

definition trim_spaces :: "string \<Rightarrow> string" where
  "trim_spaces s = rev (dropWhile isspace (rev (dropWhile isspace s)))"

definition lower :: "string \<Rightarrow> string" where
  "lower s = map tolower s"

text \<open>
  \<open>trim\<close> removes leading and trailing white space, \<open>iequals\<close> and \<open>to_lower\<close>
  ignore and remove case, \<open>ifind_first\<close> gives the range of the first occurrence up to
  case, or an empty range.
\<close>

definition boost_ok :: "boost_algo \<Rightarrow> bool" where
  "boost_ok B \<longleftrightarrow>
     (\<forall>s. trim_copy B s = trim_spaces s) \<and>
     (\<forall>s t. iequals B s t \<longleftrightarrow> lower s = lower t) \<and>
     (\<forall>s. to_lower_copy B s = lower s) \<and>
     (\<forall>s t. ifind_first B s t = map_option (\<lambda>i. (i, i + length t)) (find_str (lower t) (lower s)))"

definition classic_boost :: boost_algo where
  "classic_boost =
     \<lparr>trim_copy = trim_spaces, iequals = (\<lambda>s t. lower s = lower t), to_lower_copy = lower,
      ifind_first = (\<lambda>s t. map_option (\<lambda>i. (i, i + length t)) (find_str (lower t) (lower s)))\<rparr>"

lemma boost_ok_classic [simp]: "boost_ok classic_boost"
  by (simp add: boost_ok_def classic_boost_def)

lemma boost_okD:
  assumes "boost_ok B"
  shows "trim_copy B s = trim_spaces s" "iequals B s t = (lower s = lower t)"
    "to_lower_copy B s = lower s"
    "ifind_first B s t = map_option (\<lambda>i. (i, i + length t)) (find_str (lower t) (lower s))"
  using assms by (auto simp: boost_ok_def)

lemma length_lower [simp]: "length (lower s) = length s"
  by (simp add: lower_def)

lemma lower_append [simp]: "lower (s @ t) = lower s @ lower t"
  by (simp add: lower_def)

lemma trim_spaces_id:
  assumes "\<forall>c\<in>set s. \<not> isspace c"
  shows "trim_spaces s = s"
proof -
  have id: "dropWhile isspace xs = xs" if "\<forall>c\<in>set xs. \<not> isspace c" for xs
    using that by (cases xs) auto
  show ?thesis using assms by (simp add: trim_spaces_def id)
qed

end
