(* ===== verification/Log_Levels.thy ===== *)
theory Log_Levels
  imports Boost_Strings
begin

text \<open>
  \<^verbatim>\<open>supervisor-lib/src/logger/log_levels.cpp\<close> and the level state of
  \<^verbatim>\<open>logger.cpp\<close>: log levels with their names, the mapping to Boost severities, the two
  filtered sinks (console and file) and the operations that change a level. The sinks'
  formatting and rotation are Boost.Log's and are not modelled.
\<close>

section \<open>Levels\<close>

datatype LogLevel = TRACE | DEBUG | INFO | WARN | ERROR | IGNORE

datatype TrivialSeverity = SevTrace | SevDebug | SevInfo | SevWarning | SevError | SevFatal

fun show_log_level :: "LogLevel \<Rightarrow> string" where
  "show_log_level TRACE = ''trace''"
| "show_log_level DEBUG = ''debug''"
| "show_log_level INFO = ''info''"
| "show_log_level WARN = ''warn''"
| "show_log_level ERROR = ''error''"
| "show_log_level IGNORE = ''ignore''"

definition parse_log_level :: "boost_algo \<Rightarrow> string \<Rightarrow> LogLevel res" where
  "parse_log_level B s =
     (let level_str = to_lower_copy B s in
      if level_str = ''trace'' then Inr TRACE
      else if level_str = ''debug'' then Inr DEBUG
      else if level_str = ''info'' then Inr INFO
      else if level_str = ''warn'' \<or> level_str = ''warning'' then Inr WARN
      else if level_str = ''error'' then Inr ERROR
      else if level_str = ''ignore'' then Inr IGNORE
      else Inl (InvalidArgument (''Invalid log level: '' @ level_str)))"

fun level_code :: "LogLevel \<Rightarrow> int" where
  "level_code TRACE = 0"
| "level_code DEBUG = 1"
| "level_code INFO = 2"
| "level_code WARN = 3"
| "level_code ERROR = 4"
| "level_code IGNORE = 5"

fun to_trivial_severity :: "LogLevel \<Rightarrow> TrivialSeverity" where
  "to_trivial_severity TRACE = SevTrace"
| "to_trivial_severity DEBUG = SevDebug"
| "to_trivial_severity INFO = SevInfo"
| "to_trivial_severity WARN = SevWarning"
| "to_trivial_severity ERROR = SevError"
| "to_trivial_severity IGNORE = SevFatal"

fun severity_code :: "TrivialSeverity \<Rightarrow> int" where
  "severity_code SevTrace = 0"
| "severity_code SevDebug = 1"
| "severity_code SevInfo = 2"
| "severity_code SevWarning = 3"
| "severity_code SevError = 4"
| "severity_code SevFatal = 5"

section \<open>The logger singleton\<close>

record level_severity =
  ls_level :: LogLevel
  ls_severity :: TrivialSeverity

definition mk_level_severity :: "LogLevel \<Rightarrow> level_severity" where
  "mk_level_severity l = \<lparr>ls_level = l, ls_severity = to_trivial_severity l\<rparr>"

text \<open>\<open>LogLevelSeverity::set\<close> returns whether the level changed.\<close>

definition level_set :: "LogLevel \<Rightarrow> level_severity \<Rightarrow> bool \<times> level_severity" where
  "level_set l s =
     (if l = ls_level s then (False, s)
      else (True, s\<lparr>ls_level := l, ls_severity := to_trivial_severity l\<rparr>))"

datatype LogDest = BOTH | CONSOLE | FILE

record logger =
  console_sev :: level_severity
  file_sev :: level_severity
  console_sink :: bool
  file_sink :: bool

definition initial_logger :: logger where
  "initial_logger =
     \<lparr>console_sev = mk_level_severity INFO, file_sev = mk_level_severity INFO,
      console_sink = False, file_sink = False\<rparr>"

definition init_logging :: "LogLevel \<Rightarrow> logger \<Rightarrow> logger" where
  "init_logging l g = g\<lparr>console_sink := True, console_sev := snd (level_set l (console_sev g))\<rparr>"

definition init_file_logging :: "string \<Rightarrow> LogLevel \<Rightarrow> logger \<Rightarrow> logger" where
  "init_file_logging logfile l g =
     (if logfile = [] then g
      else g\<lparr>file_sink := True, file_sev := snd (level_set l (file_sev g))\<rparr>)"

definition shutdown_logging :: "logger \<Rightarrow> logger" where
  "shutdown_logging g = g\<lparr>console_sink := False, file_sink := False\<rparr>"

definition get_log_level :: "logger \<Rightarrow> LogLevel" where
  "get_log_level g = ls_level (console_sev g)"

definition set_log_level :: "LogLevel \<Rightarrow> logger \<Rightarrow> logger" where
  "set_log_level l g = g\<lparr>console_sev := snd (level_set l (console_sev g))\<rparr>"

text \<open>
  \<open>std::clamp\<close> to the levels from TRACE to ERROR of the shifted numeric level; the value
  clamped is an \<open>int\<close> cast to the enumeration and need not be an enumerator itself.
\<close>

definition clamp_level :: "int \<Rightarrow> LogLevel" where
  "clamp_level i =
     (if i < 1 then TRACE else if i < 2 then DEBUG else if i < 3 then INFO
      else if i < 4 then WARN else ERROR)"

definition increment_log_level :: "int \<Rightarrow> logger \<Rightarrow> logger" where
  "increment_log_level amount g = set_log_level (clamp_level (level_code (get_log_level g) - amount)) g"

text \<open>Which sinks a record with a severity and an optional destination attribute reaches.\<close>

definition console_accepts :: "logger \<Rightarrow> LogDest option \<Rightarrow> TrivialSeverity \<Rightarrow> bool" where
  "console_accepts g dest sev \<longleftrightarrow> console_sink g \<and> dest \<noteq> Some FILE \<and>
     severity_code (ls_severity (console_sev g)) \<le> severity_code sev"

definition file_accepts :: "logger \<Rightarrow> LogDest option \<Rightarrow> TrivialSeverity \<Rightarrow> bool" where
  "file_accepts g dest sev \<longleftrightarrow> file_sink g \<and> dest \<noteq> Some CONSOLE \<and>
     severity_code (ls_severity (file_sev g)) \<le> severity_code sev"

section \<open>Properties\<close>

definition logger_inv :: "logger \<Rightarrow> bool" where
  "logger_inv g \<longleftrightarrow>
     ls_severity (console_sev g) = to_trivial_severity (ls_level (console_sev g)) \<and>
     ls_severity (file_sev g) = to_trivial_severity (ls_level (file_sev g))"

lemmas logger_defs = level_set_def init_logging_def init_file_logging_def shutdown_logging_def
  set_log_level_def get_log_level_def increment_log_level_def mk_level_severity_def

lemma logger_inv_initial: "logger_inv initial_logger"
  by (simp add: logger_inv_def initial_logger_def mk_level_severity_def)

lemma logger_inv_ops:
  assumes "logger_inv g"
  shows "logger_inv (init_logging l g)" "logger_inv (init_file_logging f l g)"
    "logger_inv (shutdown_logging g)" "logger_inv (set_log_level l g)"
    "logger_inv (increment_log_level n g)"
  using assms by (auto simp: logger_inv_def logger_defs)

lemma level_code_le_5: "0 \<le> level_code l \<and> level_code l \<le> 5"
  by (cases l) auto

lemma severity_code_to_trivial: "severity_code (to_trivial_severity l) = level_code l"
  by (cases l) auto

lemma level_code_clamp: "level_code (clamp_level i) = max 0 (min 4 i)"
  by (auto simp: clamp_level_def)

text \<open>
  Auxiliary property: Printed log levels parse back, in any case, and shifting the verbosity by any amount
  keeps level and severity filter consistent and the level between TRACE and ERROR, exactly
  the clamped difference: logging of errors can never be switched off from the command line.
\<close>

theorem increment_log_level_clamped:
  assumes "logger_inv g"
  shows "level_code (get_log_level (increment_log_level n g)) =
           max 0 (min 4 (level_code (get_log_level g) - n)) \<and>
         (console_sink g \<longrightarrow> console_accepts (increment_log_level n g) None SevError)"
proof -
  let ?g = "increment_log_level n g"
  have lvl: "get_log_level ?g = clamp_level (level_code (get_log_level g) - n)"
    by (simp add: logger_defs)
  have "logger_inv ?g" using assms by (rule logger_inv_ops)
  then have "severity_code (ls_severity (console_sev ?g)) = level_code (get_log_level ?g)"
    by (simp add: logger_inv_def get_log_level_def severity_code_to_trivial)
  moreover have "console_sink ?g = console_sink g" by (simp add: logger_defs)
  ultimately show ?thesis by (simp add: lvl level_code_clamp console_accepts_def)
qed

theorem increment_log_level_clamped_witness:
  "logger_inv initial_logger \<and>
   level_code (get_log_level (increment_log_level 7 initial_logger)) = 0"
  using increment_log_level_clamped[OF logger_inv_initial, of 7] logger_inv_initial
  by (simp add: initial_logger_def mk_level_severity_def get_log_level_def)

lemma parse_show_log_level:
  "boost_ok B \<Longrightarrow> lower s = show_log_level l \<Longrightarrow> parse_log_level B s = Inr l"
  by (cases l) (auto simp: parse_log_level_def boost_okD)

end
