(* ===== verification/Config_Types.thy ===== *)
theory Config_Types
  imports Log_Levels
begin

text \<open>
  \<^verbatim>\<open>supervisor-lib/src/config/config_types.h\<close>: the configuration structures with their
  defaults, the size syntax (\<open>parse_size\<close>, 64-bit arithmetic with its wrap-around) and the
  substitution of \<open>%(program_name)s\<close>.
\<close>

section \<open>Sizes\<close>

definition parse_size :: "boost_algo \<Rightarrow> string \<Rightarrow> nat res" where
  "parse_size B size_str =
     (if size_str = [] then Inr 0
      else
        let n = length size_str;
            suffix = drop (n - 2) size_str;
            (num_str, multiplier) =
              (if n \<ge> 2 then
                 if iequals B suffix ''kB'' then (take (n - 2) size_str, 1024)
                 else if iequals B suffix ''MB'' then (take (n - 2) size_str, 1024 * 1024)
                 else if iequals B suffix ''gB'' then (take (n - 2) size_str, 1024 * 1024 * 1024)
                 else (size_str, 1)
               else (size_str, 1));
            num = trim_copy B num_str
        in if num = [] \<or> \<not> list_all isdigit num
           then Inl (InvalidArgument (''Invalid size format: '' @ size_str))
           else (case stoull num of
                   Inr v \<Rightarrow> Inr ((v * multiplier) mod 2 ^ 64)
                 | Inl (InvalidArgument _) \<Rightarrow> Inl (InvalidArgument (''Invalid size format: '' @ size_str))
                 | Inl (OutOfRange _) \<Rightarrow> Inl (InvalidArgument (''Size value out of range: '' @ size_str))
                 | Inl e \<Rightarrow> Inl e))"

section \<open>Configuration structures\<close>

record log_config =
  lc_file :: "string option"
  lc_file_maxbytes :: nat
  lc_file_backups :: int

record program_config =
  pc_name :: string
  pc_command :: string
  pc_environment :: "string smap"
  pc_directory :: "string option"
  pc_autorestart :: bool
  pc_user :: string
  pc_stdout_log :: log_config
  pc_stderr_log :: log_config
  pc_redirect_stderr :: bool
  pc_startsecs :: int
  pc_startretries :: int
  pc_stopwaitsecs :: int
  pc_stopsignal :: string
  pc_umask :: "nat option"

definition default_log_config :: log_config where
  "default_log_config = \<lparr>lc_file = None, lc_file_maxbytes = 50 * 1024 * 1024, lc_file_backups = 10\<rparr>"

definition default_program_config :: program_config where
  "default_program_config =
     \<lparr>pc_name = '''', pc_command = '''', pc_environment = [], pc_directory = None,
      pc_autorestart = True, pc_user = ''root'',
      pc_stdout_log = default_log_config, pc_stderr_log = default_log_config,
      pc_redirect_stderr = False,
      pc_startsecs = 1, pc_startretries = 3, pc_stopwaitsecs = 10, pc_stopsignal = ''TERM'',
      pc_umask = None\<rparr>"

text \<open>The substitution loop: find the next occurrence from \<open>pos\<close>, replace it, continue after it.\<close>

definition program_name_var :: string where
  "program_name_var = ''%(program_name)s''"

lemma length_program_name_var [simp]: "length program_name_var = 16"
  by (simp add: program_name_var_def)

function substitute_loop :: "string \<Rightarrow> string \<Rightarrow> nat \<Rightarrow> string" where
  "substitute_loop nm result pos =
     (case find_str program_name_var (drop pos result) of
        None \<Rightarrow> result
      | Some k \<Rightarrow>
          substitute_loop nm (take (pos + k) result @ nm @ drop (pos + k + 16) result)
            (pos + k + length nm))"
  by pat_completeness auto
termination
proof (relation "measure (\<lambda>(nm, result, pos). length result - pos)")
  show "((nm, take (pos + k) result @ nm @ drop (pos + k + 16) result, pos + k + length nm), nm, result, pos)
      \<in> measure (\<lambda>(nm, result, pos). length result - pos)"
    if "find_str program_name_var (drop pos result) = Some k" for nm result pos k
    using find_str_le[OF that] by auto
qed simp

declare substitute_loop.simps [simp del]

definition substitute_variables :: "program_config \<Rightarrow> string \<Rightarrow> string" where
  "substitute_variables c input = substitute_loop (pc_name c) input 0"

section \<open>Daemon configuration\<close>

record supervisord_config =
  sc_logfile :: string
  sc_logfile_maxbytes :: nat
  sc_logfile_backups :: int
  sc_loglevel :: LogLevel
  sc_user :: string
  sc_childlogdir :: string
  sc_pidfile :: string
  sc_umask :: nat

record configuration =
  cf_config_file :: string
  cf_socket_file :: string
  cf_supervisord :: supervisord_config
  cf_programs :: "program_config list"
  cf_included :: "string list"

definition default_configuration :: configuration where
  "default_configuration =
     \<lparr>cf_config_file = [], cf_socket_file = ''/run/supervisord.sock'',
      cf_supervisord =
        \<lparr>sc_logfile = ''/var/log/supervisord.log'', sc_logfile_maxbytes = 50 * 1024 * 1024,
         sc_logfile_backups = 10, sc_loglevel = INFO, sc_user = ''root'',
         sc_childlogdir = ''/var/log/supervisor'', sc_pidfile = [], sc_umask = 18\<rparr>,
      cf_programs = [], cf_included = []\<rparr>"

section \<open>Sizes: what is accepted and what it means\<close>

definition size_suffix :: "string \<Rightarrow> nat option" where
  "size_suffix suf =
     (if suf = [] then Some 1
      else if lower suf = ''kb'' then Some 1024
      else if lower suf = ''mb'' then Some (1024 ^ 2)
      else if lower suf = ''gb'' then Some (1024 ^ 3)
      else None)"

lemma lower_two_lettersD:
  "lower s = [a, b] \<Longrightarrow> length s = 2"
  by (metis length_lower length_Cons list.size(3) numeral_2_eq_2)

lemma size_suffix_cases:
  assumes "size_suffix suf = Some m"
  obtains (none) "suf = []" "m = 1"
    | (kb) "length suf = 2" "lower suf = ''kb''" "m = 1024"
    | (mb) "length suf = 2" "lower suf = ''mb''" "m = 1024 * 1024"
    | (gb) "length suf = 2" "lower suf = ''gb''" "m = 1024 * 1024 * 1024"
  using assms lower_two_lettersD
  by (fastforce simp: size_suffix_def power2_eq_square power3_eq_cube split: if_splits)

lemma lower_digits: "\<forall>c\<in>set s. isdigit c \<Longrightarrow> lower s = s"
  by (induction s) (auto simp: lower_def tolower_def isupper_def isdigit_def)

lemma stoull_digits [simp]: "n < 2 ^ 64 \<Longrightarrow> stoull (show_nat n) = Inr n"
  using stoull_show_nat[of n "[]"] by simp

lemma trim_show_nat [simp]: "trim_spaces (show_nat n) = show_nat n"
  using show_nat_digits isdigit_not_isspace by (intro trim_spaces_id) blast

lemma all_digits_show_nat [simp]: "list_all isdigit (show_nat n)"
  using show_nat_digits by (simp add: list_all_iff)

lemma lower_units [simp]:
  "lower ''kB'' = ''kb''" "lower ''MB'' = ''mb''" "lower ''gB'' = ''gb''"
  by code_simp+

lemma isdigit_letters: "\<not> isdigit CHR ''b''" "isdigit c \<Longrightarrow> tolower c = c"
  by (simp_all add: charclass)

lemma drop_last_two_digits:
  assumes "2 \<le> length (show_nat n)"
  shows "lower (drop (length (show_nat n) - 2) (show_nat n)) \<notin> {''kb'', ''mb'', ''gb''}"
proof -
  let ?d = "drop (length (show_nat n) - 2) (show_nat n)"
  have "\<forall>c\<in>set ?d. isdigit c" using show_nat_digits[of n] in_set_dropD by fast
  then have "\<forall>c\<in>set (lower ?d). isdigit c" by (simp add: lower_digits)
  then show ?thesis by (auto simp: isdigit_letters)
qed

text \<open>
  Auxiliary property: A size written as a number with an optional unit (any mix of upper and lower case) is
  accepted and means the number times the unit, reduced modulo \<open>2 ^ 64\<close>: it is exact
  whenever the product fits in 64 bits, and silently wraps when it does not.
\<close>

theorem parse_size_value:
  assumes "boost_ok B" "n < 2 ^ 64" "size_suffix suf = Some m"
  shows "parse_size B (show_nat n @ suf) = Inr ((n * m) mod 2 ^ 64)"
  using assms(3)
proof (cases rule: size_suffix_cases)
  case none
  let ?s = "show_nat n"
  show ?thesis
  proof (cases "2 \<le> length ?s")
    case True
    have neg: "\<not> iequals B (drop (length ?s - 2) ?s) ''kB''" "\<not> iequals B (drop (length ?s - 2) ?s) ''MB''"
      "\<not> iequals B (drop (length ?s - 2) ?s) ''gB''"
      using drop_last_two_digits[OF True] by (auto simp: boost_okD(2)[OF assms(1)])
    from none assms(2) True neg show ?thesis
      by (simp add: parse_size_def Let_def boost_okD(1)[OF assms(1)])
  next
    case False
    with none assms(2) show ?thesis by (simp add: parse_size_def Let_def boost_okD(1)[OF assms(1)])
  qed
qed (use assms(2) in \<open>auto simp: parse_size_def Let_def boost_okD[OF assms(1)]\<close>)

theorem parse_size_value_witness:
  "boost_ok classic_boost \<and> (50::nat) < 2 ^ 64 \<and> size_suffix ''MB'' = Some (1024 ^ 2) \<and>
   parse_size classic_boost (show_nat 50 @ ''MB'') = Inr 52428800"
proof -
  have s: "size_suffix ''MB'' = Some (1024 ^ 2)" by (simp add: size_suffix_def)
  show ?thesis using parse_size_value[OF boost_ok_classic _ s, of 50] s by simp
qed

section \<open>Substitution: the loop is one left-to-right pass\<close>

function replace_all :: "string \<Rightarrow> string \<Rightarrow> string" where
  "replace_all nm [] = []"
| "replace_all nm (c # cs) =
     (if prefix program_name_var (c # cs) then nm @ replace_all nm (drop 15 cs)
      else c # replace_all nm cs)"
  by pat_completeness auto
termination
  by (relation "measure (\<lambda>(nm, s). length s)") auto

lemma replace_all_no_occurrence: "find_str program_name_var s = None \<Longrightarrow> replace_all nm s = s"
  by (induction s) (auto split: if_splits)

lemma replace_all_first:
  "find_str program_name_var s = Some k \<Longrightarrow>
     replace_all nm s = take k s @ nm @ replace_all nm (drop (k + 16) s)"
proof (induction s arbitrary: k)
  case (Cons c s)
  show ?case
  proof (cases "prefix program_name_var (c # s)")
    case True
    with Cons.prems show ?thesis by (auto simp: program_name_var_def eval_nat_numeral)
  next
    case False
    with Cons.prems obtain j where j: "find_str program_name_var s = Some j" "k = Suc j"
      by (auto split: if_splits)
    have "drop (Suc j + 16) (c # s) = drop (j + 16) s" by (simp only: add_Suc drop_Suc_Cons)
    with Cons.IH[OF j(1)] False j(2) show ?thesis by (simp only: replace_all.simps if_False take_Suc_Cons append_Cons)
  qed
qed (auto simp: program_name_var_def split: if_splits)

lemma substitute_loop_eq:
  "pos \<le> length s \<Longrightarrow> substitute_loop nm s pos = take pos s @ replace_all nm (drop pos s)"
proof (induction nm s pos rule: substitute_loop.induct)
  case (1 nm s pos)
  show ?case
  proof (cases "find_str program_name_var (drop pos s)")
    case None
    then show ?thesis by (subst substitute_loop.simps) (simp add: replace_all_no_occurrence)
  next
    case (Some k)
    let ?s = "take (pos + k) s @ nm @ drop (pos + k + 16) s"
    from find_str_le[OF Some] "1.prems" have le: "pos + k + 16 \<le> length s" by simp
    with "1.IH"[OF Some] have step: "substitute_loop nm ?s (pos + k + length nm) =
        take (pos + k) s @ nm @ replace_all nm (drop (pos + k + 16) s)" by simp
    have d: "drop (k + 16) (drop pos s) = drop (pos + k + 16) s" by (simp add: ac_simps)
    have "substitute_loop nm s pos = take (pos + k) s @ nm @ replace_all nm (drop (pos + k + 16) s)"
      by (subst substitute_loop.simps) (simp only: Some option.case step)
    then have "substitute_loop nm s pos =
        take pos s @ take k (drop pos s) @ nm @ replace_all nm (drop (k + 16) (drop pos s))"
      by (simp only: d take_add append_assoc)
    with replace_all_first[OF Some] show ?thesis by simp
  qed
qed

text \<open>
  Auxiliary property: Substitution replaces every occurrence of \<open>%(program_name)s\<close> by the program's name
  in one left-to-right pass: it terminates, text without the variable is unchanged, and a name
  that itself contains the variable is not expanded again.
\<close>

theorem substitute_variables_correct:
  "substitute_variables c s = replace_all (pc_name c) s"
  by (simp add: substitute_variables_def substitute_loop_eq)

end
