(* ===== verification/Filesystem.thy ===== *)
theory Filesystem
  imports Prelude
begin

text \<open>
  The file system as the sources see it through \<open>std::filesystem\<close> and POSIX: paths are
  strings with the decomposition \<open>std::filesystem::path\<close> gives them, files have contents,
  metadata and canonical names, and each operation may be refused by the environment. The
  refusals and everything the program cannot control are fields of a record, so every theorem
  holds for any environment.
\<close>

section \<open>Paths\<close>

abbreviation SLASH :: char where "SLASH \<equiv> CHR ''/''"

definition filename :: "string \<Rightarrow> string" where
  "filename p = rev (takeWhile (\<lambda>c. c \<noteq> SLASH) (rev p))"

text \<open>All but the last component; a root directory is its own parent.\<close>

definition parent_path :: "string \<Rightarrow> string" where
  "parent_path p =
     (let h = dropWhile (\<lambda>c. c \<noteq> SLASH) (rev p);
          t = dropWhile (\<lambda>c. c = SLASH) h
      in if t = [] then rev h else rev t)"

definition is_absolute :: "string \<Rightarrow> bool" where
  "is_absolute p \<longleftrightarrow> p \<noteq> [] \<and> hd p = SLASH"

text \<open>\<open>operator/\<close>: an absolute right operand replaces the left one.\<close>

definition path_append :: "string \<Rightarrow> string \<Rightarrow> string" where
  "path_append d f =
     (if is_absolute f then f
      else if d = [] \<or> last d = SLASH then d @ f
      else d @ SLASH # f)"

lemma filename_no_slash: "SLASH \<notin> set (filename p)"
  using set_takeWhileD by (fastforce simp: filename_def)

lemma filename_append_slash: "SLASH \<notin> set f \<Longrightarrow> filename (d @ SLASH # f) = f"
  by (simp add: filename_def takeWhile_append)

lemma parent_path_append_slash:
  assumes "SLASH \<notin> set f" "d \<noteq> []" "last d \<noteq> SLASH"
  shows "parent_path (d @ SLASH # f) = d"
proof -
  have "dropWhile (\<lambda>c. c \<noteq> SLASH) (rev f @ SLASH # rev d) = SLASH # rev d"
    using assms(1) by (simp add: dropWhile_append)
  moreover have "dropWhile (\<lambda>c. c = SLASH) (rev d) = rev d"
    using assms(2,3) by (cases d rule: rev_cases) auto
  moreover have "\<not> (\<forall>x\<in>set d. x = SLASH)" using assms(2,3) by (meson last_in_set)
  ultimately show ?thesis using assms(2) by (simp add: parent_path_def Let_def)
qed

section \<open>File metadata\<close>

datatype file_kind = RegularFile | Directory | Symlink | OtherFile

record file_stat =
  st_kind :: file_kind
  st_uid :: nat
  st_mode :: nat

text \<open>Permission bits, as the octal constants of \<^verbatim>\<open>sys/stat.h\<close>.\<close>

definition world_writable :: "file_stat \<Rightarrow> bool" where
  "world_writable st \<longleftrightarrow> st_mode st div 2 mod 2 = 1"

definition any_exec_bit :: "file_stat \<Rightarrow> bool" where
  "any_exec_bit st \<longleftrightarrow> st_mode st div 64 mod 2 = 1 \<or> st_mode st div 8 mod 2 = 1 \<or> st_mode st mod 2 = 1"

section \<open>The mutable part\<close>

record fsys =
  fs_files :: "string \<Rightarrow> string option"
  fs_dirs :: "string \<Rightarrow> bool"
  fs_open_ok :: "string \<Rightarrow> bool"
  fs_stat_ok :: "string \<Rightarrow> bool"
  fs_write_ok :: "string \<Rightarrow> bool"
  fs_flush_ok :: "string \<Rightarrow> bool"
  fs_rename_ok :: "string \<Rightarrow> string \<Rightarrow> bool"
  fs_remove_ok :: "string \<Rightarrow> bool"
  fs_mkdir_ok :: "string \<Rightarrow> bool"

definition fs_exists :: "fsys \<Rightarrow> string \<Rightarrow> bool" where
  "fs_exists fs p \<longleftrightarrow> fs_files fs p \<noteq> None \<or> fs_dirs fs p"

text \<open>Each operation says whether it succeeded; a failure leaves the files as they were.\<close>

definition fs_rename :: "string \<Rightarrow> string \<Rightarrow> fsys \<Rightarrow> bool \<times> fsys" where
  "fs_rename src dst fs =
     (if fs_rename_ok fs src dst
      then (True, fs\<lparr>fs_files := (fs_files fs)(dst := fs_files fs src, src := None)\<rparr>)
      else (False, fs))"

definition fs_remove :: "string \<Rightarrow> fsys \<Rightarrow> bool \<times> fsys" where
  "fs_remove p fs =
     (if fs_remove_ok fs p then (True, fs\<lparr>fs_files := (fs_files fs)(p := None)\<rparr>) else (False, fs))"

definition fs_append :: "string \<Rightarrow> string \<Rightarrow> fsys \<Rightarrow> fsys" where
  "fs_append p d fs =
     fs\<lparr>fs_files := (fs_files fs)(p \<mapsto> (case fs_files fs p of Some c \<Rightarrow> c @ d | None \<Rightarrow> d))\<rparr>"

definition fs_can_open :: "fsys \<Rightarrow> string \<Rightarrow> bool" where
  "fs_can_open fs p \<longleftrightarrow>
     fs_open_ok fs p \<and> \<not> fs_dirs fs p \<and> (parent_path p = [] \<or> fs_dirs fs (parent_path p))"

definition content :: "fsys \<Rightarrow> string \<Rightarrow> string" where
  "content fs p = (case fs_files fs p of Some c \<Rightarrow> c | None \<Rightarrow> [])"

text \<open>An environment in which files can be opened and written, and one that allows moving and removing them too.\<close>

definition fs_writable :: "fsys \<Rightarrow> bool" where
  "fs_writable fs \<longleftrightarrow>
     (\<forall>p. fs_open_ok fs p) \<and> (\<forall>p. fs_stat_ok fs p) \<and> (\<forall>p. fs_write_ok fs p) \<and> (\<forall>p. fs_flush_ok fs p)"

definition fs_movable :: "fsys \<Rightarrow> bool" where
  "fs_movable fs \<longleftrightarrow> (\<forall>p q. fs_rename_ok fs p q) \<and> (\<forall>p. fs_remove_ok fs p)"

lemma fs_writable_upd [simp]: "fs_writable (fs\<lparr>fs_files := f\<rparr>) = fs_writable fs"
  by (simp add: fs_writable_def)

lemma fs_movable_upd [simp]: "fs_movable (fs\<lparr>fs_files := f\<rparr>) = fs_movable fs"
  by (simp add: fs_movable_def)

lemma fs_can_open_upd [simp]: "fs_can_open (fs\<lparr>fs_files := f\<rparr>) = fs_can_open fs"
  by (simp add: fs_can_open_def fun_eq_iff)

lemma content_upd: "content (fs\<lparr>fs_files := (fs_files fs)(p := v)\<rparr>) q =
    (if q = p then (case v of Some c \<Rightarrow> c | None \<Rightarrow> []) else content fs q)"
  by (simp add: content_def)

lemma content_append: "content (fs_append p d fs) q = (if q = p then content fs p @ d else content fs q)"
  by (auto simp: content_def fs_append_def split: option.splits)

end
