(* ===== verification/Posix.thy ===== *)
theory Posix
  imports Filesystem
begin

text \<open>
  The operating system as the daemon sees it: clocks, child processes, signals and file
  descriptors. What the kernel decides (the readings of the clocks, the result of the n-th
  \<open>fork\<close>, whether the n-th \<open>pipe2\<close> succeeds, which children have exited) is a field
  of the record, so theorems hold for every choice; what the program did (signals sent,
  descriptors opened and closed) is recorded.
\<close>

section \<open>State\<close>

record sys =
  sy_fs :: fsys
  sy_steady :: "nat \<Rightarrow> int"
  sy_system :: "nat \<Rightarrow> int"
  sy_reads :: nat
  sy_fork_ret :: "nat \<Rightarrow> int"
  sy_forks :: nat
  sy_pipe_ok :: "nat \<Rightarrow> bool"
  sy_pipes :: nat
  sy_fds :: "nat list"
  sy_asio_ok :: "nat \<Rightarrow> bool"
  sy_streams :: nat
  sy_kill_ok :: "nat \<Rightarrow> bool"
  sy_kills :: "(int \<times> int) list"
  sy_waitable :: "(int \<times> int) list"
  sy_shift :: "int \<Rightarrow> int"
  sy_strerror :: string

text \<open>Signal numbers of Linux.\<close>

abbreviation (input) SIGHUP :: int where "SIGHUP \<equiv> 1"
abbreviation (input) SIGINT :: int where "SIGINT \<equiv> 2"
abbreviation (input) SIGQUIT :: int where "SIGQUIT \<equiv> 3"
abbreviation (input) SIGKILL :: int where "SIGKILL \<equiv> 9"
abbreviation (input) SIGPIPE :: int where "SIGPIPE \<equiv> 13"
abbreviation (input) SIGTERM :: int where "SIGTERM \<equiv> 15"
abbreviation (input) SIGCHLD :: int where "SIGCHLD \<equiv> 17"

section \<open>Clocks\<close>

text \<open>Every call of \<open>now()\<close> takes the next reading, in nanoseconds.\<close>

definition steady_now :: "sys \<Rightarrow> int \<times> sys" where
  "steady_now sy = (sy_steady sy (sy_reads sy), sy\<lparr>sy_reads := Suc (sy_reads sy)\<rparr>)"

definition system_now :: "sys \<Rightarrow> int \<times> sys" where
  "system_now sy = (sy_system sy (sy_reads sy), sy\<lparr>sy_reads := Suc (sy_reads sy)\<rparr>)"

text \<open>A duration cast truncates towards zero.\<close>

definition trunc_div :: "int \<Rightarrow> int \<Rightarrow> int" where
  "trunc_div a b = (if a \<ge> 0 then a div b else - ((- a) div b))"

abbreviation (input) NS :: int where "NS \<equiv> 1000000000"

definition to_seconds :: "int \<Rightarrow> int" where
  "to_seconds d = trunc_div d NS"

lemma to_seconds_ge: "0 < k \<Longrightarrow> to_seconds d \<ge> k \<longleftrightarrow> d \<ge> k * NS"
  by (auto simp: to_seconds_def trunc_div_def)

lemma to_seconds_ge_nonneg: "0 \<le> d \<Longrightarrow> 0 \<le> k \<Longrightarrow> to_seconds d \<ge> k \<longleftrightarrow> d \<ge> k * NS"
  by (auto simp: to_seconds_def trunc_div_def)

text \<open>Conversion of a wide integer to a 32-bit \<open>int\<close>.\<close>

definition to_int32 :: "int \<Rightarrow> int" where
  "to_int32 v = (v + 2 ^ 31) mod 2 ^ 32 - 2 ^ 31"

lemma to_int32_id: "- (2 ^ 31) \<le> v \<Longrightarrow> v < 2 ^ 31 \<Longrightarrow> to_int32 v = v"
  by (simp add: to_int32_def)

section \<open>Descriptors\<close>

text \<open>A new descriptor is the lowest one that is not open.\<close>

definition lowest_free :: "nat list \<Rightarrow> nat" where
  "lowest_free fds = hd (filter (\<lambda>n. n \<notin> set fds) [0..<Suc (length fds)])"

lemma lowest_free_notin: "lowest_free fds \<notin> set fds"
proof -
  have "\<exists>n < Suc (length fds). n \<notin> set fds"
  proof (rule ccontr)
    assume "\<not> ?thesis"
    then have "{0..<Suc (length fds)} \<subseteq> set fds" by auto
    then have "card {0..<Suc (length fds)} \<le> card (set fds)" by (intro card_mono) auto
    with card_length[of fds] show False by simp
  qed
  then have "filter (\<lambda>n. n \<notin> set fds) [0..<Suc (length fds)] \<noteq> []"
    by (auto simp: filter_empty_conv simp del: upt_Suc)
  then have "hd (filter (\<lambda>n. n \<notin> set fds) [0..<Suc (length fds)]) \<in> {n. n \<notin> set fds}"
    using hd_in_set by (fastforce simp del: upt_Suc)
  then show ?thesis by (simp add: lowest_free_def)
qed

definition sys_close :: "nat \<Rightarrow> sys \<Rightarrow> sys" where
  "sys_close fd sy = sy\<lparr>sy_fds := removeAll fd (sy_fds sy)\<rparr>"

definition pipe2 :: "sys \<Rightarrow> (nat \<times> nat) option \<times> sys" where
  "pipe2 sy =
     (let n = sy_pipes sy; sy = sy\<lparr>sy_pipes := Suc n\<rparr> in
      if \<not> sy_pipe_ok sy n then (None, sy)
      else let r = lowest_free (sy_fds sy);
               w = lowest_free (r # sy_fds sy)
           in (Some (r, w), sy\<lparr>sy_fds := w # r # sy_fds sy\<rparr>))"

section \<open>Processes and signals\<close>

text \<open>
  The parent's view of \<open>fork\<close>: negative for a failure, else the child's pid. The child,
  which sees 0, is a process of its own.
\<close>

definition fork :: "sys \<Rightarrow> int \<times> sys" where
  "fork sy = (sy_fork_ret sy (sy_forks sy), sy\<lparr>sy_forks := Suc (sy_forks sy)\<rparr>)"

definition fork_ret_ok :: "sys \<Rightarrow> bool" where
  "fork_ret_ok sy \<longleftrightarrow> (\<forall>n. sy_fork_ret sy n \<noteq> 0)"

definition sys_kill :: "int \<Rightarrow> int \<Rightarrow> sys \<Rightarrow> bool \<times> sys" where
  "sys_kill pid sig sy = (sy_kill_ok sy (length (sy_kills sy)), sy\<lparr>sy_kills := sy_kills sy @ [(pid, sig)]\<rparr>)"

text \<open>\<open>waitpid(pid, \<dots>, 0)\<close> collects one child; \<open>waitpid(-1, \<dots>, WNOHANG)\<close> any that has exited.\<close>

definition waitpid_blocking :: "int \<Rightarrow> sys \<Rightarrow> sys" where
  "waitpid_blocking pid sy = sy\<lparr>sy_waitable := filter (\<lambda>(q, s). q \<noteq> pid) (sy_waitable sy)\<rparr>"

definition waitpid_any :: "sys \<Rightarrow> (int \<times> int) option \<times> sys" where
  "waitpid_any sy =
     (case sy_waitable sy of
        [] \<Rightarrow> (None, sy)
      | x # xs \<Rightarrow> (Some x, sy\<lparr>sy_waitable := xs\<rparr>))"

text \<open>The status word of \<open>waitpid\<close>.\<close>

definition WTERMSIG :: "int \<Rightarrow> int" where
  "WTERMSIG st = st mod 128"

definition WIFEXITED :: "int \<Rightarrow> bool" where
  "WIFEXITED st \<longleftrightarrow> WTERMSIG st = 0"

definition WEXITSTATUS :: "int \<Rightarrow> int" where
  "WEXITSTATUS st = st div 256 mod 256"

definition WIFSIGNALED :: "int \<Rightarrow> bool" where
  "WIFSIGNALED st \<longleftrightarrow> 0 < WTERMSIG st \<and> WTERMSIG st < 127"

text \<open>
  \<open>1 << n\<close> on a 32-bit \<open>int\<close>: a power of two below the sign bit, the smallest
  \<open>int\<close> at it, and whatever the machine does outside the width.
\<close>

definition shift_one :: "sys \<Rightarrow> int \<Rightarrow> int" where
  "shift_one sy n =
     (if 0 \<le> n \<and> n < 31 then 2 ^ nat n else if n = 31 then - (2 ^ 31) else sy_shift sy n)"

text \<open>Strings handed to the kernel end at the first null byte.\<close>

definition c_str :: "string \<Rightarrow> string" where
  "c_str s = takeWhile (\<lambda>c. c \<noteq> NUL) s"

lemma c_str_id [simp]: "NUL \<notin> set s \<Longrightarrow> c_str s = s"
  by (auto simp: c_str_def takeWhile_eq_all_conv)

end
