(* ===== verification/Log_Writer.thy ===== *)
theory Log_Writer
  imports Filesystem
begin

text \<open>
  \<^verbatim>\<open>supervisor-lib/src/logger/log_writer.cpp\<close>: a log file with a buffer for the last
  incomplete line and rotation to numbered backups when a size limit would be passed. The
  output stream is its open flag, its error state and what was written to it but not flushed;
  the mutex is not modelled, since the program has one thread.
\<close>

section \<open>State\<close>

record log_writer =
  lw_logfile :: string
  lw_max_bytes :: nat
  lw_backups :: int
  lw_is_open :: bool
  lw_good :: bool
  lw_buffer :: string
  lw_current_size :: nat
  lw_pending :: string

definition MAX_PENDING_BUFFER :: nat where
  "MAX_PENDING_BUFFER = 64 * 1024"

definition backup_path :: "string \<Rightarrow> int \<Rightarrow> string" where
  "backup_path log i = log @ ''.'' @ show_int i"

section \<open>The output stream\<close>

definition stream_write :: "string \<Rightarrow> fsys \<Rightarrow> log_writer \<Rightarrow> log_writer" where
  "stream_write d fs w =
     (if lw_good w \<and> fs_write_ok fs (lw_logfile w) then w\<lparr>lw_buffer := lw_buffer w @ d\<rparr>
      else w\<lparr>lw_good := False\<rparr>)"

definition stream_flush :: "log_writer \<Rightarrow> fsys \<Rightarrow> log_writer \<times> fsys" where
  "stream_flush w fs =
     (if lw_good w \<and> fs_flush_ok fs (lw_logfile w)
      then (w\<lparr>lw_buffer := []\<rparr>, fs_append (lw_logfile w) (lw_buffer w) fs)
      else (w\<lparr>lw_good := False, lw_buffer := []\<rparr>, fs))"

definition stream_close :: "log_writer \<Rightarrow> fsys \<Rightarrow> log_writer \<times> fsys" where
  "stream_close w fs = (let (w, fs) = stream_flush w fs in (w\<lparr>lw_is_open := False\<rparr>, fs))"

text \<open>Opening in append mode creates the file; success clears the error state.\<close>

definition stream_open :: "log_writer \<Rightarrow> fsys \<Rightarrow> log_writer \<times> fsys" where
  "stream_open w fs =
     (if fs_can_open fs (lw_logfile w)
      then (w\<lparr>lw_is_open := True, lw_good := True, lw_buffer := []\<rparr>, fs_append (lw_logfile w) [] fs)
      else (w\<lparr>lw_good := False\<rparr>, fs))"

section \<open>Operations\<close>

definition openNL :: "log_writer \<Rightarrow> fsys \<Rightarrow> bool \<times> log_writer \<times> fsys" where
  "openNL w fs =
     (let (w, fs) = (if lw_is_open w then stream_close w fs else (w, fs));
          (w, fs) = stream_open w fs
      in if \<not> lw_is_open w then (False, w, fs)
         else (True,
           w\<lparr>lw_current_size :=
               (if fs_exists fs (lw_logfile w) \<and> fs_stat_ok fs (lw_logfile w)
                then length (content fs (lw_logfile w)) else 0)\<rparr>,
           fs))"

text \<open>
  The renames of \<open>rotateNL\<close>, from the oldest backup to the newest; the first refused
  operation is the exception that ends the sequence, with what was done before it kept.
\<close>

fun shift_backups :: "string \<Rightarrow> nat \<Rightarrow> fsys \<Rightarrow> bool \<times> fsys" where
  "shift_backups log 0 fs = (True, fs)"
| "shift_backups log (Suc i) fs =
     (if fs_exists fs (backup_path log (int (Suc i)))
      then (let (ok, fs) = fs_rename (backup_path log (int (Suc i))) (backup_path log (int (Suc i) + 1)) fs
            in if ok then shift_backups log i fs else (False, fs))
      else shift_backups log i fs)"

definition remove_oldest :: "string \<Rightarrow> int \<Rightarrow> fsys \<Rightarrow> bool \<times> fsys" where
  "remove_oldest log backups fs =
     (if backups > 0 \<and> fs_exists fs (backup_path log backups)
      then fs_remove (backup_path log backups) fs else (True, fs))"

definition rotate_current :: "string \<Rightarrow> fsys \<Rightarrow> bool \<times> fsys" where
  "rotate_current log fs =
     (if fs_exists fs log then fs_rename log (backup_path log 1) fs else (True, fs))"

definition rotate_files :: "string \<Rightarrow> int \<Rightarrow> fsys \<Rightarrow> fsys" where
  "rotate_files log backups fs =
     (let (ok, fs) = remove_oldest log backups fs in
      if \<not> ok then fs
      else let (ok, fs) = shift_backups log (nat (backups - 1)) fs in
      if \<not> ok then fs
      else snd (rotate_current log fs))"

definition rotateNL :: "log_writer \<Rightarrow> fsys \<Rightarrow> log_writer \<times> fsys" where
  "rotateNL w fs =
     (let (w, fs) = (if lw_is_open w then stream_close w fs else (w, fs));
          fs = rotate_files (lw_logfile w) (lw_backups w) fs;
          (_, w, fs) = openNL (w\<lparr>lw_current_size := 0\<rparr>) fs
      in (w, fs))"

definition writeNL :: "string \<Rightarrow> log_writer \<Rightarrow> fsys \<Rightarrow> int \<times> log_writer \<times> fsys" where
  "writeNL str w fs =
     (let (w, fs) = (if lw_max_bytes w > 0 \<and> lw_current_size w + length str > lw_max_bytes w
                     then rotateNL w fs else (w, fs));
          w = stream_write str fs w
      in if \<not> lw_good w then (-1, w, fs)
         else let w = w\<lparr>lw_current_size := lw_current_size w + length str\<rparr>;
                  (w, fs) = stream_flush w fs
              in (int (length str), w, fs))"

text \<open>The end of what \<open>write\<close> passes on: after the last newline, or everything once 64 KB wait.\<close>

definition flush_end :: "string \<Rightarrow> string \<Rightarrow> nat" where
  "flush_end pending data =
     (case rfind_char NL data of
        Some nl_in_new \<Rightarrow> length pending + nl_in_new + 1
      | None \<Rightarrow> if length (pending @ data) \<ge> MAX_PENDING_BUFFER then length (pending @ data) else 0)"

definition lw_write :: "string \<Rightarrow> log_writer \<Rightarrow> fsys \<Rightarrow> int \<times> log_writer \<times> fsys" where
  "lw_write data w fs =
     (if data = [] then (0, w, fs)
      else let (opened, w, fs) = (if lw_is_open w then (True, w, fs) else openNL w fs) in
      if \<not> opened then (-1, w, fs)
      else let e = flush_end (lw_pending w) data;
               w = w\<lparr>lw_pending := lw_pending w @ data\<rparr>
           in if e = 0 then (0, w, fs)
              else let (res, w, fs) = writeNL (take e (lw_pending w)) w fs
                   in (res, w\<lparr>lw_pending := drop e (lw_pending w)\<rparr>, fs))"

definition write_line :: "string \<Rightarrow> log_writer \<Rightarrow> fsys \<Rightarrow> int \<times> log_writer \<times> fsys" where
  "write_line line w fs =
     lw_write (if line = [] \<or> last line \<noteq> NL then line @ [NL] else line) w fs"

definition lw_flush :: "log_writer \<Rightarrow> fsys \<Rightarrow> log_writer \<times> fsys" where
  "lw_flush w fs =
     (let w = (if lw_pending w \<noteq> [] \<and> lw_is_open w
               then (stream_write (lw_pending w) fs w)
                      \<lparr>lw_current_size := lw_current_size w + length (lw_pending w), lw_pending := []\<rparr>
               else w)
      in if lw_is_open w then stream_flush w fs else (w, fs))"

definition closeNL :: "log_writer \<Rightarrow> fsys \<Rightarrow> log_writer \<times> fsys" where
  "closeNL w fs =
     (if \<not> lw_is_open w then (w, fs)
      else let w = (if lw_pending w \<noteq> []
                    then (stream_write (lw_pending w) fs w)
                           \<lparr>lw_current_size := lw_current_size w + length (lw_pending w), lw_pending := []\<rparr>
                    else w)
           in stream_close w fs)"

definition ensure_directory :: "log_writer \<Rightarrow> fsys \<Rightarrow> bool \<times> fsys" where
  "ensure_directory w fs =
     (let dir = parent_path (lw_logfile w) in
      if dir \<noteq> [] \<and> \<not> fs_exists fs dir
      then if fs_mkdir_ok fs dir then (True, fs\<lparr>fs_dirs := (fs_dirs fs)(dir := True)\<rparr>) else (False, fs)
      else (True, fs))"

definition mk_log_writer :: "string \<Rightarrow> nat \<Rightarrow> int \<Rightarrow> fsys \<Rightarrow> log_writer \<times> fsys" where
  "mk_log_writer logfile max_bytes backups fs =
     (let w = \<lparr>lw_logfile = logfile, lw_max_bytes = max_bytes, lw_backups = backups,
               lw_is_open = False, lw_good = True, lw_buffer = [], lw_current_size = 0,
               lw_pending = []\<rparr>;
          (_, fs) = ensure_directory w fs;
          (_, w, fs) = openNL w fs
      in (w, fs))"

lemmas lw_stream_defs = stream_write_def stream_flush_def stream_close_def stream_open_def

section \<open>Rotation\<close>

lemma show_nat_inject: "show_nat i = show_nat j \<longleftrightarrow> i = j"
  by (metis read_show_nat)

lemma backup_path_inject [simp]:
  "0 \<le> i \<Longrightarrow> 0 \<le> j \<Longrightarrow> backup_path log i = backup_path log j \<longleftrightarrow> i = j"
  by (simp add: backup_path_def show_int_def show_nat_inject eq_nat_nat_iff)

lemma backup_path_neq [simp]: "backup_path log i \<noteq> log" "log \<noteq> backup_path log i"
  by (simp_all add: backup_path_def)

text \<open>The number of backups that survive a rotation: a configured count below one still keeps one.\<close>

definition kept :: "int \<Rightarrow> nat" where
  "kept b = (if b \<le> 1 then 1 else nat b)"

definition no_backup_dirs :: "string \<Rightarrow> fsys \<Rightarrow> bool" where
  "no_backup_dirs log fs \<longleftrightarrow> \<not> fs_dirs fs log \<and> (\<forall>i. \<not> fs_dirs fs (backup_path log i))"

lemma no_backup_dirs_upd [simp]: "no_backup_dirs log (fs\<lparr>fs_files := f\<rparr>) = no_backup_dirs log fs"
  by (simp add: no_backup_dirs_def)

lemma fs_exists_backup:
  "no_backup_dirs log fs \<Longrightarrow> fs_exists fs (backup_path log i) \<longleftrightarrow> fs_files fs (backup_path log i) \<noteq> None"
  "no_backup_dirs log fs \<Longrightarrow> fs_exists fs log \<longleftrightarrow> fs_files fs log \<noteq> None"
  by (auto simp: fs_exists_def no_backup_dirs_def)

section \<open>What is in the log\<close>

text \<open>
  The text of the log from the oldest backup to the newest line, and with it the part of a
  line still waiting in the buffer.
\<close>

definition history :: "string \<Rightarrow> nat \<Rightarrow> fsys \<Rightarrow> string" where
  "history log n fs =
     concat (map (\<lambda>i. content fs (backup_path log (int i))) (rev [1..<Suc n])) @ content fs log"

definition log_view :: "log_writer \<Rightarrow> fsys \<Rightarrow> string" where
  "log_view w fs = history (lw_logfile w) (kept (lw_backups w)) fs @ lw_pending w"

lemma kept_pos: "1 \<le> kept b"
  by (auto simp: kept_def)

text \<open>
  Removing the oldest backup takes its text from the old end; moving a file to the next slot, when that
  one is free, changes nothing. A refused operation ends the rotation with the text as it then is.
\<close>

lemma history_remove_oldest:
  assumes "1 \<le> k"
  shows "history log k fs = content fs (backup_path log (int k)) @ history log k (fs\<lparr>fs_files := (fs_files fs)(backup_path log (int k) := None)\<rparr>)"
proof -
  define fs' where "fs' = fs\<lparr>fs_files := (fs_files fs)(backup_path log (int k) := None)\<rparr>"
  let ?c = "\<lambda>i. content fs (backup_path log (int i))" and ?d = "\<lambda>i. content fs' (backup_path log (int i))"
  have "map ?d (rev [1..<k]) = map ?c (rev [1..<k])" by (intro map_cong) (auto simp: content_upd fs'_def)
  moreover have "?d k = []" "content fs' log = content fs log" by (simp_all add: content_upd fs'_def)
  moreover have "rev [1..<Suc k] = k # rev [1..<k]" using assms by simp
  ultimately have "history log k fs = ?c k @ history log k fs'"
    unfolding history_def by (simp only: list.map concat.simps append_assoc append_Nil)
  then show ?thesis by (simp only: fs'_def)
qed

lemma history_move:
  assumes "1 \<le> i" "Suc i \<le> k" "fs_files fs (backup_path log (int i + 1)) = None"
  shows "history log k (fs\<lparr>fs_files := (fs_files fs)(backup_path log (int i + 1) := fs_files fs (backup_path log (int i)),
      backup_path log (int i) := None)\<rparr>) = history log k fs"
proof -
  define fs' where "fs' = fs\<lparr>fs_files := (fs_files fs)(backup_path log (int i + 1) := fs_files fs (backup_path log (int i)),
      backup_path log (int i) := None)\<rparr>"
  let ?c = "\<lambda>j. content fs (backup_path log (int j))" and ?d = "\<lambda>j. content fs' (backup_path log (int j))"
  have same: "?d j = ?c j" if "j \<noteq> i" "j \<noteq> Suc i" for j
    using that by (auto simp: fs'_def content_def)
  have moved: "?d i = []" "?d (Suc i) = ?c i" "?c (Suc i) = []" "content fs' log = content fs log"
    using assms(3) by (simp_all add: fs'_def content_def add.commute)
  have split: "[1..<Suc k] = [1..<i] @ [i, Suc i] @ [Suc (Suc i)..<Suc k]"
    using assms(1,2) upt_add_eq_append[of 1 i "Suc k - i"] by (simp add: upt_rec[of i] upt_rec[of "Suc i"])
  have rev: "rev [1..<Suc k] = rev [Suc (Suc i)..<Suc k] @ [Suc i, i] @ rev [1..<i]" unfolding split by simp
  have m: "map ?d (rev [1..<i]) = map ?c (rev [1..<i])" "map ?d (rev [Suc (Suc i)..<Suc k]) = map ?c (rev [Suc (Suc i)..<Suc k])"
    using same by (auto intro!: map_cong)
  have "history log k fs' = history log k fs"
    unfolding history_def rev map_append concat_append list.map concat.simps m moved by (simp only: append_Nil append_Nil2)
  then show ?thesis by (simp only: fs'_def)
qed

lemma history_move_current:
  assumes "1 \<le> k" "fs_files fs (backup_path log 1) = None \<or> k = 1"
  shows "history log k fs = content fs (backup_path log 1) @
    history log k (fs\<lparr>fs_files := (fs_files fs)(backup_path log 1 := fs_files fs log, log := None)\<rparr>) \<or>
    fs_files fs (backup_path log 1) = None \<and> history log k fs =
    history log k (fs\<lparr>fs_files := (fs_files fs)(backup_path log 1 := fs_files fs log, log := None)\<rparr>)"
proof -
  let ?f = "(fs_files fs)(backup_path log 1 := fs_files fs log, log := None)"
  define fs' where "fs' = fs\<lparr>fs_files := ?f\<rparr>"
  let ?c = "\<lambda>j. content fs (backup_path log (int j))" and ?d = "\<lambda>j. content fs' (backup_path log (int j))"
  have rev: "rev [1..<Suc k] = rev [2..<Suc k] @ [1]" using assms(1) upt_conv_Cons[of 1 "Suc k"] by (simp add: numeral_2_eq_2 del: upt_Suc)
  have m: "map ?d (rev [2..<Suc k]) = map ?c (rev [2..<Suc k])" "?d 1 = content fs log" "content fs' log = []"
    by (auto simp: content_def fs'_def intro!: map_cong)
  have h: "history log k fs' = concat (map ?c (rev [2..<Suc k])) @ content fs log"
    unfolding history_def rev map_append concat_append list.map concat.simps m by (simp only: append_Nil append_Nil2 append_assoc)
  have h': "history log k fs = concat (map ?c (rev [2..<Suc k])) @ ?c 1 @ content fs log"
    unfolding history_def rev map_append concat_append list.map concat.simps by (simp only: append_Nil append_Nil2 append_assoc)
  show ?thesis
  proof (cases "fs_files fs (backup_path log 1)")
    case None
    then have "?c 1 = []" by (simp add: content_def)
    with h h' None show ?thesis by (simp only: fs'_def append_Nil) simp
  next
    case (Some c)
    with assms(2) have "rev [2..<Suc k] = []" by simp
    with h h' show ?thesis by (simp only: fs'_def list.map concat.simps append_Nil) simp
  qed
qed

lemma shift_backups_history:
  assumes "no_backup_dirs log fs" "fs_files fs (backup_path log (int n + 1)) = None" "Suc n \<le> k"
  obtains f where "snd (shift_backups log n fs) = fs\<lparr>fs_files := f\<rparr>" "f log = fs_files fs log"
    "history log k (fs\<lparr>fs_files := f\<rparr>) = history log k fs"
    "fst (shift_backups log n fs) \<longrightarrow> f (backup_path log 1) = None"
    "fs_movable fs \<longrightarrow> fst (shift_backups log n fs)"
  using assms
proof (induction n arbitrary: fs thesis)
  case 0
  then show ?case by (intro "0.prems"(1)[of "fs_files fs"]) simp_all
next
  case (Suc n)
  let ?from = "backup_path log (int (Suc n))" and ?to = "backup_path log (int (Suc n) + 1)"
  show ?case
  proof (cases "fs_files fs ?from = None")
    case True
    then have s: "shift_backups log (Suc n) fs = shift_backups log n fs"
      by (subst shift_backups.simps) (simp only: fs_exists_backup[OF Suc.prems(2)] if_False simp_thms)
    obtain f where "snd (shift_backups log n fs) = fs\<lparr>fs_files := f\<rparr>" "f log = fs_files fs log"
      "history log k (fs\<lparr>fs_files := f\<rparr>) = history log k fs"
      "fst (shift_backups log n fs) \<longrightarrow> f (backup_path log 1) = None" "fs_movable fs \<longrightarrow> fst (shift_backups log n fs)"
      by (rule Suc.IH[OF _ Suc.prems(2)]) (use Suc.prems True in \<open>auto simp: add.commute\<close>)
    with s show ?thesis by (intro Suc.prems(1)[of f]) (simp_all only:)
  next
    case False
    define fs1 where "fs1 = fs\<lparr>fs_files := (fs_files fs)(?to := fs_files fs ?from, ?from := None)\<rparr>"
    have h1: "history log k fs1 = history log k fs"
      unfolding fs1_def by (rule history_move) (use Suc.prems in auto)
    have step: "shift_backups log (Suc n) fs = (if fs_rename_ok fs ?from ?to then shift_backups log n fs1 else (False, fs))"
      using False by (subst shift_backups.simps)
        (simp only: fs_exists_backup[OF Suc.prems(2)] fs_rename_def fs1_def Let_def prod.case if_True simp_thms not_False_eq_True split: if_split, blast)
    show ?thesis
    proof (cases "fs_rename_ok fs ?from ?to")
      case False
      then show ?thesis
        using step by (intro Suc.prems(1)[of "fs_files fs"]) (auto simp: fs_movable_def simp del: shift_backups.simps)
    next
      case True
      have s1: "no_backup_dirs log fs1" "fs_files fs1 (backup_path log (int n + 1)) = None" "fs_movable fs1 = fs_movable fs"
        "fs_files fs1 log = fs_files fs log"
        using Suc.prems by (simp_all add: fs1_def add.commute)
      obtain f where f: "snd (shift_backups log n fs1) = fs1\<lparr>fs_files := f\<rparr>" "f log = fs_files fs1 log"
        "history log k (fs1\<lparr>fs_files := f\<rparr>) = history log k fs1"
        "fst (shift_backups log n fs1) \<longrightarrow> f (backup_path log 1) = None" "fs_movable fs1 \<longrightarrow> fst (shift_backups log n fs1)"
        by (rule Suc.IH[OF _ s1(1,2)]) (use Suc.prems in auto)
      have "fs1\<lparr>fs_files := f\<rparr> = fs\<lparr>fs_files := f\<rparr>" by (simp add: fs1_def)
      with f h1 s1 step True show ?thesis by (intro Suc.prems(1)[of f]) (simp_all del: shift_backups.simps)
    qed
  qed
qed

lemma remove_oldest_history:
  assumes "no_backup_dirs log fs"
  obtains f dropped where "snd (remove_oldest log b fs) = fs\<lparr>fs_files := f\<rparr>" "f log = fs_files fs log"
    "history log (kept b) fs = dropped @ history log (kept b) (fs\<lparr>fs_files := f\<rparr>)"
    "dropped = [] \<or> dropped = content fs (backup_path log (int (kept b)))"
    "fst (remove_oldest log b fs) \<and> b > 0 \<longrightarrow> f (backup_path log b) = None"
    "b \<le> 0 \<longrightarrow> f = fs_files fs \<and> dropped = []" "fs_movable fs \<longrightarrow> fst (remove_oldest log b fs)"
proof (cases "b > 0 \<and> fs_files fs (backup_path log b) \<noteq> None \<and> fs_remove_ok fs (backup_path log b)")
  case True
  let ?f = "(fs_files fs)(backup_path log b := None)"
  have k: "int (kept b) = b" "1 \<le> kept b" using True by (auto simp: kept_def)
  have "remove_oldest log b fs = (True, fs\<lparr>fs_files := ?f\<rparr>)"
    using True by (simp add: remove_oldest_def fs_remove_def fs_exists_backup(1)[OF assms])
  with history_remove_oldest[OF k(2), of log fs] k True show thesis
    by (intro that[of ?f "content fs (backup_path log b)"]) simp_all
next
  case False
  then have "remove_oldest log b fs = (\<not> (b > 0 \<and> fs_files fs (backup_path log b) \<noteq> None), fs)"
    by (auto simp: remove_oldest_def fs_remove_def fs_exists_backup(1)[OF assms])
  with False show thesis by (intro that[of "fs_files fs" "[]"]) (auto simp: fs_movable_def)
qed

lemma rotate_current_history:
  assumes "no_backup_dirs log fs" "b > 0 \<longrightarrow> fs_files fs (backup_path log 1) = None"
  obtains f dropped where "snd (rotate_current log fs) = fs\<lparr>fs_files := f\<rparr>" "f log = fs_files fs log \<or> f log = None"
    "history log (kept b) fs = dropped @ history log (kept b) (fs\<lparr>fs_files := f\<rparr>)"
    "dropped = [] \<or> b \<le> 0 \<and> dropped = content fs (backup_path log 1)" "fs_movable fs \<longrightarrow> f log = None"
proof (cases "fs_files fs log \<noteq> None \<and> fs_rename_ok fs log (backup_path log 1)")
  case False
  then have "snd (rotate_current log fs) = fs"
    using fs_exists_backup(2)[OF assms(1)] by (auto simp: rotate_current_def fs_rename_def)
  with False show thesis by (intro that[of "fs_files fs" "[]"]) (auto simp: fs_movable_def)
next
  case True
  let ?f = "(fs_files fs)(backup_path log 1 := fs_files fs log, log := None)"
  have r: "snd (rotate_current log fs) = fs\<lparr>fs_files := ?f\<rparr>"
    using True fs_exists_backup(2)[OF assms(1)] by (simp add: rotate_current_def fs_rename_def)
  have k: "fs_files fs (backup_path log 1) = None \<or> kept b = 1" using assms(2) by (auto simp: kept_def)
  from history_move_current[OF kept_pos[of b] k] show thesis
  proof (elim disjE conjE)
    assume h: "history log (kept b) fs = content fs (backup_path log 1) @ history log (kept b) (fs\<lparr>fs_files := ?f\<rparr>)"
    have "content fs (backup_path log 1) = [] \<or> b \<le> 0" using assms(2) by (auto simp: content_def)
    with r h show thesis by (intro that[of ?f "content fs (backup_path log 1)"]) auto
  next
    assume "history log (kept b) fs = history log (kept b) (fs\<lparr>fs_files := ?f\<rparr>)"
    with r show thesis by (intro that[of ?f "[]"]) auto
  qed
qed

lemma shift_and_move_history:
  assumes "no_backup_dirs log fs" "b > 0 \<longrightarrow> f1 (backup_path log b) = None"
  obtains f d where "snd (let (ok, fs) = shift_backups log (nat (b - 1)) (fs\<lparr>fs_files := f1\<rparr>)
      in if \<not> ok then (False, fs) else rotate_current log fs) = fs\<lparr>fs_files := f\<rparr>" "f log = f1 log \<or> f log = None"
    "history log (kept b) (fs\<lparr>fs_files := f1\<rparr>) = d @ history log (kept b) (fs\<lparr>fs_files := f\<rparr>)"
    "d = [] \<or> b \<le> 0 \<and> d = content (fs\<lparr>fs_files := f1\<rparr>) (backup_path log 1)" "fs_movable fs \<longrightarrow> f log = None"
proof -
  let ?fs1 = "fs\<lparr>fs_files := f1\<rparr>" and ?n = "nat (b - 1)" and ?k = "kept b"
  obtain f2 where s: "snd (shift_backups log ?n ?fs1) = fs\<lparr>fs_files := f2\<rparr>" "f2 log = f1 log"
    "history log ?k (fs\<lparr>fs_files := f2\<rparr>) = history log ?k ?fs1"
    "fst (shift_backups log ?n ?fs1) \<and> b > 0 \<longrightarrow> f2 (backup_path log 1) = None"
    "fs_movable fs \<longrightarrow> fst (shift_backups log ?n ?fs1)" "b \<le> 0 \<longrightarrow> f2 = f1"
  proof (cases "b > 0")
    case True
    then have n: "fs_files ?fs1 (backup_path log (int ?n + 1)) = None" "Suc ?n \<le> ?k"
      using assms(2) by (auto simp: kept_def)
    show thesis by (rule shift_backups_history[OF _ n]) (use True assms that in auto)
  next
    case False
    then show thesis by (intro that[of f1]) auto
  qed
  show thesis
  proof (cases "fst (shift_backups log ?n ?fs1)")
    case False
    with s show thesis by (intro that[of f2 "[]"]) (auto simp: case_prod_unfold)
  next
    case True
    have "no_backup_dirs log (fs\<lparr>fs_files := f2\<rparr>)" "b > 0 \<longrightarrow> fs_files (fs\<lparr>fs_files := f2\<rparr>) (backup_path log 1) = None"
      using s(4) True assms(1) by simp_all
    then obtain f d where "snd (rotate_current log (fs\<lparr>fs_files := f2\<rparr>)) = fs\<lparr>fs_files := f2\<rparr>\<lparr>fs_files := f\<rparr>"
      "f log = fs_files (fs\<lparr>fs_files := f2\<rparr>) log \<or> f log = None"
      "history log ?k (fs\<lparr>fs_files := f2\<rparr>) = d @ history log ?k (fs\<lparr>fs_files := f2\<rparr>\<lparr>fs_files := f\<rparr>)"
      "d = [] \<or> b \<le> 0 \<and> d = content (fs\<lparr>fs_files := f2\<rparr>) (backup_path log 1)" "fs_movable (fs\<lparr>fs_files := f2\<rparr>) \<longrightarrow> f log = None"
      by (rule rotate_current_history)
    with True s show thesis by (intro that[of f d]) (auto simp: case_prod_unfold)
  qed
qed

text \<open>A rotation drops at most the oldest backup, and leaves the current log empty if nothing was refused.\<close>

lemma rotate_files_history:
  assumes "no_backup_dirs log fs"
  obtains f dropped where "rotate_files log b fs = fs\<lparr>fs_files := f\<rparr>" "f log = fs_files fs log \<or> f log = None"
    "history log (kept b) fs = dropped @ history log (kept b) (fs\<lparr>fs_files := f\<rparr>)"
    "dropped = [] \<or> dropped = content fs (backup_path log (int (kept b)))"
    "fs_movable fs \<longrightarrow> f log = None"
proof -
  let ?k = "kept b" and ?n = "nat (b - 1)"
  obtain f1 d1 where r: "snd (remove_oldest log b fs) = fs\<lparr>fs_files := f1\<rparr>" "f1 log = fs_files fs log"
    "history log ?k fs = d1 @ history log ?k (fs\<lparr>fs_files := f1\<rparr>)"
    "d1 = [] \<or> d1 = content fs (backup_path log (int ?k))"
    "fst (remove_oldest log b fs) \<and> b > 0 \<longrightarrow> f1 (backup_path log b) = None"
    "b \<le> 0 \<longrightarrow> f1 = fs_files fs \<and> d1 = []" "fs_movable fs \<longrightarrow> fst (remove_oldest log b fs)"
    by (rule remove_oldest_history[OF assms])
  show thesis
  proof (cases "fst (remove_oldest log b fs)")
    case False
    then have "rotate_files log b fs = fs\<lparr>fs_files := f1\<rparr>" using r(1) by (simp add: rotate_files_def case_prod_unfold Let_def)
    with r False show thesis by (intro that[of f1 d1]) auto
  next
    case True
    then have "b > 0 \<longrightarrow> f1 (backup_path log b) = None" using r(5) by simp
    then obtain f d where f: "snd (let (ok, fs) = shift_backups log ?n (fs\<lparr>fs_files := f1\<rparr>) in if \<not> ok then (False, fs) else rotate_current log fs) =
        fs\<lparr>fs_files := f\<rparr>" "f log = f1 log \<or> f log = None"
      "history log ?k (fs\<lparr>fs_files := f1\<rparr>) = d @ history log ?k (fs\<lparr>fs_files := f\<rparr>)"
      "d = [] \<or> b \<le> 0 \<and> d = content (fs\<lparr>fs_files := f1\<rparr>) (backup_path log 1)" "fs_movable fs \<longrightarrow> f log = None"
      by (rule shift_and_move_history[OF assms])
    have "rotate_files log b fs = fs\<lparr>fs_files := f\<rparr>"
      using True r(1) f(1) by (auto simp: rotate_files_def case_prod_unfold Let_def split: if_splits)
    moreover have "d1 @ d = [] \<or> d1 @ d = content fs (backup_path log (int ?k))"
      using f(4) r(4,6) by (auto simp: kept_def)
    ultimately show thesis using r(2,3) f by (intro that[of f "d1 @ d"]) auto
  qed
qed

section \<open>The writer's invariant\<close>

definition lw_ready :: "log_writer \<Rightarrow> fsys \<Rightarrow> bool" where
  "lw_ready w fs \<longleftrightarrow>
     lw_is_open w \<and> lw_good w \<and> lw_buffer w = [] \<and>
     fs_files fs (lw_logfile w) \<noteq> None \<and>
     lw_current_size w = length (content fs (lw_logfile w)) \<and>
     fs_writable fs \<and> fs_can_open fs (lw_logfile w) \<and> no_backup_dirs (lw_logfile w) fs"

definition pending_ok :: "string \<Rightarrow> bool" where
  "pending_ok p \<longleftrightarrow> NL \<notin> set p \<and> length p < MAX_PENDING_BUFFER"

definition lw_inv :: "log_writer \<Rightarrow> fsys \<Rightarrow> bool" where
  "lw_inv w fs \<longleftrightarrow> lw_ready w fs \<and> pending_ok (lw_pending w)"

lemma fs_append_Nil: "fs_files fs p \<noteq> None \<Longrightarrow> fs_append p [] fs = fs"
  by (auto simp: fs_append_def map_upd_triv)

lemma fs_writable_append [simp]: "fs_writable (fs_append p d fs) = fs_writable fs"
  and fs_movable_append [simp]: "fs_movable (fs_append p d fs) = fs_movable fs"
  and fs_can_open_append [simp]: "fs_can_open (fs_append p d fs) = fs_can_open fs"
  and no_backup_dirs_append [simp]: "no_backup_dirs log (fs_append p d fs) = no_backup_dirs log fs"
  and fs_files_append [simp]: "fs_files (fs_append p d fs) p = Some (content fs p @ d)"
  by (auto simp: fs_append_def content_def split: option.splits)

lemma history_append: "history log n (fs_append log d fs) = history log n fs @ d"
  by (simp add: history_def content_append)

lemma stream_close_ready:
  "lw_ready w fs \<Longrightarrow> stream_close w fs = (w\<lparr>lw_is_open := False\<rparr>, fs)"
  by (auto simp: lw_ready_def lw_stream_defs fs_writable_def fs_append_Nil)

text \<open>
  A rotation reopens the log, emptied if every move was allowed and otherwise as it was; the counter is
  read again from the file.
\<close>

lemma rotateNL_ready:
  assumes "lw_ready w fs"
  obtains n fs' dropped where "rotateNL w fs = (w\<lparr>lw_current_size := n\<rparr>, fs')"
    "lw_ready (w\<lparr>lw_current_size := n\<rparr>) fs'"
    "content fs' (lw_logfile w) = [] \<or> content fs' (lw_logfile w) = content fs (lw_logfile w)"
    "fs_movable fs \<longrightarrow> content fs' (lw_logfile w) = []" "fs_movable fs' = fs_movable fs"
    "history (lw_logfile w) (kept (lw_backups w)) fs =
       dropped @ history (lw_logfile w) (kept (lw_backups w)) fs'"
    "dropped = [] \<or> dropped = content fs (backup_path (lw_logfile w) (int (kept (lw_backups w))))"
proof -
  let ?log = "lw_logfile w" and ?b = "lw_backups w"
  let ?fs = "rotate_files ?log ?b fs"
  from assms have env: "fs_writable fs" "no_backup_dirs ?log fs"
    "fs_can_open fs ?log" "lw_is_open w" "lw_good w" "lw_buffer w = []"
    by (auto simp: lw_ready_def)
  obtain f dropped where f: "?fs = fs\<lparr>fs_files := f\<rparr>" "f ?log = fs_files fs ?log \<or> f ?log = None"
    "history ?log (kept ?b) fs = dropped @ history ?log (kept ?b) (fs\<lparr>fs_files := f\<rparr>)"
    "dropped = [] \<or> dropped = content fs (backup_path ?log (int (kept ?b)))"
    "fs_movable fs \<longrightarrow> f ?log = None"
    by (rule rotate_files_history[OF env(2), of ?b])
  let ?fs' = "fs_append ?log [] ?fs" and ?n = "length (content ?fs ?log)"
  have "fs_stat_ok ?fs' ?log" using env(1) f(1) by (simp add: fs_append_def fs_writable_def)
  then have "openNL (w\<lparr>lw_is_open := False, lw_current_size := 0\<rparr>) ?fs = (True, w\<lparr>lw_current_size := ?n\<rparr>, ?fs')"
    using env f(1) by (simp add: openNL_def stream_open_def fs_exists_def content_append)
  then have "rotateNL w fs = (w\<lparr>lw_current_size := ?n\<rparr>, ?fs')"
    using env(4) by (simp add: rotateNL_def stream_close_ready[OF assms])
  moreover have "lw_ready (w\<lparr>lw_current_size := ?n\<rparr>) ?fs'"
    using env f(1) by (simp add: lw_ready_def content_append)
  moreover have "content ?fs' ?log = [] \<or> content ?fs' ?log = content fs ?log" "fs_movable fs \<longrightarrow> content ?fs' ?log = []"
    using f(1,2,5) by (auto simp: content_append content_def)
  moreover have "history ?log (kept ?b) fs = dropped @ history ?log (kept ?b) ?fs'" "fs_movable ?fs' = fs_movable fs"
    using f(1,3) by (simp_all add: history_append)
  ultimately show thesis using f(4) by (intro that[of ?n ?fs' dropped])
qed

lemma fs_writableD:
  assumes "fs_writable fs"
  shows "fs_open_ok fs p" "fs_stat_ok fs p" "fs_write_ok fs p" "fs_flush_ok fs p"
  using assms by (auto simp: fs_writable_def)

text \<open>Appending to a writer that is ready succeeds and keeps it ready.\<close>

definition append_now :: "string \<Rightarrow> log_writer \<Rightarrow> fsys \<Rightarrow> int \<times> log_writer \<times> fsys" where
  "append_now str w fs =
     (let w = stream_write str fs w
      in if \<not> lw_good w then (-1, w, fs)
         else let w = w\<lparr>lw_current_size := lw_current_size w + length str\<rparr>;
                  (w, fs) = stream_flush w fs
              in (int (length str), w, fs))"

lemma writeNL_append_now:
  "writeNL str w fs = (if lw_max_bytes w > 0 \<and> lw_current_size w + length str > lw_max_bytes w
     then (let (w, fs) = rotateNL w fs in append_now str w fs) else append_now str w fs)"
  by (simp add: writeNL_def append_now_def Let_def)

lemma append_now_ready:
  assumes "lw_ready w fs"
  shows "append_now str w fs =
      (int (length str), w\<lparr>lw_current_size := lw_current_size w + length str\<rparr>, fs_append (lw_logfile w) str fs)"
    and "lw_ready (w\<lparr>lw_current_size := lw_current_size w + length str\<rparr>) (fs_append (lw_logfile w) str fs)"
proof -
  from assms have "lw_good w" "lw_buffer w = []" "fs_writable fs" by (auto simp: lw_ready_def)
  then show "append_now str w fs =
      (int (length str), w\<lparr>lw_current_size := lw_current_size w + length str\<rparr>, fs_append (lw_logfile w) str fs)"
    by (simp add: append_now_def stream_write_def stream_flush_def fs_writableD)
  show "lw_ready (w\<lparr>lw_current_size := lw_current_size w + length str\<rparr>) (fs_append (lw_logfile w) str fs)"
    using assms by (simp add: lw_ready_def content_append)
qed

definition rotates :: "string \<Rightarrow> log_writer \<Rightarrow> bool" where
  "rotates str w \<longleftrightarrow> lw_max_bytes w > 0 \<and> lw_current_size w + length str > lw_max_bytes w"

lemma writeNL_ready:
  assumes "lw_ready w fs"
  obtains n fs' dropped where
    "writeNL str w fs = (int (length str), w\<lparr>lw_current_size := n\<rparr>, fs')"
    "lw_ready (w\<lparr>lw_current_size := n\<rparr>) fs'"
    "history (lw_logfile w) (kept (lw_backups w)) fs @ str =
       dropped @ history (lw_logfile w) (kept (lw_backups w)) fs'"
    "dropped = [] \<or> rotates str w \<and> dropped = content fs (backup_path (lw_logfile w) (int (kept (lw_backups w))))"
    "content fs' (lw_logfile w) = str \<or> content fs' (lw_logfile w) = content fs (lw_logfile w) @ str"
    "fs_movable fs \<or> \<not> rotates str w \<longrightarrow>
       content fs' (lw_logfile w) = (if rotates str w then str else content fs (lw_logfile w) @ str)"
proof (cases "rotates str w")
  case False
  then have "writeNL str w fs = append_now str w fs" by (auto simp: rotates_def writeNL_append_now)
  with append_now_ready[OF assms, of str] show thesis
    by (intro that[of "lw_current_size w + length str" "fs_append (lw_logfile w) str fs" "[]"])
      (use False in \<open>simp_all add: history_append content_append\<close>)
next
  case True
  obtain n fs1 dropped where r: "rotateNL w fs = (w\<lparr>lw_current_size := n\<rparr>, fs1)"
    "lw_ready (w\<lparr>lw_current_size := n\<rparr>) fs1"
    "content fs1 (lw_logfile w) = [] \<or> content fs1 (lw_logfile w) = content fs (lw_logfile w)"
    "fs_movable fs \<longrightarrow> content fs1 (lw_logfile w) = []"
    "history (lw_logfile w) (kept (lw_backups w)) fs =
       dropped @ history (lw_logfile w) (kept (lw_backups w)) fs1"
    "dropped = [] \<or> dropped = content fs (backup_path (lw_logfile w) (int (kept (lw_backups w))))"
    using rotateNL_ready[OF assms] by metis
  have "writeNL str w fs = append_now str (w\<lparr>lw_current_size := n\<rparr>) fs1"
    using True by (simp add: rotates_def writeNL_append_now r(1))
  with append_now_ready[OF r(2), of str] show thesis
    by (intro that[of "n + length str" "fs_append (lw_logfile w) str fs1" dropped])
      (use True r(3-6) in \<open>auto simp: history_append content_append\<close>)
qed

lemma flush_end_le: "flush_end p d \<le> length (p @ d)"
  using rfind_char_Some[of NL d] by (auto simp: flush_end_def split: option.splits)

lemma pending_after:
  assumes "pending_ok p" "length d < MAX_PENDING_BUFFER"
  shows "pending_ok (drop (flush_end p d) (p @ d))"
proof (cases "rfind_char NL d")
  case None
  then have "NL \<notin> set d" by (simp add: rfind_char_None)
  with None assms show ?thesis
    by (simp add: flush_end_def pending_ok_def MAX_PENDING_BUFFER_def)
next
  case (Some i)
  from rfind_char_Some[OF this] have "NL \<notin> set (drop (Suc i) d)" by blast
  with Some assms(2) show ?thesis by (simp add: flush_end_def pending_ok_def)
qed

lemma lw_write_ready:
  assumes "lw_ready w fs" "d \<noteq> []"
  obtains n fs' dropped chunk where
    "chunk = take (flush_end (lw_pending w) d) (lw_pending w @ d)"
    "lw_write d w fs =
       (int (length chunk),
        w\<lparr>lw_current_size := n, lw_pending := drop (flush_end (lw_pending w) d) (lw_pending w @ d)\<rparr>, fs')"
    "lw_ready (w\<lparr>lw_current_size := n\<rparr>) fs'"
    "history (lw_logfile w) (kept (lw_backups w)) fs @ chunk =
       dropped @ history (lw_logfile w) (kept (lw_backups w)) fs'"
    "dropped = [] \<or> chunk \<noteq> [] \<and> rotates chunk w \<and>
       dropped = content fs (backup_path (lw_logfile w) (int (kept (lw_backups w))))"
    "content fs' (lw_logfile w) = chunk \<or> content fs' (lw_logfile w) = content fs (lw_logfile w) @ chunk"
    "fs_movable fs \<longrightarrow> content fs' (lw_logfile w) =
       (if chunk \<noteq> [] \<and> rotates chunk w then chunk else content fs (lw_logfile w) @ chunk)"
proof -
  let ?p = "lw_pending w @ d" and ?e = "flush_end (lw_pending w) d"
  have op: "lw_is_open w" using assms by (simp add: lw_ready_def)
  show thesis
  proof (cases "?e = 0")
    case True
    with assms(2) op have "lw_write d w fs = (0, w\<lparr>lw_pending := ?p\<rparr>, fs)"
      by (simp add: lw_write_def)
    then show thesis
      by (intro that[of "[]" "lw_current_size w" fs "[]"]) (use True assms(1) in simp_all)
  next
    case False
    let ?c = "take ?e ?p"
    have ne: "?c \<noteq> []" using False assms(2) by auto
    have r: "lw_ready (w\<lparr>lw_pending := ?p\<rparr>) fs" using assms(1) by (simp add: lw_ready_def)
    obtain n fs' dropped where
      w': "writeNL ?c (w\<lparr>lw_pending := ?p\<rparr>) fs = (int (length ?c), w\<lparr>lw_pending := ?p, lw_current_size := n\<rparr>, fs')"
      "lw_ready (w\<lparr>lw_pending := ?p, lw_current_size := n\<rparr>) fs'"
      "history (lw_logfile w) (kept (lw_backups w)) fs @ ?c = dropped @ history (lw_logfile w) (kept (lw_backups w)) fs'"
      "dropped = [] \<or> rotates ?c w \<and> dropped = content fs (backup_path (lw_logfile w) (int (kept (lw_backups w))))"
      "content fs' (lw_logfile w) = ?c \<or> content fs' (lw_logfile w) = content fs (lw_logfile w) @ ?c"
      "fs_movable fs \<longrightarrow> content fs' (lw_logfile w) = (if rotates ?c w then ?c else content fs (lw_logfile w) @ ?c)"
      by (rule writeNL_ready[OF r, of ?c]) (auto simp: rotates_def)
    have "lw_write d w fs = (int (length ?c), w\<lparr>lw_current_size := n, lw_pending := drop ?e ?p\<rparr>, fs')"
      using False op assms(2) w'(1) by (simp add: lw_write_def Let_def del: take_append drop_append)
    moreover have "lw_ready (w\<lparr>lw_current_size := n\<rparr>) fs'" using w'(2) by (simp add: lw_ready_def)
    ultimately show thesis using w'(3-6) ne by (intro that[of ?c n fs' dropped]) simp_all
  qed
qed

lemma lw_write_view:
  assumes "lw_inv w fs" "length d < MAX_PENDING_BUFFER" "lw_write d w fs = (r, w', fs')"
  obtains dropped where "lw_inv w' fs'" "log_view w fs @ d = dropped @ log_view w' fs'"
    "dropped = [] \<or> dropped = content fs (backup_path (lw_logfile w) (int (kept (lw_backups w))))"
proof (cases "d = []")
  case True
  with assms show thesis by (intro that[of "[]"]) (auto simp: lw_write_def)
next
  case False
  from assms(1) have r: "lw_ready w fs" and p: "pending_ok (lw_pending w)" by (auto simp: lw_inv_def)
  let ?e = "flush_end (lw_pending w) d" and ?p = "lw_pending w @ d"
  obtain n f dropped where
    w: "lw_write d w fs = (int (length (take ?e ?p)), w\<lparr>lw_current_size := n, lw_pending := drop ?e ?p\<rparr>, f)"
    "lw_ready (w\<lparr>lw_current_size := n\<rparr>) f"
    "history (lw_logfile w) (kept (lw_backups w)) fs @ take ?e ?p = dropped @ history (lw_logfile w) (kept (lw_backups w)) f"
    "dropped = [] \<or> dropped = content fs (backup_path (lw_logfile w) (int (kept (lw_backups w))))"
    by (rule lw_write_ready[OF r False]) (metis (no_types))
  have "history (lw_logfile w) (kept (lw_backups w)) fs @ take ?e ?p @ drop ?e ?p = dropped @ log_view w' fs'"
    using assms(3) w(1,3) by (auto simp: log_view_def simp del: append_take_drop_id take_append drop_append)
  then have "log_view w fs @ d = dropped @ log_view w' fs'" by (simp add: log_view_def del: take_append drop_append)
  moreover have "lw_inv w' fs'"
    using assms(2,3) w(1,2) pending_after[OF p] by (auto simp: lw_inv_def lw_ready_def simp del: take_append drop_append)
  ultimately show thesis using w(4) that by auto
qed

text \<open>
  C37: Nothing written to a log is lost or reordered: the text of the log, from the oldest
  backup through the current file to the incomplete line in the buffer, is after a write the
  text before it followed by the new data, except that a rotation may discard exactly the oldest
  backup. This holds also when the file system refuses any of the renames and removals of a rotation
  half way: the exception is swallowed, the log is reopened and the data appended. The writer stays
  ready, so it holds for every sequence of writes.
\<close>

theorem lw_write_keeps_history:
  assumes "lw_inv w fs" "length d < MAX_PENDING_BUFFER" "lw_write d w fs = (r, w', fs')"
  shows "lw_inv w' fs' \<and>
    (log_view w fs @ d = log_view w' fs' \<or>
     log_view w fs @ d = content fs (backup_path (lw_logfile w) (int (kept (lw_backups w)))) @ log_view w' fs')"
  using lw_write_view[OF assms] by fastforce

text \<open>A concrete environment: one writable directory with one empty log.\<close>

definition sample_fs :: fsys where
  "sample_fs =
     \<lparr>fs_files = [''/l'' \<mapsto> []], fs_dirs = (\<lambda>p. p = ''/''),
      fs_open_ok = (\<lambda>_. True), fs_stat_ok = (\<lambda>_. True), fs_write_ok = (\<lambda>_. True),
      fs_flush_ok = (\<lambda>_. True), fs_rename_ok = (\<lambda>_ _. True), fs_remove_ok = (\<lambda>_. True),
      fs_mkdir_ok = (\<lambda>_. True)\<rparr>"

definition sample_writer :: log_writer where
  "sample_writer =
     \<lparr>lw_logfile = ''/l'', lw_max_bytes = 4, lw_backups = 2, lw_is_open = True, lw_good = True,
      lw_buffer = [], lw_current_size = 0, lw_pending = []\<rparr>"

lemma sample_ready: "lw_inv sample_writer sample_fs"
  by (auto simp: lw_inv_def lw_ready_def sample_writer_def sample_fs_def content_def fs_writable_def
      fs_can_open_def no_backup_dirs_def parent_path_def backup_path_def pending_ok_def MAX_PENDING_BUFFER_def)

theorem lw_write_keeps_history_witness:
  "lw_inv (fst (snd (lw_write [CHR ''a'', NL] sample_writer sample_fs)))
          (snd (snd (lw_write [CHR ''a'', NL] sample_writer sample_fs)))"
proof -
  obtain r w fs where w: "lw_write [CHR ''a'', NL] sample_writer sample_fs = (r, w, fs)"
    by (metis prod_cases3)
  have "length [CHR ''a'', NL] < MAX_PENDING_BUFFER" by (simp add: MAX_PENDING_BUFFER_def)
  from lw_write_keeps_history[OF sample_ready this w] w show ?thesis by simp
qed

section \<open>The interface of a sink\<close>

text \<open>
  What the process code relies on when it hands captured output to a writer: writing keeps
  the sink usable, and what can be read back is the tail of everything handed over, in order.
\<close>

locale append_sink =
  fixes put :: "string \<Rightarrow> 's \<Rightarrow> 's"
    and view :: "'s \<Rightarrow> string"
    and ok :: "'s \<Rightarrow> bool"
    and fits :: "string \<Rightarrow> bool"
  assumes put_ok: "ok s \<Longrightarrow> fits d \<Longrightarrow> ok (put d s)"
    and put_suffix: "ok s \<Longrightarrow> fits d \<Longrightarrow> suffix (view (put d s)) (view s @ d)"
begin

lemma puts:
  "ok s \<Longrightarrow> list_all fits ds \<Longrightarrow>
     ok (fold put ds s) \<and> suffix (view (fold put ds s)) (view s @ concat ds)"
proof (induction ds arbitrary: s)
  case (Cons d ds)
  then have ok': "ok (put d s)" and suf: "suffix (view (put d s)) (view s @ d)"
    using put_ok put_suffix by auto
  from Cons.IH[OF ok'] Cons.prems have "ok (fold put ds (put d s))"
    and "suffix (view (fold put ds (put d s))) (view (put d s) @ concat ds)" by auto
  moreover have "suffix (view (put d s) @ concat ds) (view s @ d @ concat ds)"
    using suf by (auto simp: suffix_def)
  ultimately show ?case by (auto intro: suffix_order.trans)
qed simp

end

definition sink_put :: "string \<Rightarrow> log_writer \<times> fsys \<Rightarrow> log_writer \<times> fsys" where
  "sink_put d s = snd (lw_write d (fst s) (snd s))"

lemma sink_put_history:
  assumes "lw_inv w fs" "length d < MAX_PENDING_BUFFER" "sink_put d (w, fs) = (w', fs')"
  shows "lw_inv w' fs' \<and> suffix (log_view w' fs') (log_view w fs @ d)"
proof -
  from assms(3) obtain r where "lw_write d w fs = (r, w', fs')"
    by (cases "lw_write d w fs") (auto simp: sink_put_def)
  from lw_write_view[OF assms(1,2) this] show ?thesis by (metis suffixI)
qed

interpretation sink: append_sink sink_put "\<lambda>(w, fs). log_view w fs" "\<lambda>(w, fs). lw_inv w fs"
  "\<lambda>d. length d < MAX_PENDING_BUFFER"
  by unfold_locales (use sink_put_history in \<open>fastforce split: prod.splits\<close>)+

text \<open>
  Auxiliary property: Over any sequence of captured chunks (each read from a pipe is at most 4 KB), what the
  log files and the line buffer hold is a tail of what they held before followed by all the
  chunks in order: rotation can only shorten the log at its old end.
\<close>

theorem captured_output_is_suffix:
  assumes "lw_inv w fs" "list_all (\<lambda>d. length d \<le> 4096) ds" "fold sink_put ds (w, fs) = (w', fs')"
  shows "lw_inv w' fs' \<and> suffix (log_view w' fs') (log_view w fs @ concat ds)"
proof -
  have "list_all (\<lambda>d. length d < MAX_PENDING_BUFFER) ds"
    using assms(2) by (auto simp: list_all_iff MAX_PENDING_BUFFER_def)
  from sink.puts[of "(w, fs)", OF _ this] assms show ?thesis by simp
qed

theorem captured_output_is_suffix_witness:
  "suffix (case fold sink_put [''ab'', [NL]] (sample_writer, sample_fs) of (w, fs) \<Rightarrow> log_view w fs)
     (log_view sample_writer sample_fs @ [CHR ''a'', CHR ''b'', NL])"
proof -
  obtain w fs where w: "fold sink_put [''ab'', [NL]] (sample_writer, sample_fs) = (w, fs)"
    by (metis surj_pair)
  have "list_all (\<lambda>d. length d \<le> 4096) [''ab'', [NL]]" by simp
  from captured_output_is_suffix[OF sample_ready this w] w show ?thesis by simp
qed

section \<open>Line boundaries and sizes\<close>





text \<open>
  Auxiliary property: After one failed write the stream stays in its error state while the file is still
  open, and nothing reopens it: every later write that does not trigger a rotation reports no
  bytes written and leaves the file as it is, whatever the environment would now allow.
\<close>

theorem lw_write_stuck_after_error:
  assumes "lw_is_open w" "\<not> lw_good w" "lw_max_bytes w = 0" "lw_write d w fs = (r, w', fs')"
  shows "r \<le> 0 \<and> fs' = fs \<and> lw_is_open w' \<and> \<not> lw_good w' \<and> lw_max_bytes w' = 0"
  using assms by (auto simp: lw_write_def writeNL_def stream_write_def Let_def split: if_splits)

theorem lw_write_stuck_after_error_witness:
  "fst (lw_write [CHR ''a'', NL] (sample_writer\<lparr>lw_good := False, lw_max_bytes := 0\<rparr>) sample_fs) \<le> 0"
proof -
  let ?w = "sample_writer\<lparr>lw_good := False, lw_max_bytes := 0\<rparr>"
  obtain r w fs where w: "lw_write [CHR ''a'', NL] ?w sample_fs = (r, w, fs)" by (metis prod_cases3)
  have "lw_is_open ?w" "\<not> lw_good ?w" "lw_max_bytes ?w = 0" by (simp_all add: sample_writer_def)
  from lw_write_stuck_after_error[OF this w] w show ?thesis by simp
qed

end
