(* ===== verification/Process.thy ===== *)
theory Process
  imports Posix Config_Types Log_Writer
begin

text \<open>
  \<^verbatim>\<open>supervisor-lib/src/process/process.cpp\<close>: one supervised program. The state machine
  (\<open>start\<close>, \<open>stop\<close>, \<open>kill\<close>, \<open>on_exit\<close>, \<open>update\<close>), spawning with its pipes
  in the parent, the capture of the child's output, and status reporting. Every operation takes
  the process and the system and returns both; log messages are not part of the state. What the
  child does between \<open>fork\<close> and \<open>exec\<close> is in \<open>Process_Child\<close>.
\<close>

section \<open>State\<close>

datatype State = STOPPED | STARTING | RUNNING | BACKOFF | STOPPING | EXITED | FATAL

fun state_code :: "State \<Rightarrow> int" where
  "state_code STOPPED = 0"
| "state_code STARTING = 10"
| "state_code RUNNING = 20"
| "state_code BACKOFF = 30"
| "state_code STOPPING = 40"
| "state_code EXITED = 100"
| "state_code FATAL = 200"

fun show_state :: "State \<Rightarrow> string" where
  "show_state STOPPED = ''STOPPED''"
| "show_state STARTING = ''STARTING''"
| "show_state RUNNING = ''RUNNING''"
| "show_state BACKOFF = ''BACKOFF''"
| "show_state STOPPING = ''STOPPING''"
| "show_state EXITED = ''EXITED''"
| "show_state FATAL = ''FATAL''"

text \<open>A stream descriptor owns its file descriptor while it is open.\<close>

record stream_descriptor =
  sd_fd :: nat
  sd_is_open :: bool

record process =
  p_config :: program_config
  p_state :: State
  p_pid :: int
  p_exitstatus :: int
  p_retry_count :: int
  p_spawn_error :: string
  p_start_time :: int
  p_stop_time :: int
  p_state_change_time :: int
  p_stdout_log_writer :: "log_writer option"
  p_stderr_log_writer :: "log_writer option"
  p_stdout_stream :: "stream_descriptor option"
  p_stderr_stream :: "stream_descriptor option"
  p_stdout_reads :: nat
  p_stderr_reads :: nat

record ProcessInfo =
  pi_name :: string
  pi_state :: State
  pi_pid :: int
  pi_exitstatus :: int
  pi_stdout_logfile :: string
  pi_stderr_logfile :: string
  pi_spawnerr :: string
  pi_now :: int
  pi_start :: int
  pi_stop :: int
  pi_description :: string

section \<open>Construction\<close>

definition create_writer :: "log_config \<Rightarrow> fsys \<Rightarrow> log_writer option \<times> fsys" where
  "create_writer lc fs =
     (case lc_file lc of
        None \<Rightarrow> (None, fs)
      | Some f \<Rightarrow>
          let (w, fs) = mk_log_writer f (lc_file_maxbytes lc) (lc_file_backups lc) fs
          in (Some w, fs))"

definition mk_process :: "program_config \<Rightarrow> sys \<Rightarrow> process \<times> sys" where
  "mk_process config sy =
     (let (t, sy) = steady_now sy;
          (out_w, fs) = create_writer (pc_stdout_log config) (sy_fs sy);
          (err_w, fs) = create_writer (pc_stderr_log config) fs
      in (\<lparr>p_config = config, p_state = STOPPED, p_pid = -1, p_exitstatus = 0, p_retry_count = 0,
           p_spawn_error = [], p_start_time = 0, p_stop_time = 0, p_state_change_time = t,
           p_stdout_log_writer = out_w, p_stderr_log_writer = err_w,
           p_stdout_stream = None, p_stderr_stream = None, p_stdout_reads = 0, p_stderr_reads = 0\<rparr>,
          sy\<lparr>sy_fs := fs\<rparr>))"

section \<open>State changes\<close>

definition set_state :: "State \<Rightarrow> process \<Rightarrow> sys \<Rightarrow> process \<times> sys" where
  "set_state new_state p sy =
     (if new_state \<noteq> p_state p
      then let (t, sy) = steady_now sy in (p\<lparr>p_state := new_state, p_state_change_time := t\<rparr>, sy)
      else (p, sy))"

definition set_spawn_error :: "string \<Rightarrow> process \<Rightarrow> process" where
  "set_spawn_error err p = p\<lparr>p_spawn_error := err\<rparr>"

definition should_autorestart :: "process \<Rightarrow> bool" where
  "should_autorestart p \<longleftrightarrow> pc_autorestart (p_config p) \<and> p_state p \<noteq> FATAL"

section \<open>Capturing the output\<close>

text \<open>
  An outstanding asynchronous read is counted; its completion calls the handler with an error,
  or with the bytes read.
\<close>

datatype read_error = NoError | Eof | OperationAborted | OtherReadError

definition stream_open_now :: "stream_descriptor option \<Rightarrow> bool" where
  "stream_open_now s \<longleftrightarrow> (case s of None \<Rightarrow> False | Some d \<Rightarrow> sd_is_open d)"

definition close_stream :: "stream_descriptor option \<Rightarrow> sys \<Rightarrow> stream_descriptor option \<times> sys" where
  "close_stream s sy =
     (case s of
        None \<Rightarrow> (None, sy)
      | Some d \<Rightarrow> if sd_is_open d then (Some (d\<lparr>sd_is_open := False\<rparr>), sys_close (sd_fd d) sy) else (Some d, sy))"

definition start_stdout_read :: "process \<Rightarrow> process" where
  "start_stdout_read p =
     (if \<not> stream_open_now (p_stdout_stream p) then p
      else p\<lparr>p_stdout_reads := Suc (p_stdout_reads p)\<rparr>)"

definition start_stderr_read :: "process \<Rightarrow> process" where
  "start_stderr_read p =
     (if \<not> stream_open_now (p_stderr_stream p) then p
      else p\<lparr>p_stderr_reads := Suc (p_stderr_reads p)\<rparr>)"

definition writer_flush :: "log_writer option \<Rightarrow> sys \<Rightarrow> log_writer option \<times> sys" where
  "writer_flush w sy =
     (case w of
        None \<Rightarrow> (None, sy)
      | Some w \<Rightarrow> let (w, fs) = lw_flush w (sy_fs sy) in (Some w, sy\<lparr>sy_fs := fs\<rparr>))"

definition writer_write :: "string \<Rightarrow> log_writer option \<Rightarrow> sys \<Rightarrow> log_writer option \<times> sys" where
  "writer_write data w sy =
     (case w of
        None \<Rightarrow> (None, sy)
      | Some w \<Rightarrow> let (r, w, fs) = lw_write data w (sy_fs sy) in (Some w, sy\<lparr>sy_fs := fs\<rparr>))"

definition handle_stdout_read :: "read_error \<Rightarrow> string \<Rightarrow> process \<Rightarrow> sys \<Rightarrow> process \<times> sys" where
  "handle_stdout_read error data p sy =
     (let p = p\<lparr>p_stdout_reads := p_stdout_reads p - 1\<rparr> in
      if error \<noteq> NoError
      then let (s, sy) = close_stream (p_stdout_stream p) sy;
               (w, sy) = writer_flush (p_stdout_log_writer p) sy
           in (p\<lparr>p_stdout_stream := s, p_stdout_log_writer := w\<rparr>, sy)
      else let (w, sy) = (if length data > 0 then writer_write data (p_stdout_log_writer p) sy
                          else (p_stdout_log_writer p, sy))
           in (start_stdout_read (p\<lparr>p_stdout_log_writer := w\<rparr>), sy))"

definition handle_stderr_read :: "read_error \<Rightarrow> string \<Rightarrow> process \<Rightarrow> sys \<Rightarrow> process \<times> sys" where
  "handle_stderr_read error data p sy =
     (let p = p\<lparr>p_stderr_reads := p_stderr_reads p - 1\<rparr> in
      if error \<noteq> NoError
      then let (s, sy) = close_stream (p_stderr_stream p) sy;
               (w, sy) = writer_flush (p_stderr_log_writer p) sy
           in (p\<lparr>p_stderr_stream := s, p_stderr_log_writer := w\<rparr>, sy)
      else let (w, sy) = (if length data > 0 then writer_write data (p_stderr_log_writer p) sy
                          else (p_stderr_log_writer p, sy))
           in (start_stderr_read (p\<lparr>p_stderr_log_writer := w\<rparr>), sy))"

section \<open>Spawning: the parent\<close>

text \<open>A pipe array \<open>{-1, -1}\<close> is \<open>None\<close>.\<close>

definition close_pipe :: "(nat \<times> nat) option \<Rightarrow> sys \<Rightarrow> sys" where
  "close_pipe pp sy = (case pp of None \<Rightarrow> sy | Some (r, w) \<Rightarrow> sys_close w (sys_close r sy))"

definition close_write_end :: "(nat \<times> nat) option \<Rightarrow> sys \<Rightarrow> sys" where
  "close_write_end pp sy = (case pp of None \<Rightarrow> sy | Some (r, w) \<Rightarrow> sys_close w sy)"

text \<open>
  Creating a stream descriptor may throw; the assignment destroys, and so closes, the previous
  one. The outer option is the exception.
\<close>

definition make_stream ::
  "nat \<Rightarrow> stream_descriptor option \<Rightarrow> sys \<Rightarrow> stream_descriptor option option \<times> sys" where
  "make_stream fd old sy =
     (let n = sy_streams sy; sy = sy\<lparr>sy_streams := Suc n\<rparr> in
      if \<not> sy_asio_ok sy n then (None, sy)
      else let (_, sy) = close_stream old sy
           in (Some (Some \<lparr>sd_fd = fd, sd_is_open = True\<rparr>), sy))"

definition attach_stdout :: "(nat \<times> nat) option \<Rightarrow> process \<Rightarrow> sys \<Rightarrow> process \<times> sys" where
  "attach_stdout pp p sy =
     (case pp of
        None \<Rightarrow> (p, sy)
      | Some (r, w) \<Rightarrow>
          if p_stdout_log_writer p \<noteq> None
          then (case make_stream r (p_stdout_stream p) sy of
                  (None, sy) \<Rightarrow> (p, sys_close r sy)
                | (Some s, sy) \<Rightarrow> (start_stdout_read (p\<lparr>p_stdout_stream := s\<rparr>), sy))
          else (p, sys_close r sy))"

definition attach_stderr :: "(nat \<times> nat) option \<Rightarrow> process \<Rightarrow> sys \<Rightarrow> process \<times> sys" where
  "attach_stderr pp p sy =
     (case pp of
        None \<Rightarrow> (p, sy)
      | Some (r, w) \<Rightarrow>
          if p_stderr_log_writer p \<noteq> None
          then (case make_stream r (p_stderr_stream p) sy of
                  (None, sy) \<Rightarrow> (p, sys_close r sy)
                | (Some s, sy) \<Rightarrow> (start_stderr_read (p\<lparr>p_stderr_stream := s\<rparr>), sy))
          else (p, sys_close r sy))"

text \<open>A pipe if one is wanted: the outer option is the failure of \<open>pipe2\<close>.\<close>

definition pipe_if :: "bool \<Rightarrow> sys \<Rightarrow> (nat \<times> nat) option option \<times> sys" where
  "pipe_if wanted sy =
     (if wanted then (case pipe2 sy of (None, sy) \<Rightarrow> (None, sy) | (Some pp, sy) \<Rightarrow> (Some (Some pp), sy))
      else (Some None, sy))"

definition wants_stdout_pipe :: "program_config \<Rightarrow> bool" where
  "wants_stdout_pipe c \<longleftrightarrow> lc_file (pc_stdout_log c) \<noteq> None"

definition wants_stderr_pipe :: "program_config \<Rightarrow> bool" where
  "wants_stderr_pipe c \<longleftrightarrow> \<not> pc_redirect_stderr c \<and> lc_file (pc_stderr_log c) \<noteq> None"

definition spawn :: "process \<Rightarrow> sys \<Rightarrow> int \<times> process \<times> sys" where
  "spawn p sy =
     (let p = p\<lparr>p_spawn_error := []\<rparr> in
      case pipe_if (wants_stdout_pipe (p_config p)) sy of
        (None, sy) \<Rightarrow>
          (-1, set_spawn_error (''Failed to create stdout pipe: '' @ sy_strerror sy) p, sy)
      | (Some stdout_pipe, sy) \<Rightarrow>
          (case pipe_if (wants_stderr_pipe (p_config p)) sy of
             (None, sy) \<Rightarrow>
               (-1, set_spawn_error (''Failed to create stderr pipe: '' @ sy_strerror sy) p,
                close_pipe stdout_pipe sy)
           | (Some stderr_pipe, sy) \<Rightarrow>
               (let (child_pid, sy) = fork sy in
                if child_pid < 0
                then (-1, set_spawn_error (''Fork failed: '' @ sy_strerror sy) p,
                      close_pipe stderr_pipe (close_pipe stdout_pipe sy))
                else let sy = close_write_end stderr_pipe (close_write_end stdout_pipe sy);
                         (p, sy) = attach_stdout stdout_pipe p sy;
                         (p, sy) = attach_stderr stderr_pipe p sy
                     in (child_pid, p, sy))))"

section \<open>Operations\<close>

text \<open>A failed start, of either kind, uses up one retry.\<close>

definition failed_start :: "process \<Rightarrow> sys \<Rightarrow> process \<times> sys" where
  "failed_start p sy =
     (let p = p\<lparr>p_retry_count := p_retry_count p + 1\<rparr> in
      if p_retry_count p \<ge> pc_startretries (p_config p) then set_state FATAL p sy
      else set_state BACKOFF p sy)"

definition start :: "process \<Rightarrow> sys \<Rightarrow> bool \<times> process \<times> sys" where
  "start p sy =
     (if p_state p = RUNNING \<or> p_state p = STARTING then (True, p, sy)
      else let (child_pid, p, sy) = spawn p sy in
           if child_pid < 0 then (False, failed_start p sy)
           else let p = p\<lparr>p_pid := child_pid\<rparr>;
                    (t, sy) = steady_now sy;
                    p = p\<lparr>p_start_time := t\<rparr>
                in (True, set_state STARTING p sy))"

definition stop_signal :: "string \<Rightarrow> int" where
  "stop_signal s =
     (if s = ''INT'' then SIGINT
      else if s = ''QUIT'' then SIGQUIT
      else if s = ''KILL'' then SIGKILL
      else if s = ''HUP'' then SIGHUP
      else SIGTERM)"

definition stop :: "process \<Rightarrow> sys \<Rightarrow> bool \<times> process \<times> sys" where
  "stop p sy =
     (if p_pid p \<le> 0 \<or> p_state p = STOPPED then (False, p, sy)
      else let (p, sy) = set_state STOPPING p sy;
               (t, sy) = steady_now sy;
               p = p\<lparr>p_stop_time := t\<rparr>;
               (ok, sy) = sys_kill (p_pid p) (stop_signal (pc_stopsignal (p_config p))) sy
           in (ok, p, sy))"

definition kill_process :: "process \<Rightarrow> sys \<Rightarrow> process \<times> sys" where
  "kill_process p sy =
     (if p_pid p \<le> 0 then (p, sy)
      else let (_, sy) = sys_kill (p_pid p) SIGKILL sy;
               sy = waitpid_blocking (p_pid p) sy;
               p = p\<lparr>p_pid := -1\<rparr>
           in set_state STOPPED p sy)"

text \<open>The destructor; the log writers, as members, are destroyed after it and close their files.\<close>

definition writer_close :: "log_writer option \<Rightarrow> sys \<Rightarrow> log_writer option \<times> sys" where
  "writer_close w sy =
     (case w of
        None \<Rightarrow> (None, sy)
      | Some w \<Rightarrow> let (w, fs) = closeNL w (sy_fs sy) in (Some w, sy\<lparr>sy_fs := fs\<rparr>))"

definition destroy :: "process \<Rightarrow> sys \<Rightarrow> process \<times> sys" where
  "destroy p sy =
     (let (p, sy) = (if p_pid p > 0 then kill_process p sy else (p, sy));
          (s, sy) = close_stream (p_stdout_stream p) sy;
          (e, sy) = close_stream (p_stderr_stream p) sy;
          (ew, sy) = writer_close (p_stderr_log_writer p) sy;
          (ow, sy) = writer_close (p_stdout_log_writer p) sy
      in (p\<lparr>p_stdout_stream := s, p_stderr_stream := e,
            p_stdout_log_writer := ow, p_stderr_log_writer := ew\<rparr>, sy))"

definition decode_exit :: "int \<Rightarrow> int" where
  "decode_exit exit_status =
     (if WIFEXITED exit_status then WEXITSTATUS exit_status
      else if WIFSIGNALED exit_status then - WTERMSIG exit_status
      else exit_status)"

definition on_exit :: "int \<Rightarrow> process \<Rightarrow> sys \<Rightarrow> process \<times> sys" where
  "on_exit exit_status p sy =
     (let p = p\<lparr>p_exitstatus := decode_exit exit_status, p_pid := -1\<rparr> in
      if p_state p = STOPPING
      then let (p, sy) = set_state STOPPED p sy in (p\<lparr>p_retry_count := 0\<rparr>, sy)
      else if should_autorestart p
      then if p_state p = STARTING then failed_start p sy else set_state BACKOFF p sy
      else set_state EXITED p sy)"

definition backoff_delay :: "sys \<Rightarrow> int \<Rightarrow> int" where
  "backoff_delay sy retry_count = min (shift_one sy retry_count) 60"

definition update :: "process \<Rightarrow> sys \<Rightarrow> process \<times> sys" where
  "update p sy =
     (let (now, sy) = steady_now sy;
          elapsed = to_seconds (now - p_state_change_time p)
      in case p_state p of
           STARTING \<Rightarrow>
             if elapsed \<ge> pc_startsecs (p_config p)
             then let (p, sy) = set_state RUNNING p sy in (p\<lparr>p_retry_count := 0\<rparr>, sy)
             else (p, sy)
         | STOPPING \<Rightarrow>
             if elapsed \<ge> pc_stopwaitsecs (p_config p)
             then (p, snd (sys_kill (p_pid p) SIGKILL sy))
             else (p, sy)
         | BACKOFF \<Rightarrow>
             if elapsed \<ge> backoff_delay sy (p_retry_count p) then snd (start p sy) else (p, sy)
         | _ \<Rightarrow> (p, sy))"

section \<open>Status\<close>

definition get_uptime :: "process \<Rightarrow> sys \<Rightarrow> int \<times> sys" where
  "get_uptime p sy =
     (if p_state p \<noteq> RUNNING \<and> p_state p \<noteq> STARTING then (0, sy)
      else let (now, sy) = steady_now sy in (to_int32 (to_seconds (now - p_start_time p)), sy))"

text \<open>\<open>setfill('0') << setw(2)\<close>.\<close>

definition pad2 :: "string \<Rightarrow> string" where
  "pad2 s = replicate (2 - length s) (CHR ''0'') @ s"

text \<open>C++ division and remainder truncate towards zero.\<close>

definition trunc_mod :: "int \<Rightarrow> int \<Rightarrow> int" where
  "trunc_mod a b = a - b * trunc_div a b"

definition describe :: "int \<Rightarrow> int \<Rightarrow> string" where
  "describe pid uptime =
     ''pid '' @ show_int pid @ '', uptime '' @ show_int (trunc_div uptime 3600) @ '':'' @
     pad2 (show_int (trunc_div (trunc_mod uptime 3600) 60)) @ '':'' @
     pad2 (show_int (trunc_mod uptime 60))"

definition get_info :: "process \<Rightarrow> sys \<Rightarrow> ProcessInfo \<times> sys" where
  "get_info p sy =
     (let (now_time, sy) = system_now sy;
          info = \<lparr>pi_name = pc_name (p_config p), pi_state = p_state p, pi_pid = p_pid p,
            pi_exitstatus = p_exitstatus p,
            pi_stdout_logfile = (case lc_file (pc_stdout_log (p_config p)) of Some f \<Rightarrow> f | None \<Rightarrow> []),
            pi_stderr_logfile = (case lc_file (pc_stderr_log (p_config p)) of Some f \<Rightarrow> f | None \<Rightarrow> []),
            pi_spawnerr = p_spawn_error p, pi_now = to_seconds now_time,
            pi_start = 0, pi_stop = 0, pi_description = []\<rparr>
      in if p_state p = RUNNING \<or> p_state p = STARTING
         then let (wall, sy) = system_now sy;
                  (mono, sy) = steady_now sy;
                  (uptime, sy) = get_uptime p sy
              in (info\<lparr>pi_start := to_seconds (wall - (mono - p_start_time p)),
                       pi_description := describe (p_pid p) uptime\<rparr>, sy)
         else (info, sy))"

section \<open>What each operation leaves alone\<close>

text \<open>
  The core of a process is what its state machine reads and writes; the core of the system is
  the record of signals and the kernel's choices. Spawning and capturing change neither.
\<close>

definition core :: "process \<Rightarrow> program_config \<times> State \<times> int \<times> int" where
  "core p = (p_config p, p_state p, p_pid p, p_retry_count p)"

definition sys_core :: "sys \<Rightarrow> (int \<times> int) list \<times> (nat \<Rightarrow> int) \<times> (nat \<Rightarrow> int)" where
  "sys_core sy = (sy_kills sy, sy_fork_ret sy, sy_steady sy)"

named_theorems frame \<open>fields an operation leaves as they are\<close>

lemma steady_now_frame [frame]: "sys_core (snd (steady_now sy)) = sys_core sy"
  by (simp add: steady_now_def sys_core_def)

lemma close_stream_frame: "close_stream s sy = (s', sy') \<Longrightarrow> sys_core sy' = sys_core sy"
  by (auto simp: close_stream_def sys_close_def sys_core_def split: option.splits if_splits)

lemma start_read_frame [frame]:
  "core (start_stdout_read p) = core p" "core (start_stderr_read p) = core p"
  by (simp_all add: start_stdout_read_def start_stderr_read_def core_def)

lemma writer_frame:
  "writer_flush w sy = (w', sy') \<Longrightarrow> sys_core sy' = sys_core sy"
  "writer_write d w sy = (w', sy') \<Longrightarrow> sys_core sy' = sys_core sy"
  "writer_close w sy = (w', sy') \<Longrightarrow> sys_core sy' = sys_core sy"
  by (auto simp: writer_flush_def writer_write_def writer_close_def sys_core_def
      split: option.splits prod.splits)

lemma handle_read_frame:
  "handle_stdout_read e d p sy = (p', sy') \<Longrightarrow> core p' = core p \<and> sys_core sy' = sys_core sy"
  "handle_stderr_read e d p sy = (p', sy') \<Longrightarrow> core p' = core p \<and> sys_core sy' = sys_core sy"
  by (auto simp: handle_stdout_read_def handle_stderr_read_def Let_def frame core_def
      start_stdout_read_def start_stderr_read_def split: prod.splits if_splits dest!: close_stream_frame writer_frame)

lemma close_pipe_frame [frame]:
  "sys_core (close_pipe pp sy) = sys_core sy" "sys_core (close_write_end pp sy) = sys_core sy"
  by (auto simp: close_pipe_def close_write_end_def sys_close_def sys_core_def split: option.splits)

lemma make_stream_frame: "make_stream fd old sy = (r, sy') \<Longrightarrow> sys_core sy' = sys_core sy"
  by (auto simp: make_stream_def Let_def sys_core_def close_stream_def sys_close_def
      split: if_splits prod.splits option.splits)

lemma attach_frame:
  "attach_stdout pp p sy = (p', sy') \<Longrightarrow> core p' = core p \<and> sys_core sy' = sys_core sy"
  "attach_stderr pp p sy = (p', sy') \<Longrightarrow> core p' = core p \<and> sys_core sy' = sys_core sy"
  by (auto simp: attach_stdout_def attach_stderr_def frame sys_close_def sys_core_def core_def
      start_stdout_read_def start_stderr_read_def
      split: option.splits if_splits prod.splits dest!: make_stream_frame)

lemma pipe_if_frame: "pipe_if b sy = (r, sy') \<Longrightarrow> sys_core sy' = sys_core sy"
  by (auto simp: pipe_if_def pipe2_def Let_def sys_core_def split: if_splits option.splits prod.splits)

lemma spawn_frame:
  assumes "spawn p sy = (r, p', sy')"
  shows "core p' = core p" "sys_core sy' = sys_core sy"
    "r = -1 \<or> (0 \<le> r \<and> (\<exists>n. r = sy_fork_ret sy n))"
proof -
  have p0: "core (p\<lparr>p_spawn_error := []\<rparr>) = core p" "core (set_spawn_error e p) = core p" for e p
    by (simp_all add: core_def set_spawn_error_def)
  have f: "sys_core (snd (fork sy)) = sys_core sy" "fst (fork sy) = sy_fork_ret sy (sy_forks sy)" for sy
    by (simp_all add: fork_def sys_core_def)
  from assms show "core p' = core p" "sys_core sy' = sys_core sy"
    using p0 f(1) by (auto simp: spawn_def Let_def frame split: prod.splits option.splits if_splits
        dest!: pipe_if_frame attach_frame) (metis snd_conv)+
  from assms show "r = -1 \<or> (0 \<le> r \<and> (\<exists>n. r = sy_fork_ret sy n))"
    by (auto simp: spawn_def Let_def sys_core_def fork_def split: prod.splits option.splits if_splits
        dest!: pipe_if_frame)
qed

section \<open>The state machine\<close>

text \<open>Effect of the operations on the core, as rewrite rules.\<close>

lemma set_state_core:
  "core (fst (set_state s p sy)) = (p_config p, s, p_pid p, p_retry_count p)"
  "sys_core (snd (set_state s p sy)) = sys_core sy"
  by (auto simp: set_state_def core_def steady_now_def sys_core_def)

lemma set_state_fields [simp]:
  "p_config (fst (set_state s p sy)) = p_config p" "p_state (fst (set_state s p sy)) = s"
  "p_pid (fst (set_state s p sy)) = p_pid p" "p_retry_count (fst (set_state s p sy)) = p_retry_count p"
  "sy_kills (snd (set_state s p sy)) = sy_kills sy"
  "sy_fork_ret (snd (set_state s p sy)) = sy_fork_ret sy" "sy_steady (snd (set_state s p sy)) = sy_steady sy"
  using set_state_core[of s p sy] by (auto simp: core_def sys_core_def)

lemma steady_now_fields [simp]:
  "sy_kills (snd (steady_now sy)) = sy_kills sy" "sy_fork_ret (snd (steady_now sy)) = sy_fork_ret sy"
  "sy_steady (snd (steady_now sy)) = sy_steady sy"
  "sy_reads (snd (steady_now sy)) = Suc (sy_reads sy)" "fst (steady_now sy) = sy_steady sy (sy_reads sy)"
  by (simp_all add: steady_now_def)

text \<open>What holds of every process at every moment.\<close>

definition proc_inv :: "process \<Rightarrow> bool" where
  "proc_inv p \<longleftrightarrow>
     (p_state p \<in> {STARTING, RUNNING, STOPPING} \<longrightarrow> p_pid p > 0) \<and>
     (p_state p \<in> {STOPPED, EXITED} \<longrightarrow> p_pid p = -1) \<and>
     (p_pid p = -1 \<or> p_pid p > 0) \<and>
     0 \<le> p_retry_count p \<and>
     (p_state p = RUNNING \<longrightarrow> p_retry_count p = 0) \<and>
     (p_state p = BACKOFF \<longrightarrow>
        p_retry_count p = 0 \<or> p_retry_count p < pc_startretries (p_config p)) \<and>
     (p_state p = FATAL \<longrightarrow> pc_startretries (p_config p) \<le> p_retry_count p)"

definition kills_positive :: "sys \<Rightarrow> bool" where
  "kills_positive sy \<longleftrightarrow> (\<forall>(pid, sig)\<in>set (sy_kills sy). pid > 0)"

definition pinv :: "process \<times> sys \<Rightarrow> bool" where
  "pinv s \<longleftrightarrow> proc_inv (fst s) \<and> kills_positive (snd s) \<and> fork_ret_ok (snd s)"

text \<open>Everything the rest of the daemon and the event loop can do to a process.\<close>

inductive pstep :: "process \<times> sys \<Rightarrow> process \<times> sys \<Rightarrow> bool" where
  step_start: "start p sy = (r, p', sy') \<Longrightarrow> pstep (p, sy) (p', sy')"
| step_stop: "stop p sy = (r, p', sy') \<Longrightarrow> pstep (p, sy) (p', sy')"
| step_kill: "kill_process p sy = (p', sy') \<Longrightarrow> pstep (p, sy) (p', sy')"
| step_exit: "p_pid p > 0 \<Longrightarrow> on_exit st p sy = (p', sy') \<Longrightarrow> pstep (p, sy) (p', sy')"
| step_update: "update p sy = (p', sy') \<Longrightarrow> pstep (p, sy) (p', sy')"
| step_stdout: "handle_stdout_read e d p sy = (p', sy') \<Longrightarrow> pstep (p, sy) (p', sy')"
| step_stderr: "handle_stderr_read e d p sy = (p', sy') \<Longrightarrow> pstep (p, sy) (p', sy')"
| step_others: "kills_positive sy' \<Longrightarrow> fork_ret_ok sy' \<Longrightarrow> pstep (p, sy) (p, sy')"

inductive_cases pstepE: "pstep s t"

lemma pinv_core: "core p' = core p \<Longrightarrow> sys_core sy' = sys_core sy \<Longrightarrow> pinv (p', sy') = pinv (p, sy)"
  by (auto simp: pinv_def proc_inv_def kills_positive_def fork_ret_ok_def core_def sys_core_def)

lemma failed_start_fields [simp]:
  "p_config (fst (failed_start p sy)) = p_config p" "p_pid (fst (failed_start p sy)) = p_pid p"
  "p_retry_count (fst (failed_start p sy)) = p_retry_count p + 1"
  "p_state (fst (failed_start p sy)) =
     (if p_retry_count p + 1 \<ge> pc_startretries (p_config p) then FATAL else BACKOFF)"
  "sy_kills (snd (failed_start p sy)) = sy_kills sy" "sy_fork_ret (snd (failed_start p sy)) = sy_fork_ret sy"
  "sy_steady (snd (failed_start p sy)) = sy_steady sy"
  by (simp_all add: failed_start_def Let_def)

text \<open>The three outcomes of \<open>start\<close>.\<close>

lemma start_cases:
  assumes "start p sy = (r, p', sy')"
  obtains (already) "p_state p = RUNNING \<or> p_state p = STARTING" "r" "p' = p" "sy' = sy"
    | (failed) "p_state p \<noteq> RUNNING" "p_state p \<noteq> STARTING" "\<not> r" "sys_core sy' = sys_core sy"
        "core p' = (p_config p,
           if p_retry_count p + 1 \<ge> pc_startretries (p_config p) then FATAL else BACKOFF,
           p_pid p, p_retry_count p + 1)"
    | (spawned) pid where "p_state p \<noteq> RUNNING" "p_state p \<noteq> STARTING" "r" "sys_core sy' = sys_core sy"
        "core p' = (p_config p, STARTING, pid, p_retry_count p)" "0 \<le> pid" "\<exists>n. pid = sy_fork_ret sy n"
proof (cases "p_state p = RUNNING \<or> p_state p = STARTING")
  case True
  with assms have "r" "p' = p" "sy' = sy" by (simp_all add: start_def)
  with True already show thesis by blast
next
  case False
  obtain c q sq where sp: "spawn p sy = (c, q, sq)" by (cases "spawn p sy")
  note fr = spawn_frame[OF sp]
  show thesis
  proof (cases "c < 0")
    case True
    with assms False sp have eq: "r = False" "failed_start q sq = (p', sy')" by (auto simp: start_def)
    then have "p' = fst (failed_start q sq)" "sy' = snd (failed_start q sq)" by simp_all
    then show thesis
      using False fr(1,2) eq(1) by (intro failed) (auto simp: core_def sys_core_def)
  next
    case c: False
    with assms False sp have eq: "r = True"
      "set_state STARTING (q\<lparr>p_pid := c, p_start_time := fst (steady_now sq)\<rparr>) (snd (steady_now sq)) = (p', sy')"
      by (auto simp: start_def Let_def case_prod_unfold)
    then have "p' = fst (set_state STARTING (q\<lparr>p_pid := c, p_start_time := fst (steady_now sq)\<rparr>) (snd (steady_now sq)))"
      "sy' = snd (set_state STARTING (q\<lparr>p_pid := c, p_start_time := fst (steady_now sq)\<rparr>) (snd (steady_now sq)))"
      by simp_all
    then show thesis
      using False fr c eq(1) by (intro spawned[of c]) (auto simp: core_def sys_core_def)
  qed
qed

lemma start_preserves: "start p sy = (r, p', sy') \<Longrightarrow> pinv (p, sy) \<Longrightarrow> pinv (p', sy')"
proof (erule start_cases)
  assume "sys_core sy' = sys_core sy" "pinv (p, sy)" "core p' = (p_config p,
           if p_retry_count p + 1 \<ge> pc_startretries (p_config p) then FATAL else BACKOFF,
           p_pid p, p_retry_count p + 1)"
  then show ?thesis
    by (auto simp: pinv_def proc_inv_def core_def sys_core_def kills_positive_def fork_ret_ok_def split: if_splits)
next
  fix pid assume "sys_core sy' = sys_core sy" "pinv (p, sy)" "core p' = (p_config p, STARTING, pid, p_retry_count p)"
    "0 \<le> pid" "\<exists>n. pid = sy_fork_ret sy n"
  then show ?thesis
    by (fastforce simp: pinv_def proc_inv_def core_def sys_core_def kills_positive_def fork_ret_ok_def less_le)
qed simp

lemma stop_cases:
  assumes "stop p sy = (r, p', sy')"
  obtains (idle) "p_pid p \<le> 0 \<or> p_state p = STOPPED" "\<not> r" "p' = p" "sy' = sy"
    | (signalled) "p_pid p > 0" "p_state p \<noteq> STOPPED"
        "core p' = (p_config p, STOPPING, p_pid p, p_retry_count p)"
        "sy_kills sy' = sy_kills sy @ [(p_pid p, stop_signal (pc_stopsignal (p_config p)))]"
        "sy_fork_ret sy' = sy_fork_ret sy" "sy_steady sy' = sy_steady sy"
proof (cases "p_pid p \<le> 0 \<or> p_state p = STOPPED")
  case True
  with assms have "\<not> r" "p' = p" "sy' = sy" by (auto simp: stop_def)
  with True idle show thesis by blast
next
  case False
  with assms show thesis
    by (intro signalled) (auto simp: stop_def Let_def case_prod_unfold sys_kill_def core_def)
qed

lemma stop_preserves: "stop p sy = (r, p', sy') \<Longrightarrow> pinv (p, sy) \<Longrightarrow> pinv (p', sy')"
  by (erule stop_cases) (auto simp: pinv_def proc_inv_def core_def kills_positive_def fork_ret_ok_def)

lemma kill_cases:
  assumes "kill_process p sy = (p', sy')"
  obtains (idle) "p_pid p \<le> 0" "p' = p" "sy' = sy"
    | (killed) "p_pid p > 0" "core p' = (p_config p, STOPPED, -1, p_retry_count p)"
        "sy_kills sy' = sy_kills sy @ [(p_pid p, SIGKILL)]" "sy_fork_ret sy' = sy_fork_ret sy" "sy_steady sy' = sy_steady sy"
proof (cases "p_pid p \<le> 0")
  case True
  with assms have "p' = p" "sy' = sy" by (auto simp: kill_process_def)
  with True idle show thesis by blast
next
  case False
  let ?q = "p\<lparr>p_pid := -1\<rparr>" and ?s = "waitpid_blocking (p_pid p) (snd (sys_kill (p_pid p) SIGKILL sy))"
  from assms False have eq: "p' = fst (set_state STOPPED ?q ?s)" "sy' = snd (set_state STOPPED ?q ?s)"
    by (simp_all add: kill_process_def Let_def case_prod_unfold)
  from False show thesis
    by (intro killed) (simp_all add: eq core_def sys_kill_def waitpid_blocking_def)
qed

lemma kill_preserves: "kill_process p sy = (p', sy') \<Longrightarrow> pinv (p, sy) \<Longrightarrow> pinv (p', sy')"
  by (erule kill_cases) (auto simp: pinv_def proc_inv_def core_def kills_positive_def fork_ret_ok_def)

text \<open>The state after an exit.\<close>

fun exit_state :: "program_config \<Rightarrow> State \<Rightarrow> int \<Rightarrow> State" where
  "exit_state c STOPPING n = STOPPED"
| "exit_state c FATAL n = EXITED"
| "exit_state c STARTING n =
     (if \<not> pc_autorestart c then EXITED else if n + 1 \<ge> pc_startretries c then FATAL else BACKOFF)"
| "exit_state c _ n = (if pc_autorestart c then BACKOFF else EXITED)"

fun exit_retries :: "program_config \<Rightarrow> State \<Rightarrow> int \<Rightarrow> int" where
  "exit_retries c STOPPING n = 0"
| "exit_retries c STARTING n = (if pc_autorestart c then n + 1 else n)"
| "exit_retries c _ n = n"

lemma on_exit_core:
  assumes "on_exit st p sy = (p', sy')"
  shows "core p' = (p_config p, exit_state (p_config p) (p_state p) (p_retry_count p), -1,
      exit_retries (p_config p) (p_state p) (p_retry_count p))"
    and "sys_core sy' = sys_core sy"
proof -
  have p': "p' = fst (on_exit st p sy)" and s': "sy' = snd (on_exit st p sy)" using assms by simp_all
  show "core p' = (p_config p, exit_state (p_config p) (p_state p) (p_retry_count p), -1,
      exit_retries (p_config p) (p_state p) (p_retry_count p))"
    unfolding p' by (cases "p_state p")
      (simp_all add: on_exit_def Let_def case_prod_unfold core_def should_autorestart_def)
  show "sys_core sy' = sys_core sy"
    unfolding s' by (simp add: on_exit_def Let_def case_prod_unfold sys_core_def)
qed

lemma on_exit_preserves: "on_exit st p sy = (p', sy') \<Longrightarrow> pinv (p, sy) \<Longrightarrow> p_pid p > 0 \<Longrightarrow> pinv (p', sy')"
  using on_exit_core[of st p sy p' sy']
  by (cases "p_state p")
    (auto simp: pinv_def proc_inv_def core_def sys_core_def kills_positive_def fork_ret_ok_def split: if_splits)

lemma update_preserves:
  assumes "update p sy = (p', sy')" "pinv (p, sy)"
  shows "pinv (p', sy')"
proof -
  define sy1 where "sy1 = snd (steady_now sy)"
  have inv1: "pinv (p, sy1)" using assms(2) pinv_core[of p p sy1 sy] by (simp add: sy1_def frame)
  have eq: "(p', sy') = update p sy" using assms(1) by simp
  show ?thesis
  proof (cases "p_state p")
    case STARTING
    with inv1 eq show ?thesis
      by (auto simp: update_def case_prod_unfold Let_def sy1_def[symmetric] pinv_def proc_inv_def
          kills_positive_def fork_ret_ok_def split: if_splits)
  next
    case STOPPING
    with inv1 eq show ?thesis
      by (auto simp: update_def case_prod_unfold Let_def sy1_def[symmetric] pinv_def proc_inv_def
          kills_positive_def fork_ret_ok_def sys_kill_def split: if_splits)
  next
    case BACKOFF
    then have "(p', sy') = (p, sy1) \<or> (p', sy') = snd (start p sy1)"
      using eq by (auto simp: update_def case_prod_unfold Let_def sy1_def[symmetric] split: if_splits)
    with inv1 start_preserves[of p sy1 "fst (start p sy1)" p' sy'] show ?thesis
      by (metis prod.collapse prod.inject)
  qed (use eq inv1 in \<open>simp_all add: update_def case_prod_unfold Let_def sy1_def\<close>)
qed

lemma pstep_preserves: "pstep s t \<Longrightarrow> pinv s \<Longrightarrow> pinv t"
proof (induction rule: pstep.induct)
  case (step_stdout e d p sy p' sy')
  then show ?case using handle_read_frame(1) pinv_core by metis
next
  case (step_stderr e d p sy p' sy')
  then show ?case using handle_read_frame(2) pinv_core by metis
next
  case (step_others sy' p sy)
  then show ?case by (simp add: pinv_def)
qed (blast intro: start_preserves stop_preserves kill_preserves on_exit_preserves update_preserves)+

interpretation pm: transition_system pstep pinv
  by unfold_locales (rule pstep_preserves)

lemma mk_process_fields:
  assumes "mk_process c sy = (p, sy')"
  shows "core p = (c, STOPPED, -1, 0)" "sys_core sy' = sys_core sy"
  using assms by (auto simp: mk_process_def Let_def case_prod_unfold core_def sys_core_def steady_now_def)

lemma mk_process_inv:
  "mk_process c sy = (p, sy') \<Longrightarrow> kills_positive sy \<Longrightarrow> fork_ret_ok sy \<Longrightarrow> pinv (p, sy')"
  using mk_process_fields[of c sy p sy']
  by (auto simp: pinv_def proc_inv_def core_def sys_core_def kills_positive_def fork_ret_ok_def)

text \<open>
  C1: Whatever sequence of starts, stops, kills, exits, timer updates, completed reads and
  activities of other processes a program goes through after its creation, a process in state
  STARTING, RUNNING or STOPPING has a pid, a stopped or exited one has none, a process in BACKOFF
  has retries left, a RUNNING process has its retry counter cleared, and every signal the
  daemon sent went to a single positive pid (never to a process group or to all processes).
\<close>

theorem process_invariant:
  assumes "mk_process c sy = s" "kills_positive sy" "fork_ret_ok sy" "pstep\<^sup>*\<^sup>* s t"
  shows "proc_inv (fst t) \<and> (\<forall>(pid, sig)\<in>set (sy_kills (snd t)). pid > 0)"
proof -
  have "pinv s" using assms(1-3) mk_process_inv[of c sy "fst s" "snd s"] by simp
  with pm.steps_preserve assms(4) have "pinv t" by blast
  then show ?thesis by (simp add: pinv_def kills_positive_def)
qed

definition sample_sys :: sys where
  "sample_sys =
     \<lparr>sy_fs = sample_fs, sy_steady = (\<lambda>n. int n * NS), sy_system = (\<lambda>n. int n * NS), sy_reads = 0,
      sy_fork_ret = (\<lambda>n. 100 + int n), sy_forks = 0, sy_pipe_ok = (\<lambda>_. True), sy_pipes = 0,
      sy_fds = [0, 1, 2], sy_asio_ok = (\<lambda>_. True), sy_streams = 0, sy_kill_ok = (\<lambda>_. True),
      sy_kills = [], sy_waitable = [], sy_shift = (\<lambda>_. 0), sy_strerror = []\<rparr>"

lemma sample_sys_ok: "kills_positive sample_sys" "fork_ret_ok sample_sys"
proof -
  have "100 + int n \<noteq> 0" for n by simp
  then show "kills_positive sample_sys" "fork_ret_ok sample_sys"
    by (simp_all add: kills_positive_def fork_ret_ok_def sample_sys_def)
qed

definition sample_fresh :: "process \<times> sys" where
  "sample_fresh = mk_process default_program_config sample_sys"

definition sample_started :: "process \<times> sys" where
  "sample_started = (case sample_fresh of (p, sy) \<Rightarrow> snd (start p sy))"

lemma sample_fresh_inv: "pinv sample_fresh"
  using mk_process_inv[OF _ sample_sys_ok, of _ "fst sample_fresh" "snd sample_fresh"]
  by (simp add: sample_fresh_def)

lemma sample_step: "pstep sample_fresh sample_started"
  using pstep.step_start[of "fst sample_fresh" "snd sample_fresh" "fst (start (fst sample_fresh) (snd sample_fresh))"
      "fst sample_started" "snd sample_started"]
  by (simp add: sample_started_def case_prod_unfold)

lemmas sample_eval = sample_started_def sample_fresh_def mk_process_def create_writer_def
  default_program_config_def default_log_config_def sample_sys_def start_def spawn_def pipe_if_def
  wants_stdout_pipe_def wants_stderr_pipe_def fork_def close_write_end_def attach_stdout_def
  attach_stderr_def set_state_def steady_now_def Let_def

lemma sample_started_fields:
  "p_state (fst sample_started) = STARTING" "p_pid (fst sample_started) = 100"
  "p_state (fst sample_fresh) = STOPPED" "p_state_change_time (fst sample_started) = 2 * NS"
  "p_start_time (fst sample_started) = NS" "p_retry_count (fst sample_started) = 0"
  "p_config (fst sample_started) = default_program_config" "p_config (fst sample_fresh) = default_program_config"
  "p_retry_count (fst sample_fresh) = 0"
  "sy_reads (snd sample_started) = 3" "sy_steady (snd sample_started) = (\<lambda>n. int n * NS)"
  "sy_kills (snd sample_started) = []" "sy_forks (snd sample_started) = 1"
  by (simp_all add: sample_eval)

lemma sample_run: "pstep\<^sup>*\<^sup>* sample_fresh sample_started"
  using sample_step by (rule r_into_rtranclp)

theorem process_invariant_witness: "p_pid (fst sample_started) > 0 \<and> p_state (fst sample_started) = STARTING"
  using process_invariant[OF sample_fresh_def[symmetric] sample_sys_ok sample_run]
  by (simp add: proc_inv_def sample_started_fields)

end
