(* ===== verification/Process_Behaviour.thy ===== *)
theory Process_Behaviour
  imports Process
begin

text \<open>
  What the operations of \<open>Process\<close> promise: the transitions of the state machine, the
  retry limit, the timers, exit statuses, the stop signal, descriptors, the capture of output
  and the text of the status line.
\<close>

section \<open>The transition graph\<close>

fun state_edge :: "State \<Rightarrow> State \<Rightarrow> bool" where
  "state_edge STOPPED t \<longleftrightarrow> t \<in> {STARTING, BACKOFF, FATAL}"
| "state_edge STARTING t \<longleftrightarrow> t \<in> {RUNNING, STOPPING, BACKOFF, FATAL, EXITED, STOPPED}"
| "state_edge RUNNING t \<longleftrightarrow> t \<in> {STOPPING, BACKOFF, EXITED, STOPPED}"
| "state_edge BACKOFF t \<longleftrightarrow> t \<in> {STARTING, FATAL, STOPPING, EXITED, STOPPED}"
| "state_edge STOPPING t \<longleftrightarrow> t \<in> {STOPPED, STARTING, BACKOFF, FATAL}"
| "state_edge EXITED t \<longleftrightarrow> t \<in> {STARTING, BACKOFF, FATAL}"
| "state_edge FATAL t \<longleftrightarrow> t \<in> {STARTING, STOPPING, EXITED, STOPPED}"

definition edge_ok :: "process \<Rightarrow> process \<Rightarrow> bool" where
  "edge_ok p p' \<longleftrightarrow> p_state p' = p_state p \<or> state_edge (p_state p) (p_state p')"

lemma start_edge: "proc_inv p \<Longrightarrow> start p sy = (r, p', sy') \<Longrightarrow> edge_ok p p'"
  by (erule start_cases; cases "p_state p")
    (auto simp: edge_ok_def core_def proc_inv_def split: if_splits)

lemma stop_edge: "proc_inv p \<Longrightarrow> stop p sy = (r, p', sy') \<Longrightarrow> edge_ok p p'"
  by (erule stop_cases; cases "p_state p") (auto simp: edge_ok_def core_def proc_inv_def)

lemma kill_edge: "proc_inv p \<Longrightarrow> kill_process p sy = (p', sy') \<Longrightarrow> edge_ok p p'"
  by (erule kill_cases; cases "p_state p") (auto simp: edge_ok_def core_def proc_inv_def)

lemma on_exit_edge: "proc_inv p \<Longrightarrow> p_pid p > 0 \<Longrightarrow> on_exit st p sy = (p', sy') \<Longrightarrow> edge_ok p p'"
  using on_exit_core(1)[of st p sy p' sy']
  by (cases "p_state p") (auto simp: edge_ok_def core_def proc_inv_def split: if_splits)

text \<open>What \<open>update\<close> does, with the reading of the clock made explicit.\<close>

lemma update_eq:
  defines "now \<equiv> \<lambda>sy. sy_steady sy (sy_reads sy)"
  shows
    "p_state p = STARTING \<Longrightarrow> update p sy =
       (if to_seconds (now sy - p_state_change_time p) \<ge> pc_startsecs (p_config p)
        then ((fst (set_state RUNNING p (snd (steady_now sy))))\<lparr>p_retry_count := 0\<rparr>,
              snd (set_state RUNNING p (snd (steady_now sy))))
        else (p, snd (steady_now sy)))"
    "p_state p = STOPPING \<Longrightarrow> update p sy =
       (p, if to_seconds (now sy - p_state_change_time p) \<ge> pc_stopwaitsecs (p_config p)
           then snd (sys_kill (p_pid p) SIGKILL (snd (steady_now sy))) else snd (steady_now sy))"
    "p_state p = BACKOFF \<Longrightarrow> update p sy =
       (if to_seconds (now sy - p_state_change_time p) \<ge> backoff_delay sy (p_retry_count p)
        then snd (start p (snd (steady_now sy))) else (p, snd (steady_now sy)))"
    "p_state p \<in> {STOPPED, RUNNING, EXITED, FATAL} \<Longrightarrow> update p sy = (p, snd (steady_now sy))"
  by (auto simp: update_def case_prod_unfold Let_def now_def steady_now_def backoff_delay_def shift_one_def)

lemma update_edge:
  assumes "proc_inv p" "update p sy = (p', sy')"
  shows "edge_ok p p'"
proof (cases "p_state p")
  case BACKOFF
  with assms(2) have "p' = p \<or> p' = fst (snd (start p (snd (steady_now sy))))"
    by (auto simp: update_eq split: if_splits)
  with start_edge[OF assms(1), of "snd (steady_now sy)"] show ?thesis
    by (metis edge_ok_def prod.collapse)
qed (use assms in \<open>auto simp: update_eq edge_ok_def split: if_splits\<close>)

text \<open>
  C34: Every step of a process in a consistent state leaves its state unchanged or follows an
  edge of the transition graph: in particular RUNNING is reached only from STARTING, a process
  in FATAL is never put back into BACKOFF, and a stopped or exited process only changes state by
  being started.
\<close>

theorem pstep_follows_graph:
  assumes "pstep (p, sy) (p', sy')" "pinv (p, sy)"
  shows "p_state p' = p_state p \<or> state_edge (p_state p) (p_state p')"
proof -
  have inv: "proc_inv p" using assms(2) by (simp add: pinv_def)
  have core: "core p' = core p \<Longrightarrow> edge_ok p p'" by (simp add: edge_ok_def core_def)
  from assms(1) have "edge_ok p p'"
    by (cases rule: pstep.cases)
      (use inv core in \<open>auto dest: start_edge stop_edge kill_edge on_exit_edge update_edge handle_read_frame\<close>)
  then show ?thesis by (simp add: edge_ok_def)
qed

theorem pstep_follows_graph_witness: "state_edge STOPPED (p_state (fst sample_started))"
  using pstep_follows_graph[of "fst sample_fresh" "snd sample_fresh" "fst sample_started" "snd sample_started"]
    sample_step sample_fresh_inv
  by (simp add: sample_started_fields)

section \<open>The retry limit\<close>

text \<open>
  A failed attempt: the spawn fails, or it succeeds and the child exits before it counts as
  started. Other processes may act on the system in between.
\<close>

inductive failed_attempt :: "process \<times> sys \<Rightarrow> process \<times> sys \<Rightarrow> bool" where
  spawn_failure: "start p sy = (False, p', sy') \<Longrightarrow> failed_attempt (p, sy) (p', sy'')"
| early_exit: "p_state p \<notin> {RUNNING, STARTING} \<Longrightarrow> start p sy = (True, p1, sy1) \<Longrightarrow>
    on_exit st p1 sy2 = (p', sy') \<Longrightarrow> failed_attempt (p, sy) (p', sy'')"

lemma failed_attempt_core:
  assumes "failed_attempt s s'" "pc_autorestart (p_config (fst s))"
  shows "core (fst s') = (p_config (fst s),
      if p_retry_count (fst s) + 1 \<ge> pc_startretries (p_config (fst s)) then FATAL else BACKOFF,
      p_pid (fst s'), p_retry_count (fst s) + 1)"
  using assms
proof (induction rule: failed_attempt.induct)
  case (spawn_failure p sy p' sy' sy'')
  then show ?case by (auto elim!: start_cases simp: core_def)
next
  case (early_exit p sy p1 sy1 st sy2 p' sy' sy'')
  have "core p1 = (p_config p, STARTING, p_pid p1, p_retry_count p)"
    using early_exit.hyps(1,2) by (elim start_cases) (auto simp: core_def)
  with on_exit_core(1)[OF early_exit.hyps(3)] early_exit.prems show ?case
    by (auto simp: core_def)
qed

text \<open>
  C2: Starting from a cleared retry counter, \<open>startretries\<close> failed attempts in a row, each
  either a failed spawn or a child that exits before \<open>startsecs\<close>, put an autorestart program
  into FATAL; after fewer failures it is in BACKOFF and will be tried again.
\<close>

theorem startretries_failures_are_fatal:
  assumes "(failed_attempt ^^ k) s s'" "pc_autorestart (p_config (fst s))" "p_retry_count (fst s) = 0"
    and "1 \<le> k" "int k \<le> pc_startretries (p_config (fst s))"
  shows "p_state (fst s') = (if int k = pc_startretries (p_config (fst s)) then FATAL else BACKOFF)
    \<and> p_retry_count (fst s') = int k"
proof -
  have "p_config (fst s') = p_config (fst s) \<and> p_retry_count (fst s') = int k \<and>
      (1 \<le> k \<longrightarrow> p_state (fst s') =
         (if int k \<ge> pc_startretries (p_config (fst s)) then FATAL else BACKOFF))"
    using assms(1)
  proof (induction k arbitrary: s')
    case 0
    with assms(3) show ?case by simp
  next
    case (Suc k)
    then obtain t where t: "(failed_attempt ^^ k) s t" "failed_attempt t s'" by auto
    from Suc.IH[OF t(1)] failed_attempt_core[OF t(2)] assms(2) show ?case by (auto simp: core_def)
  qed
  with assms(4,5) show ?thesis by auto
qed

definition no_fork_sys :: sys where
  "no_fork_sys = sample_sys\<lparr>sy_fork_ret := (\<lambda>_. -1)\<rparr>"

theorem startretries_failures_are_fatal_witness:
  "p_state (fst (snd (start (fst sample_fresh) no_fork_sys))) = BACKOFF"
proof -
  let ?r = "start (fst sample_fresh) no_fork_sys"
  have "fst ?r = False" by (simp add: sample_eval no_fork_sys_def set_spawn_error_def close_pipe_def)
  then have "failed_attempt (fst sample_fresh, no_fork_sys) (snd ?r)"
    using failed_attempt.spawn_failure[of "fst sample_fresh" no_fork_sys "fst (snd ?r)" "snd (snd ?r)"]
    by (metis prod.collapse)
  then have "(failed_attempt ^^ 1) (fst sample_fresh, no_fork_sys) (snd ?r)"
    by (simp add: eq_OO)
  from startretries_failures_are_fatal[OF this] show ?thesis
    by (simp add: sample_started_fields default_program_config_def)
qed

section \<open>Timers\<close>

text \<open>
  C3: A timer tick at clock reading \<open>now\<close> promotes a STARTING process to RUNNING exactly
  when it has been starting for at least \<open>startsecs\<close> seconds, sends SIGKILL to a STOPPING one
  exactly when it has been stopping for at least \<open>stopwaitsecs\<close> seconds (and to nobody
  otherwise), and retries a process in BACKOFF exactly when the delay of \<open>2 ^ retry_count\<close>
  seconds, capped at 60, has passed. This holds as long as the process has had fewer than 31 retries, beyond
  which the shift that computes the delay is undefined in C++.
\<close>

theorem update_timing:
  assumes "update p sy = (p', sy')"
    and "waited = sy_steady sy (sy_reads sy) - p_state_change_time p" "0 \<le> waited"
    and "0 \<le> pc_startsecs (p_config p)" "0 \<le> pc_stopwaitsecs (p_config p)"
    and "0 \<le> p_retry_count p" "p_retry_count p < 31"
  shows "(p_state p = STARTING \<longrightarrow>
        p_state p' = (if waited \<ge> pc_startsecs (p_config p) * NS then RUNNING else STARTING)) \<and>
     (p_state p = STOPPING \<longrightarrow> p_state p' = STOPPING \<and>
        sy_kills sy' = sy_kills sy @
          (if waited \<ge> pc_stopwaitsecs (p_config p) * NS then [(p_pid p, SIGKILL)] else [])) \<and>
     (p_state p = BACKOFF \<longrightarrow>
        (p', sy') = (if waited \<ge> min (2 ^ nat (p_retry_count p)) 60 * NS
                     then snd (start p (snd (steady_now sy))) else (p, snd (steady_now sy))))"
proof -
  have d: "backoff_delay sy (p_retry_count p) = min (2 ^ nat (p_retry_count p)) 60"
    using assms(6,7) by (simp add: backoff_delay_def shift_one_def)
  have e: "to_seconds waited \<ge> k \<longleftrightarrow> waited \<ge> k * NS" if "0 \<le> k" for k
    using to_seconds_ge_nonneg[OF assms(3) that] .
  have k: "0 \<le> min (2 ^ nat (p_retry_count p)) (60::int)" by simp
  show ?thesis
    using assms(1) e[OF assms(4)] e[OF assms(5)] e[OF k]
    by (auto simp: update_eq assms(2)[symmetric] d sys_kill_def split: if_splits)
qed

theorem update_timing_witness:
  "p_state (fst (update (fst sample_started) (snd sample_started))) = RUNNING"
  using update_timing[of "fst sample_started" "snd sample_started"
      "fst (update (fst sample_started) (snd sample_started))"
      "snd (update (fst sample_started) (snd sample_started))" NS]
  by (simp add: sample_started_fields default_program_config_def)

section \<open>Exits\<close>

text \<open>
  Auxiliary property: A child that calls \<open>exit(code)\<close> is reported with that code and one killed by a signal
  with the negated signal number, whether or not it dumped core; the pid is cleared; a process
  being stopped becomes STOPPED with its retry counter cleared, a running one is scheduled for
  restart without using a retry, and without autorestart it ends in EXITED.
\<close>

theorem on_exit_reports:
  assumes "on_exit st p sy = (p', sy')" "p_state p \<in> {RUNNING, STOPPING}"
    and "(st = code * 256 \<and> 0 \<le> code \<and> code < 256 \<and> v = code) \<or>
         (st = sig + core_flag * 128 \<and> core_flag \<in> {0, 1} \<and> 0 < sig \<and> sig < 127 \<and> v = - sig)"
  shows "p_exitstatus p' = v \<and> p_pid p' = -1 \<and>
    p_state p' = (if p_state p = STOPPING then STOPPED
                  else if pc_autorestart (p_config p) then BACKOFF else EXITED) \<and>
    p_retry_count p' = (if p_state p = STOPPING then 0 else p_retry_count p)"
proof -
  have "decode_exit st = v"
    using assms(3) by (auto simp: decode_exit_def WIFEXITED_def WEXITSTATUS_def WTERMSIG_def WIFSIGNALED_def)
  moreover have "p_exitstatus p' = decode_exit st"
    using assms(1) by (auto simp: on_exit_def Let_def case_prod_unfold set_state_def failed_start_def split: if_splits)
  ultimately show ?thesis using on_exit_core(1)[OF assms(1)] assms(2) by (auto simp: core_def)
qed

theorem on_exit_reports_witness:
  "p_exitstatus (fst (on_exit 137 ((fst sample_started)\<lparr>p_state := STOPPING\<rparr>) sample_sys)) = -9"
  using on_exit_reports[of 137 "(fst sample_started)\<lparr>p_state := STOPPING\<rparr>" sample_sys
      "fst (on_exit 137 ((fst sample_started)\<lparr>p_state := STOPPING\<rparr>) sample_sys)"
      "snd (on_exit 137 ((fst sample_started)\<lparr>p_state := STOPPING\<rparr>) sample_sys)" 0 "-9" 9 1]
  by simp

section \<open>Descriptors\<close>

definition open_fd :: "stream_descriptor option \<Rightarrow> nat set" where
  "open_fd s = (case s of None \<Rightarrow> {} | Some d \<Rightarrow> if sd_is_open d then {sd_fd d} else {})"

definition owned_fds :: "process \<Rightarrow> nat set" where
  "owned_fds p = open_fd (p_stdout_stream p) \<union> open_fd (p_stderr_stream p)"

definition other_fds :: "process \<Rightarrow> sys \<Rightarrow> nat set" where
  "other_fds p sy = set (sy_fds sy) - owned_fds p"

definition fds_ok :: "process \<Rightarrow> sys \<Rightarrow> bool" where
  "fds_ok p sy \<longleftrightarrow> owned_fds p \<subseteq> set (sy_fds sy) \<and>
     open_fd (p_stdout_stream p) \<inter> open_fd (p_stderr_stream p) = {}"

lemma close_stream_fds:
  "close_stream s sy = (s', sy') \<Longrightarrow> open_fd s' = {} \<and> set (sy_fds sy') = set (sy_fds sy) - open_fd s"
  by (auto simp: close_stream_def open_fd_def sys_close_def split: option.splits if_splits)

lemma make_stream_fds:
  "make_stream fd old sy = (None, sy') \<Longrightarrow> set (sy_fds sy') = set (sy_fds sy)"
  "make_stream fd old sy = (Some s, sy') \<Longrightarrow>
     open_fd s = {fd} \<and> set (sy_fds sy') = set (sy_fds sy) - open_fd old"
  by (auto simp: make_stream_def Let_def open_fd_def close_stream_def sys_close_def
      split: if_splits prod.splits option.splits)

lemma start_read_streams [simp]:
  "p_stdout_stream (start_stdout_read p) = p_stdout_stream p"
  "p_stderr_stream (start_stdout_read p) = p_stderr_stream p"
  "p_stdout_stream (start_stderr_read p) = p_stdout_stream p"
  "p_stderr_stream (start_stderr_read p) = p_stderr_stream p"
  by (simp_all add: start_stdout_read_def start_stderr_read_def)

lemma attach_fds:
  assumes "r \<in> set (sy_fds sy)" "r \<notin> owned_fds p" "fds_ok p sy"
  shows "attach_stdout (Some (r, w)) p sy = (p', sy') \<Longrightarrow>
      other_fds p' sy' = other_fds p sy - {r} \<and> fds_ok p' sy' \<and> owned_fds p' \<subseteq> insert r (owned_fds p)"
    and "attach_stderr (Some (r, w)) p sy = (p', sy') \<Longrightarrow>
      other_fds p' sy' = other_fds p sy - {r} \<and> fds_ok p' sy' \<and> owned_fds p' \<subseteq> insert r (owned_fds p)"
  using assms
  by (auto simp: attach_stdout_def attach_stderr_def other_fds_def owned_fds_def fds_ok_def sys_close_def
      split: if_splits prod.splits option.splits dest!: make_stream_fds)

lemma attach_None [simp]: "attach_stdout None p sy = (p, sy)" "attach_stderr None p sy = (p, sy)"
  by (simp_all add: attach_stdout_def attach_stderr_def)

definition pipe_fds :: "(nat \<times> nat) option \<Rightarrow> nat set" where
  "pipe_fds pp = (case pp of None \<Rightarrow> {} | Some (r, w) \<Rightarrow> {r, w})"

lemma pipe_if_fds:
  "pipe_if b sy = (None, sy') \<Longrightarrow> set (sy_fds sy') = set (sy_fds sy)"
  "pipe_if b sy = (Some pp, sy') \<Longrightarrow> set (sy_fds sy') = set (sy_fds sy) \<union> pipe_fds pp \<and>
     set (sy_fds sy) \<inter> pipe_fds pp = {} \<and> (\<forall>r w. pp = Some (r, w) \<longrightarrow> r \<noteq> w)"
  using lowest_free_notin[of "sy_fds sy"]
    lowest_free_notin[of "lowest_free (sy_fds sy) # sy_fds sy"]
  by (auto simp: pipe_if_def pipe2_def Let_def pipe_fds_def split: if_splits prod.splits option.splits)

lemma close_pipe_fds:
  "set (sy_fds (close_pipe pp sy)) = set (sy_fds sy) - pipe_fds pp"
  "set (sy_fds (close_write_end pp sy)) = set (sy_fds sy) - (case pp of None \<Rightarrow> {} | Some (r, w) \<Rightarrow> {w})"
  by (auto simp: close_pipe_def close_write_end_def sys_close_def pipe_fds_def split: option.splits)

definition read_end :: "(nat \<times> nat) option \<Rightarrow> nat set" where
  "read_end pp = (case pp of None \<Rightarrow> {} | Some (r, w) \<Rightarrow> {r})"

definition write_end :: "(nat \<times> nat) option \<Rightarrow> nat set" where
  "write_end pp = (case pp of None \<Rightarrow> {} | Some (r, w) \<Rightarrow> {w})"

text \<open>Attaching a pipe moves its read end from the unowned descriptors to the process, or closes it.\<close>

lemma attach_stdout_other:
  assumes "attach_stdout pp p sy = (p', sy')" "fds_ok p sy" "read_end pp \<subseteq> other_fds p sy"
  shows "other_fds p' sy' = other_fds p sy - read_end pp" "fds_ok p' sy'"
  using assms attach_fds(1)[of _ sy p _ p' sy'] by (cases pp; fastforce simp: read_end_def other_fds_def)+

lemma attach_stderr_other:
  assumes "attach_stderr pp p sy = (p', sy')" "fds_ok p sy" "read_end pp \<subseteq> other_fds p sy"
  shows "other_fds p' sy' = other_fds p sy - read_end pp" "fds_ok p' sy'"
  using assms attach_fds(2)[of _ sy p _ p' sy'] by (cases pp; fastforce simp: read_end_def other_fds_def)+

lemma spawn_cases:
  assumes "spawn p sy = (r, p', sy')"
  obtains (stdout_pipe_failed) sy1 where "pipe_if (wants_stdout_pipe (p_config p)) sy = (None, sy1)"
      "r = -1" "p_stdout_stream p' = p_stdout_stream p" "p_stderr_stream p' = p_stderr_stream p" "sy' = sy1"
    | (stderr_pipe_failed) op sy1 sy2 where "pipe_if (wants_stdout_pipe (p_config p)) sy = (Some op, sy1)"
      "pipe_if (wants_stderr_pipe (p_config p)) sy1 = (None, sy2)"
      "r = -1" "p_stdout_stream p' = p_stdout_stream p" "p_stderr_stream p' = p_stderr_stream p" "sy' = close_pipe op sy2"
    | (fork_failed) op ep sy1 sy2 where "pipe_if (wants_stdout_pipe (p_config p)) sy = (Some op, sy1)"
      "pipe_if (wants_stderr_pipe (p_config p)) sy1 = (Some ep, sy2)"
      "r = -1" "p_stdout_stream p' = p_stdout_stream p" "p_stderr_stream p' = p_stderr_stream p" "sy' = close_pipe ep (close_pipe op (snd (fork sy2)))"
    | (parent) op ep sy1 sy2 p1 sy3 where "pipe_if (wants_stdout_pipe (p_config p)) sy = (Some op, sy1)"
      "pipe_if (wants_stderr_pipe (p_config p)) sy1 = (Some ep, sy2)" "r = fst (fork sy2)" "0 \<le> r"
      "attach_stdout op (p\<lparr>p_spawn_error := []\<rparr>)
         (close_write_end ep (close_write_end op (snd (fork sy2)))) = (p1, sy3)"
      "attach_stderr ep p1 sy3 = (p', sy')"
proof -
  obtain a sy1 where a: "pipe_if (wants_stdout_pipe (p_config p)) sy = (a, sy1)" by fastforce
  obtain b sy2 where b: "pipe_if (wants_stderr_pipe (p_config p)) sy1 = (b, sy2)" by fastforce
  note ev = spawn_def Let_def set_spawn_error_def a b
  consider "a = None" | op where "a = Some op" "b = None" | op ep where "a = Some op" "b = Some ep"
    by (cases a; cases b) auto
  then show thesis
  proof cases
    case 1
    with assms show thesis by (intro stdout_pipe_failed[of sy1]) (auto simp: ev)
  next
    case 2
    with assms show thesis by (intro stderr_pipe_failed[of op sy1 sy2]) (auto simp: ev)
  next
    case 3
    obtain p1 sy3 where at: "attach_stdout op (p\<lparr>p_spawn_error := []\<rparr>)
         (close_write_end ep (close_write_end op (snd (fork sy2)))) = (p1, sy3)" by fastforce
    show thesis
    proof (cases "fst (fork sy2) < 0")
      case True
      with 3 assms show thesis
        by (intro fork_failed[of op sy1 ep sy2]) (auto simp: ev case_prod_unfold)
    next
      case False
      with 3 assms at show thesis
        by (intro parent[of op sy1 ep sy2 p1 sy3]) (auto simp: ev case_prod_unfold)
    qed
  qed
qed

lemma fork_fds [simp]: "sy_fds (snd (fork sy)) = sy_fds sy"
  by (simp add: fork_def)

lemma pipe_ends: "pipe_fds pp = read_end pp \<union> write_end pp"
  by (auto simp: pipe_fds_def read_end_def write_end_def split: option.splits)

lemma close_write_end_fds: "set (sy_fds (close_write_end pp sy)) = set (sy_fds sy) - write_end pp"
  by (auto simp: close_write_end_def sys_close_def write_end_def split: option.splits)

lemma pipe_if_ends:
  assumes "pipe_if b sy = (Some pp, sy')"
  shows "set (sy_fds sy') = set (sy_fds sy) \<union> read_end pp \<union> write_end pp"
    "set (sy_fds sy) \<inter> (read_end pp \<union> write_end pp) = {}" "read_end pp \<inter> write_end pp = {}"
  using pipe_if_fds(2)[OF assms]
  by (auto simp: pipe_ends read_end_def write_end_def split: option.splits)

lemma spawn_parent_fds:
  assumes op: "pipe_if b sy = (Some op, sy1)" and ep: "pipe_if b' sy1 = (Some ep, sy2)"
    and at: "attach_stdout op (p\<lparr>p_spawn_error := []\<rparr>)
         (close_write_end ep (close_write_end op (snd (fork sy2)))) = (p1, sy3)"
      "attach_stderr ep p1 sy3 = (p', sy')"
    and ok: "fds_ok p sy"
  shows "other_fds p' sy' = other_fds p sy" "fds_ok p' sy'"
proof -
  let ?p = "p\<lparr>p_spawn_error := []\<rparr>"
  let ?sy = "close_write_end ep (close_write_end op (snd (fork sy2)))"
  note o = pipe_if_ends[OF op] and e = pipe_if_ends[OF ep]
  have fds: "set (sy_fds ?sy) = set (sy_fds sy) \<union> read_end op \<union> read_end ep"
    using o e by (auto simp: close_write_end_fds)
  have own: "owned_fds ?p = owned_fds p" by (simp add: owned_fds_def)
  have ok1: "fds_ok ?p ?sy" using ok fds by (auto simp: fds_ok_def own)
  have new: "read_end op \<inter> owned_fds p = {}" "read_end ep \<inter> owned_fds p = {}"
    using ok o(1,2) e(2) by (auto simp: fds_ok_def)
  have oth: "other_fds ?p ?sy = other_fds p sy \<union> read_end op \<union> read_end ep"
    using fds new by (auto simp: other_fds_def own)
  note a = attach_stdout_other[OF at(1) ok1]
  have sub: "read_end ep \<subseteq> other_fds p1 sy3" using a(1) oth o(1) e(2) by auto
  from a oth have a1: "other_fds p1 sy3 = other_fds p sy \<union> read_end op \<union> read_end ep - read_end op"
    and ok2: "fds_ok p1 sy3" by auto
  have "other_fds p sy \<inter> (read_end op \<union> read_end ep) = {}"
    using o(1,2) e(2) by (auto simp: other_fds_def)
  then show "other_fds p' sy' = other_fds p sy" "fds_ok p' sy'"
    using attach_stderr_other[OF at(2) ok2 sub] a1 by auto
qed

lemma same_fds:
  assumes "set (sy_fds sy') = set (sy_fds sy)" "fds_ok p sy"
    "p_stdout_stream p' = p_stdout_stream p" "p_stderr_stream p' = p_stderr_stream p"
  shows "other_fds p' sy' = other_fds p sy \<and> fds_ok p' sy'"
  using assms by (simp add: other_fds_def owned_fds_def fds_ok_def)

text \<open>
  C14: Spawning leaks no descriptor on any path: whether a pipe cannot be created, the fork
  fails, a stream cannot be set up or the child is running, the descriptors of the daemon that
  do not belong to the open output streams of this process are the same before and after, and
  those streams' descriptors are open and distinct. The stream of an earlier run is closed when
  it is replaced.
\<close>

theorem spawn_leaks_no_fds:
  assumes "spawn p sy = (r, p', sy')" "fds_ok p sy"
  shows "other_fds p' sy' = other_fds p sy \<and> fds_ok p' sy' \<and> (r = -1 \<longrightarrow> set (sy_fds sy') = set (sy_fds sy))"
  using assms(1)
proof (cases rule: spawn_cases)
  case (stdout_pipe_failed sy1)
  then have fds: "set (sy_fds sy') = set (sy_fds sy)" using pipe_if_fds(1)[OF stdout_pipe_failed(1)] by simp
  with same_fds[OF fds assms(2) stdout_pipe_failed(3,4)] show ?thesis by simp
next
  case (stderr_pipe_failed op sy1 sy2)
  then have fds: "set (sy_fds sy') = set (sy_fds sy)"
    using pipe_if_fds(1)[OF stderr_pipe_failed(2)] pipe_if_fds(2)[OF stderr_pipe_failed(1)]
    by (auto simp: close_pipe_fds)
  with same_fds[OF fds assms(2) stderr_pipe_failed(4,5)] show ?thesis by simp
next
  case (fork_failed op ep sy1 sy2)
  then have fds: "set (sy_fds sy') = set (sy_fds sy)"
    using pipe_if_fds(2)[OF fork_failed(2)] pipe_if_fds(2)[OF fork_failed(1)]
    by (auto simp: close_pipe_fds)
  with same_fds[OF fds assms(2) fork_failed(4,5)] show ?thesis by simp
next
  case (parent op ep sy1 sy2 p1 sy3)
  then show ?thesis using spawn_parent_fds[OF parent(1,2,5,6) assms(2)] by simp
qed

text \<open>A program whose standard output is captured.\<close>

definition sample_logged :: process where
  "sample_logged =
     (let c = default_program_config
      in (fst sample_fresh)
           \<lparr>p_config := c\<lparr>pc_stdout_log := \<lparr>lc_file = Some ''/l'', lc_file_maxbytes = 4, lc_file_backups = 2\<rparr>\<rparr>,
            p_stdout_log_writer := Some sample_writer\<rparr>)"

definition sample_spawned :: "process \<times> sys" where
  "sample_spawned = snd (spawn sample_logged sample_sys)"

lemma sample_spawned_fds:
  "p_stdout_stream (fst sample_spawned) = Some \<lparr>sd_fd = 3, sd_is_open = True\<rparr>"
  "p_stderr_stream (fst sample_spawned) = None"
  by (simp_all add: sample_spawned_def sample_logged_def sample_eval pipe2_def lowest_free_def sys_close_def
      make_stream_def close_stream_def start_stdout_read_def stream_open_now_def upt_rec)

theorem spawn_leaks_no_fds_witness: "set (sy_fds (snd sample_spawned)) = {0, 1, 2, 3}"
proof -
  have ok: "fds_ok sample_logged sample_sys" "other_fds sample_logged sample_sys = {0, 1, 2}"
    by (auto simp: fds_ok_def other_fds_def owned_fds_def open_fd_def sample_logged_def sample_eval)
  have oth: "other_fds (fst sample_spawned) (snd sample_spawned) = {0, 1, 2}"
    and own: "owned_fds (fst sample_spawned) \<subseteq> set (sy_fds (snd sample_spawned))"
    using spawn_leaks_no_fds[of sample_logged sample_sys "fst (spawn sample_logged sample_sys)"
        "fst sample_spawned" "snd sample_spawned"] ok
    by (simp_all add: sample_spawned_def fds_ok_def)
  have three: "owned_fds (fst sample_spawned) = {3}"
    by (simp add: owned_fds_def open_fd_def sample_spawned_fds)
  have "set (sy_fds (snd sample_spawned)) =
      other_fds (fst sample_spawned) (snd sample_spawned) \<union> owned_fds (fst sample_spawned)"
    using own unfolding other_fds_def by blast
  also have "\<dots> = {0, 1, 2, 3}" by (simp only: oth three Un_insert_left Un_empty_left)
  finally show ?thesis .
qed

section \<open>Signals and status text\<close>

text \<open>
  Auxiliary property: Stopping a process that has a pid puts it in STOPPING and sends exactly one signal, to
  that pid. The signal is the configured one for TERM, INT, QUIT, KILL and HUP; the other names
  a configuration may use are sent as TERM.
\<close>

theorem stop_sends_signal:
  assumes "stop p sy = (r, p', sy')" "p_pid p > 0" "p_state p \<noteq> STOPPED"
  shows "p_state p' = STOPPING \<and> p_pid p' = p_pid p \<and>
    (\<exists>sig. sy_kills sy' = sy_kills sy @ [(p_pid p, sig)] \<and>
      sig = (case map_of [(''INT'', 2), (''QUIT'', 3), (''KILL'', 9), (''HUP'', 1), (''TERM'', 15)]
               (pc_stopsignal (p_config p)) of Some n \<Rightarrow> n | None \<Rightarrow> 15))"
  using assms(1)
  by (cases rule: stop_cases) (use assms(2,3) in \<open>auto simp: core_def stop_signal_def\<close>)

theorem stop_sends_signal_witness:
  "sy_kills (snd (snd (stop (fst sample_started) (snd sample_started)))) = [(100, 15)]"
  using stop_sends_signal[of "fst sample_started" "snd sample_started"
      "fst (stop (fst sample_started) (snd sample_started))"
      "fst (snd (stop (fst sample_started) (snd sample_started)))"
      "snd (snd (stop (fst sample_started) (snd sample_started)))"]
  by (simp add: sample_started_fields default_program_config_def)

lemma pad2_show: "0 \<le> n \<Longrightarrow> n < 60 \<Longrightarrow> pad2 (show_int n) = [digit_char (nat n div 10), digit_char (nat n mod 10)]"
proof -
  assume n: "0 \<le> n" "n < 60"
  have z: "digit_char 0 = CHR ''0''" by code_simp
  show ?thesis
  proof (cases "n < 10")
    case True
    with n have "nat n < 10" by simp
    with n z show ?thesis by (simp add: pad2_def show_int_def show_nat.simps[of "nat n"])
  next
    case False
    with n have "\<not> nat n < 10" "nat n div 10 < 10" by simp_all
    with n show ?thesis
      by (simp add: pad2_def show_int_def show_nat.simps[of "nat n"] show_nat.simps[of "nat n div 10"])
  qed
qed

text \<open>
  Auxiliary property: The description of a running or starting process spells its pid and the seconds since it
  was started as hours, two-digit minutes and two-digit seconds, and the three numbers add up to
  the elapsed time.
\<close>

theorem get_info_description:
  assumes "get_info p sy = (info, sy')" "p_state p \<in> {RUNNING, STARTING}"
    and "up = (sy_steady sy (sy_reads sy + 3) - p_start_time p) div NS"
    and "p_start_time p \<le> sy_steady sy (sy_reads sy + 3)" "up < 2 ^ 31"
  shows "\<exists>h m s. pi_description info =
      ''pid '' @ show_int (p_pid p) @ '', uptime '' @ show_int h @ '':'' @
      [digit_char (nat m div 10), digit_char (nat m mod 10)] @ '':'' @
      [digit_char (nat s div 10), digit_char (nat s mod 10)] \<and>
    up = h * 3600 + m * 60 + s \<and> 0 \<le> h \<and> 0 \<le> m \<and> m < 60 \<and> 0 \<le> s \<and> s < 60"
proof -
  have up: "0 \<le> up" using assms(3,4) by (simp add: pos_imp_zdiv_nonneg_iff)
  have "to_int32 (to_seconds (sy_steady sy (sy_reads sy + 3) - p_start_time p)) = up"
    using assms(3-5) up by (simp add: to_seconds_def trunc_div_def to_int32_id)
  then have d: "pi_description info = describe (p_pid p) up"
    using assms(1,2) by (auto simp: get_info_def get_uptime_def system_now_def steady_now_def Let_def eval_nat_numeral)
  have m: "trunc_mod up 3600 = up mod 3600" "trunc_mod up 60 = up mod 60" "trunc_div up 3600 = up div 3600"
    using up by (simp_all add: trunc_mod_def trunc_div_def minus_mult_div_eq_mod)
  have t: "trunc_div (up mod 3600) 60 = up mod 3600 div 60" by (simp add: trunc_div_def)
  have sum: "up = up div 3600 * 3600 + up mod 3600 div 60 * 60 + up mod 60"
    by (simp add: mod_mod_cancel[symmetric, of 60 3600 up])
  show ?thesis
    by (rule exI[of _ "up div 3600"], rule exI[of _ "up mod 3600 div 60"], rule exI[of _ "up mod 60"])
      (use up sum in \<open>simp add: d describe_def m t pad2_show pos_imp_zdiv_nonneg_iff\<close>)
qed

theorem get_info_description_witness:
  "\<exists>h m s. pi_description (fst (get_info (fst sample_started) (snd sample_started))) =
      ''pid '' @ show_int 100 @ '', uptime '' @ show_int h @ '':'' @
      [digit_char (nat m div 10), digit_char (nat m mod 10)] @ '':'' @
      [digit_char (nat s div 10), digit_char (nat s mod 10)] \<and> 5 = h * 3600 + m * 60 + s"
  using get_info_description[of "fst sample_started" "snd sample_started"
      "fst (get_info (fst sample_started) (snd sample_started))"
      "snd (get_info (fst sample_started) (snd sample_started))" 5]
  by (simp add: sample_started_fields) blast

section \<open>Captured output\<close>

lemma lw_flush_ready:
  assumes "lw_inv w fs"
  shows "lw_flush w fs = (w\<lparr>lw_current_size := lw_current_size w + length (lw_pending w), lw_pending := []\<rparr>,
    fs_append (lw_logfile w) (lw_pending w) fs)"
proof -
  have "lw_is_open w" "lw_good w" "lw_buffer w = []" "fs_writable fs" using assms by (auto simp: lw_inv_def lw_ready_def)
  then show ?thesis
    by (cases "lw_pending w = []") (auto simp: lw_flush_def stream_write_def stream_flush_def fs_writableD)
qed

definition feed_stdout :: "string list \<Rightarrow> process \<times> sys \<Rightarrow> process \<times> sys" where
  "feed_stdout ds s = fold (\<lambda>d (p, sy). handle_stdout_read NoError d p sy) ds s"

lemma feed_stdout_writer:
  assumes "p_stdout_log_writer p = Some w" "fold sink_put ds (w, sy_fs sy) = (w', fs')"
  shows "p_stdout_log_writer (fst (feed_stdout ds (p, sy))) = Some w' \<and>
    sy_fs (snd (feed_stdout ds (p, sy))) = fs' \<and>
    p_stdout_stream (fst (feed_stdout ds (p, sy))) = p_stdout_stream p"
  using assms
proof (induction ds arbitrary: p w sy)
  case Nil
  then show ?case by (simp add: feed_stdout_def)
next
  case (Cons d ds)
  obtain w1 fs1 where s1: "sink_put d (w, sy_fs sy) = (w1, fs1)" by fastforce
  obtain p1 sy1 where h: "handle_stdout_read NoError d p sy = (p1, sy1)" by fastforce
  have "p_stdout_log_writer p1 = Some w1" "sy_fs sy1 = fs1" "p_stdout_stream p1 = p_stdout_stream p"
    using h s1 Cons.prems(1)
    by (auto simp: handle_stdout_read_def writer_write_def sink_put_def lw_write_def start_stdout_read_def
        case_prod_unfold Let_def split: if_splits)
  with Cons.IH[of p1 w1 sy1] Cons.prems(2) s1 show ?case by (simp add: feed_stdout_def h)
qed

text \<open>
  C13: When the chunks read from a program's standard output have been handled and its pipe
  reaches end of file, everything captured has been written to the log files: the rotated files
  and the current one together are a tail of what the log held before followed by all the output
  in order, nothing is left in the line buffer, and the stream is closed. For chunks of at most
  4 KB, as the read buffer has, and a file system that lets the log be opened and written; the renames and
  removals of a rotation may be refused.
\<close>

theorem captured_output_reaches_log:
  assumes "p_stdout_log_writer p = Some w" "lw_inv w (sy_fs sy)" "list_all (\<lambda>d. length d \<le> 4096) ds"
    and "feed_stdout ds (p, sy) = (p1, sy1)" "handle_stdout_read Eof [] p1 sy1 = (p', sy')"
  shows "\<not> stream_open_now (p_stdout_stream p') \<and>
    (\<exists>w'. p_stdout_log_writer p' = Some w' \<and> lw_pending w' = [] \<and>
       suffix (history (lw_logfile w') (kept (lw_backups w')) (sy_fs sy')) (log_view w (sy_fs sy) @ concat ds))"
proof -
  obtain w1 fs1 where f: "fold sink_put ds (w, sy_fs sy) = (w1, fs1)" by fastforce
  have "list_all (\<lambda>d. length d < MAX_PENDING_BUFFER) ds"
    using assms(3) by (auto simp: list_all_iff MAX_PENDING_BUFFER_def)
  from sink.puts[of "(w, sy_fs sy)", OF _ this] assms(2) f
  have inv1: "lw_inv w1 fs1" and suf: "suffix (log_view w1 fs1) (log_view w (sy_fs sy) @ concat ds)" by auto
  have p1: "p_stdout_log_writer p1 = Some w1" "sy_fs sy1 = fs1"
    using feed_stdout_writer[OF assms(1) f] assms(4) by auto
  obtain s sy2 where c: "close_stream (p_stdout_stream p1) sy1 = (s, sy2)" by fastforce
  have s: "\<not> stream_open_now s" "sy_fs sy2 = fs1"
    using c p1(2) by (auto simp: close_stream_def stream_open_now_def sys_close_def split: option.splits if_splits)
  let ?w = "w1\<lparr>lw_current_size := lw_current_size w1 + length (lw_pending w1), lw_pending := []\<rparr>"
  have "p_stdout_stream p' = s" "p_stdout_log_writer p' = Some ?w"
    "sy_fs sy' = fs_append (lw_logfile w1) (lw_pending w1) fs1"
    using assms(5) c s(2) p1(1) lw_flush_ready[OF inv1]
    by (auto simp: handle_stdout_read_def writer_flush_def Let_def)
  then show ?thesis
    using s(1) suf by (auto simp: history_append log_view_def intro!: exI[of _ ?w])
qed

theorem captured_output_reaches_log_witness:
  "\<exists>w'. p_stdout_log_writer (fst (case feed_stdout [''ab''] (sample_logged, sample_sys) of
      (p, sy) \<Rightarrow> handle_stdout_read Eof [] p sy)) = Some w' \<and> lw_pending w' = []"
proof -
  obtain p1 sy1 where a: "feed_stdout [''ab''] (sample_logged, sample_sys) = (p1, sy1)" by fastforce
  obtain p2 sy2 where b: "handle_stdout_read Eof [] p1 sy1 = (p2, sy2)" by fastforce
  have "p_stdout_log_writer sample_logged = Some sample_writer" "lw_inv sample_writer (sy_fs sample_sys)"
    "list_all (\<lambda>d. length d \<le> 4096) [''ab'']"
    using sample_ready by (simp_all add: sample_logged_def sample_sys_def Let_def)
  from captured_output_reaches_log[OF this a b] show ?thesis by (auto simp: a b)
qed

end
