(* ===== verification/Secure.thy ===== *)
theory Secure
  imports Posix
begin

text \<open>
  \<^verbatim>\<open>supervisor-lib/src/util/secure.cpp\<close>: the checks that guard configuration files, log
  and pid file paths, commands, signal names, environment variables, descriptors inherited by
  children, the control socket and the privilege drop. What the operating system answers
  (canonical names, file metadata, the user id) is a record; each check either passes or throws.
\<close>

section \<open>What the system answers\<close>

record os_env =
  oe_canonical :: "string \<Rightarrow> string option"
  oe_weakly_canonical :: "string \<Rightarrow> string res"
  oe_current_path :: "string res"
  oe_temp_directory :: "string res"
  oe_exists :: "string \<Rightarrow> bool res"
  oe_stat :: "string \<Rightarrow> file_stat option"
  oe_lstat :: "string \<Rightarrow> file_stat option"
  oe_getuid :: nat
  oe_chmod_ok :: "string \<Rightarrow> bool"

section \<open>Paths\<close>

definition validate_canonicalize_path :: "os_env \<Rightarrow> string \<Rightarrow> string \<Rightarrow> string res" where
  "validate_canonicalize_path oe path allowed_prefix =
     bind_res
       (case oe_canonical oe path of
          Some c \<Rightarrow> Inr c
        | None \<Rightarrow>
            bind_res (if parent_path path = [] then oe_current_path oe else Inr (parent_path path))
              (\<lambda>parent.
                 case oe_canonical oe parent of
                   Some c \<Rightarrow> Inr (path_append c (filename path))
                 | None \<Rightarrow> Inl (SecurityError (''Cannot resolve path: '' @ path))))
       (\<lambda>canonical.
          if find_str allowed_prefix canonical \<noteq> Some 0
          then Inl (SecurityError (''Path escapes allowed directory: '' @ path @ '' (resolved to: '' @
                 canonical @ '', allowed prefix: '' @ allowed_prefix @ '')''))
          else Inr canonical)"

definition validate_config_file_security :: "os_env \<Rightarrow> string \<Rightarrow> unit res" where
  "validate_config_file_security oe config_file =
     bind_res (oe_exists oe config_file) (\<lambda>ex.
      if \<not> ex
      then Inl (SecurityError (''Config file does not exist: '' @ config_file))
      else case oe_lstat oe config_file of
             None \<Rightarrow> Inl (SecurityError (''Cannot stat config file: '' @ config_file))
           | Some st \<Rightarrow>
               if st_kind st \<noteq> RegularFile
               then Inl (SecurityError (''Config file must be a regular file: '' @ config_file))
               else if st_uid st \<noteq> oe_getuid oe
               then Inl (SecurityError (''Config file must be owned by root (UID 0): '' @ config_file))
               else if world_writable st
               then Inl (SecurityError (''Config file must not be world-writable: '' @ config_file))
               else Inr ())"

fun join_dirs :: "string \<Rightarrow> string list \<Rightarrow> string" where
  "join_dirs acc [] = acc"
| "join_dirs acc (d # ds) = join_dirs ((if acc \<noteq> [] then acc @ '', '' else acc) @ d) ds"

fun first_allowed :: "os_env \<Rightarrow> string \<Rightarrow> string list \<Rightarrow> string option res" where
  "first_allowed oe path [] = Inr None"
| "first_allowed oe path (d # ds) =
     (case validate_canonicalize_path oe path d of
        Inr c \<Rightarrow> Inr (Some c)
      | Inl (SecurityError _) \<Rightarrow> first_allowed oe path ds
      | Inl e \<Rightarrow> Inl e)"

definition validate_path_in_allowed_dirs :: "os_env \<Rightarrow> string \<Rightarrow> string list \<Rightarrow> string \<Rightarrow> string res" where
  "validate_path_in_allowed_dirs oe path allowed_dirs description =
     bind_res (first_allowed oe path allowed_dirs)
       (\<lambda>found. case found of
          Some c \<Rightarrow> Inr c
        | None \<Rightarrow> Inl (SecurityError (description @ '' must be under '' @ join_dirs [] allowed_dirs @
                     '' - got: '' @ path)))"

text \<open>The tables of allowed directories; resolving a name, or finding the temporary directory, may throw.\<close>

fun canonical_dirs :: "os_env \<Rightarrow> string res list \<Rightarrow> string list res" where
  "canonical_dirs oe [] = Inr []"
| "canonical_dirs oe (d # ds) =
     bind_res d (\<lambda>d. bind_res (oe_weakly_canonical oe d) (\<lambda>c. bind_res (canonical_dirs oe ds) (\<lambda>cs. Inr (c # cs))))"

definition log_dirs :: "os_env \<Rightarrow> string list res" where
  "log_dirs oe = canonical_dirs oe [Inr ''/var/log'', Inr ''/tmp'', oe_temp_directory oe]"

definition validate_log_path :: "os_env \<Rightarrow> string \<Rightarrow> string res" where
  "validate_log_path oe log_path = 
     bind_res (log_dirs oe) (\<lambda>allowed. validate_path_in_allowed_dirs oe log_path allowed ''Log file'')"

definition pidfile_dirs :: "os_env \<Rightarrow> string list res" where
  "pidfile_dirs oe = canonical_dirs oe [Inr ''/run'', Inr ''/var/run'', Inr ''/tmp'', oe_temp_directory oe]"

definition validate_pidfile_path :: "os_env \<Rightarrow> string \<Rightarrow> string res" where
  "validate_pidfile_path oe pidfile_path =
     (if \<not> is_absolute pidfile_path
      then Inl (SecurityError (''Pidfile path must be absolute: '' @ pidfile_path))
      else bind_res (pidfile_dirs oe) (\<lambda>allowed. validate_path_in_allowed_dirs oe pidfile_path allowed ''Pidfile''))"

section \<open>Commands and signals\<close>

definition command_path :: "string \<Rightarrow> string" where
  "command_path command = takeWhile (\<lambda>c. c \<noteq> CHR '' '') command"

definition validate_command_path :: "os_env \<Rightarrow> string \<Rightarrow> unit res" where
  "validate_command_path oe command =
     (let cmd_path = command_path command in
      if cmd_path = [] \<or> hd cmd_path \<noteq> SLASH
      then Inl (SecurityError (''Command must be an absolute path: '' @ command))
      else case oe_stat oe (c_str cmd_path) of
             None \<Rightarrow> Inl (SecurityError (''Command not found: '' @ cmd_path))
           | Some st \<Rightarrow>
               if st_kind st \<noteq> RegularFile \<and> st_kind st \<noteq> Symlink
               then Inl (SecurityError (''Command must be a regular file: '' @ cmd_path))
               else if \<not> any_exec_bit st
               then Inl (SecurityError (''Command is not executable: '' @ cmd_path))
               else Inr ())"

definition valid_signals :: "string list" where
  "valid_signals = [''TERM'', ''HUP'', ''INT'', ''QUIT'', ''KILL'', ''USR1'', ''USR2'', ''ABRT'', ''ALRM'', ''CONT'', ''STOP'']"

definition validate_signal :: "string \<Rightarrow> unit res" where
  "validate_signal signal_name =
     (if signal_name \<in> set valid_signals then Inr ()
      else Inl (InvalidArgument (''Invalid signal name: '' @ signal_name)))"

section \<open>Environment variables\<close>

definition valid_key :: "string \<Rightarrow> bool" where
  "valid_key key \<longleftrightarrow> key \<noteq> [] \<and> list_all (\<lambda>c. isalnum c \<or> c = CHR ''_'') key"

fun sanitize_loop :: "string smap \<Rightarrow> string smap \<Rightarrow> string smap" where
  "sanitize_loop [] sanitized = sanitized"
| "sanitize_loop ((key, value) # env) sanitized =
     (if \<not> valid_key key then sanitize_loop env sanitized
      else if NUL \<in> set value then sanitize_loop env sanitized
      else sanitize_loop env (map_put key value sanitized))"

definition sanitize_environment :: "string smap \<Rightarrow> string smap" where
  "sanitize_environment env = sanitize_loop env []"

section \<open>Descriptors, the socket and privileges\<close>

text \<open>
  The hard limit on open files: \<open>getrlimit\<close> may fail (\<open>None\<close>), and the limit may be
  unlimited (\<open>Some None\<close>); the cast to \<open>int\<close> keeps 32 bits.
\<close>

definition max_fd :: "nat option option \<Rightarrow> int option" where
  "max_fd rl =
     (case rl of
        None \<Rightarrow> None
      | Some None \<Rightarrow> Some 1024
      | Some (Some m) \<Rightarrow> Some (to_int32 (int m)))"

definition close_inherited_fds :: "nat option option \<Rightarrow> (nat \<Rightarrow> 'f option) \<Rightarrow> (nat \<Rightarrow> 'f option)" where
  "close_inherited_fds rl fds =
     (case max_fd rl of
        None \<Rightarrow> fds
      | Some m \<Rightarrow> fold (\<lambda>fd t. t(fd := None)) [3..<nat m] fds)"

definition validate_socket_directory :: "os_env \<Rightarrow> string \<Rightarrow> unit res" where
  "validate_socket_directory oe socket_path =
     (let dir = parent_path socket_path in
      case oe_stat oe dir of
        None \<Rightarrow> Inl (SecurityError (''Socket directory does not exist: '' @ dir))
      | Some st \<Rightarrow>
          if st_kind st \<noteq> Directory
          then Inl (SecurityError (''Socket path parent is not a directory: '' @ dir))
          else if world_writable st
          then Inl (SecurityError (''Socket directory must not be world-writable: '' @ dir))
          else Inr ())"

definition set_socket_permissions :: "os_env \<Rightarrow> string \<Rightarrow> unit res" where
  "set_socket_permissions oe socket_path =
     (if \<not> oe_chmod_ok oe socket_path
      then Inl (SecurityError (''Failed to set socket permissions: '' @ socket_path))
      else Inr ())"

record credentials =
  cr_uid :: nat
  cr_euid :: nat
  cr_gid :: nat
  cr_egid :: nat

definition verify_privilege_drop :: "credentials \<Rightarrow> nat \<Rightarrow> nat \<Rightarrow> unit res" where
  "verify_privilege_drop cr expected_uid expected_gid =
     (if cr_uid cr \<noteq> expected_uid \<or> cr_euid cr \<noteq> expected_uid
      then Inl (SecurityError (''Privilege drop failed: UID mismatch (expected '' @ show_nat expected_uid @
             '', got real='' @ show_nat (cr_uid cr) @ '', effective='' @ show_nat (cr_euid cr) @ '')''))
      else if cr_gid cr \<noteq> expected_gid \<or> cr_egid cr \<noteq> expected_gid
      then Inl (SecurityError (''Privilege drop failed: GID mismatch (expected '' @ show_nat expected_gid @
             '', got real='' @ show_nat (cr_gid cr) @ '', effective='' @ show_nat (cr_egid cr) @ '')''))
      else Inr ())"

section \<open>What passes the checks\<close>

text \<open>The name a path resolves to: its own canonical name, or its parent's followed by the file name.\<close>

definition resolves_to :: "os_env \<Rightarrow> string \<Rightarrow> string option" where
  "resolves_to oe path =
     (case oe_canonical oe path of
        Some c \<Rightarrow> Some c
      | None \<Rightarrow>
          (case if parent_path path = [] then oe_current_path oe else Inr (parent_path path) of
             Inl e \<Rightarrow> None
           | Inr parent \<Rightarrow> map_option (\<lambda>c. path_append c (filename path)) (oe_canonical oe parent)))"

lemma find_str_zero [simp]: "find_str p s = Some 0 \<longleftrightarrow> prefix p s"
  by (auto simp: find_str_Some_iff)

lemma validate_canonicalize_path_iff:
  "validate_canonicalize_path oe path d = Inr c \<longleftrightarrow> resolves_to oe path = Some c \<and> prefix d c"
  by (auto simp: validate_canonicalize_path_def resolves_to_def bind_res_def simp del: bind_res_eq_Inr
      split: option.splits if_splits sum.splits)

lemma validate_canonicalize_path_throws:
  "validate_canonicalize_path oe path d = Inl e \<Longrightarrow> (\<exists>m. e = SecurityError m) \<or> resolves_to oe path = None"
  by (auto simp: validate_canonicalize_path_def resolves_to_def split: option.splits if_splits sum.splits)

lemma first_allowed_iff:
  "first_allowed oe path ds = Inr (Some c) \<longleftrightarrow> resolves_to oe path = Some c \<and> (\<exists>d\<in>set ds. prefix d c)"
proof (induction ds)
  case (Cons d ds)
  show ?case
  proof (cases "validate_canonicalize_path oe path d")
    case (Inr c')
    then show ?thesis using validate_canonicalize_path_iff[of oe path d c'] by auto
  next
    case (Inl e)
    then have "\<not> (resolves_to oe path = Some c \<and> prefix d c)"
      using validate_canonicalize_path_iff[of oe path d c] by auto
    with Inl Cons.IH validate_canonicalize_path_throws[OF Inl] show ?thesis by (cases e) auto
  qed
qed simp

text \<open>
  Auxiliary property: A log path is accepted exactly when the name it resolves to, with symbolic links and
  \<open>..\<close> removed, begins with one of the allowed directories' canonical names, and the value
  returned, which is the one used from then on, is that resolved name.
\<close>

theorem validate_log_path_characterised:
  "validate_log_path oe path = Inr c \<longleftrightarrow>
     resolves_to oe path = Some c \<and> (\<exists>ds. log_dirs oe = Inr ds \<and> list_ex (\<lambda>d. prefix d c) ds)"
  by (auto simp: validate_log_path_def validate_path_in_allowed_dirs_def first_allowed_iff list_ex_iff
      split: option.splits)

text \<open>
  The prefix is compared as text, so a sibling whose name merely begins with an allowed
  directory's name passes too.
\<close>

definition plain_env :: os_env where
  "plain_env =
     \<lparr>oe_canonical = Some, oe_weakly_canonical = Inr, oe_current_path = Inr ''/'',
      oe_temp_directory = Inr ''/tmp'', oe_exists = (\<lambda>_. Inr True),
      oe_stat = (\<lambda>_. Some \<lparr>st_kind = RegularFile, st_uid = 0, st_mode = 493\<rparr>),
      oe_lstat = (\<lambda>_. Some \<lparr>st_kind = RegularFile, st_uid = 0, st_mode = 420\<rparr>),
      oe_getuid = 0, oe_chmod_ok = (\<lambda>_. True)\<rparr>"

lemma log_path_in_sibling_accepted:
  "validate_log_path plain_env ''/tmp-of-somebody/x'' = Inr ''/tmp-of-somebody/x''"
  unfolding validate_log_path_characterised by (simp add: resolves_to_def plain_env_def log_dirs_def)

text \<open>
  Auxiliary property: A command passes exactly when its text up to the first space is an absolute path of an
  existing regular file with an execute bit set, and a configuration file exactly when it
  exists, is itself a regular file (not a symbolic link), belongs to the daemon's user and is
  not writable by everyone.
\<close>

theorem command_and_config_checks:
  "(validate_command_path oe cmd = Inr ()) =
     (\<exists>rest st. command_path cmd = SLASH # rest \<and> oe_stat oe (c_str (command_path cmd)) = Some st \<and>
        st_kind st \<in> {RegularFile, Symlink} \<and> any_exec_bit st) \<and>
   (validate_config_file_security oe f = Inr ()) =
     (\<exists>st. oe_exists oe f = Inr True \<and> oe_lstat oe f = Some st \<and> st_kind st = RegularFile \<and>
        st_uid st = oe_getuid oe \<and> \<not> world_writable st)"
proof
  show "(validate_command_path oe cmd = Inr ()) =
     (\<exists>rest st. command_path cmd = SLASH # rest \<and> oe_stat oe (c_str (command_path cmd)) = Some st \<and>
        st_kind st \<in> {RegularFile, Symlink} \<and> any_exec_bit st)"
    by (cases "command_path cmd") (auto simp: validate_command_path_def Let_def split: option.splits)
  show "(validate_config_file_security oe f = Inr ()) =
     (\<exists>st. oe_exists oe f = Inr True \<and> oe_lstat oe f = Some st \<and> st_kind st = RegularFile \<and>
        st_uid st = oe_getuid oe \<and> \<not> world_writable st)"
    by (auto simp: validate_config_file_security_def split: option.splits)
qed

definition clean_entry :: "string \<times> string \<Rightarrow> bool" where
  "clean_entry kv \<longleftrightarrow> valid_key (fst kv) \<and> NUL \<notin> set (snd kv)"

lemma map_put_snoc: "\<forall>x\<in>fst ` set m. x < k \<Longrightarrow> map_put k v m = m @ [(k, v)]"
  by (induction k v m rule: map_put.induct) auto

lemma sanitize_loop_filter:
  "map_wf (acc @ env) \<Longrightarrow> sanitize_loop env acc = acc @ filter clean_entry env"
proof (induction env arbitrary: acc)
  case (Cons kv env)
  obtain k v where kv: "kv = (k, v)" by fastforce
  have wf: "map_wf (acc @ env)" "map_wf ((acc @ [kv]) @ env)" and lt: "\<forall>x\<in>fst ` set acc. x < k"
    using Cons.prems by (auto simp: map_wf_def sorted_wrt_append kv)
  show ?case
    using Cons.IH[OF wf(1)] Cons.IH[OF wf(2)] lt
    by (auto simp: kv clean_entry_def map_put_snoc)
qed simp

text \<open>
  Auxiliary property: Sanitising an environment keeps exactly the entries whose name is a non-empty string of
  letters, digits and underscores and whose value has no null byte, in the same order and with
  the same values, and doing it twice changes nothing more.
\<close>

theorem sanitize_environment_filter:
  assumes "map_wf env"
  shows "sanitize_environment env = filter clean_entry env \<and>
    sanitize_environment (sanitize_environment env) = sanitize_environment env"
proof -
  have "map_wf (filter clean_entry env)"
    using assms by (simp add: map_wf_def sorted_wrt_map sorted_wrt_filter)
  with assms show ?thesis by (simp add: sanitize_environment_def sanitize_loop_filter)
qed

theorem sanitize_environment_filter_witness:
  "sanitize_environment [(''A-B'', ''x''), (''A_1'', ''y'')] = [(''A_1'', ''y'')]"
proof -
  have wf: "map_wf [(''A-B'', ''x''), (''A_1'', ''y'')]" by code_simp
  have "filter clean_entry [(''A-B'', ''x''), (''A_1'', ''y'')] = [(''A_1'', ''y'')]" by code_simp
  with sanitize_environment_filter[OF wf] show ?thesis by simp
qed

section \<open>Closing descriptors\<close>

lemma fold_clear: "fold (\<lambda>fd t. t(fd := None)) xs fds = (\<lambda>n. if n \<in> set xs then None else fds n)"
  by (induction xs arbitrary: fds) (auto simp: fun_eq_iff)

lemma close_inherited_fds_keeps_stdio:
  "n < 3 \<Longrightarrow> close_inherited_fds rl fds n = fds n"
  by (auto simp: close_inherited_fds_def fold_clear split: option.splits)

lemma close_inherited_fds_closes:
  "max_fd rl = Some m \<Longrightarrow> 3 \<le> n \<Longrightarrow> int n < m \<Longrightarrow> close_inherited_fds rl fds n = None"
  by (auto simp: close_inherited_fds_def fold_clear)

lemma verify_privilege_drop_iff:
  "verify_privilege_drop cr u g = Inr () \<longleftrightarrow> cr_uid cr = u \<and> cr_euid cr = u \<and> cr_gid cr = g \<and> cr_egid cr = g"
  by (auto simp: verify_privilege_drop_def)

end
