(* ===== verification/Process_Child.thy ===== *)
theory Process_Child
  imports Process Secure
begin

text \<open>
  \<^verbatim>\<open>supervisor-lib/src/process/process.cpp\<close>, the child's side: what happens between
  \<open>fork\<close> and \<open>exec\<close>. Standard output and error are redirected to the pipes, signals and
  descriptors are reset, directory, environment, umask and user are set up, and the command line
  is split into arguments and executed. The child's state is a record; what the kernel grants or
  refuses is another.
\<close>

section \<open>State\<close>

datatype fd_target = ParentFile nat | StdoutPipe | StderrPipe

record child =
  ch_fds :: "nat \<Rightarrow> fd_target option"
  ch_default_signals :: "int list"
  ch_cwd :: string
  ch_env :: "string smap"
  ch_umask :: nat
  ch_groups :: "nat list"
  ch_cred :: credentials

record child_kernel =
  ck_rlimit :: "nat option option"
  ck_chdir_ok :: "string \<Rightarrow> bool"
  ck_getpwnam :: "string \<Rightarrow> (nat \<times> nat) option"
  ck_initgroups :: "string \<Rightarrow> nat \<Rightarrow> nat list option"
  ck_setgid :: "nat \<Rightarrow> credentials \<Rightarrow> credentials option"
  ck_setuid :: "nat \<Rightarrow> credentials \<Rightarrow> credentials option"
  ck_exec_ok :: "string \<Rightarrow> bool"

text \<open>A child ends in \<open>_exit\<close> or becomes another program.\<close>

datatype child_result = Exit nat child | Exec string "string list" child

section \<open>The command line\<close>

fun parse_loop :: "string \<Rightarrow> string list \<Rightarrow> string \<Rightarrow> bool \<Rightarrow> bool \<Rightarrow> string list" where
  "parse_loop [] args current in_quotes escape_next =
     (if current \<noteq> [] then args @ [current] else args)"
| "parse_loop (c # cs) args current in_quotes escape_next =
     (if escape_next then parse_loop cs args (current @ [c]) in_quotes False
      else if c = BACKSLASH then parse_loop cs args current in_quotes True
      else if c = DQUOTE then parse_loop cs args current (\<not> in_quotes) escape_next
      else if c = CHR '' '' \<and> \<not> in_quotes
      then if current \<noteq> [] then parse_loop cs (args @ [current]) [] in_quotes escape_next
           else parse_loop cs args current in_quotes escape_next
      else parse_loop cs args (current @ [c]) in_quotes escape_next)"

definition parse_command :: "string \<Rightarrow> string list" where
  "parse_command command = parse_loop command [] [] False False"

section \<open>Setup\<close>

definition setenv :: "string \<Rightarrow> string \<Rightarrow> string smap \<Rightarrow> string smap" where
  "setenv key value env =
     (let k = c_str key in if k = [] \<or> CHR ''='' \<in> set k then env else map_put k (c_str value) env)"

definition setup_environment :: "program_config \<Rightarrow> child \<Rightarrow> child" where
  "setup_environment config ch =
     (let env = setenv ''SUPERVISOR_ENABLED'' ''1'' (ch_env ch);
          env = setenv ''SUPERVISOR_PROCESS_NAME'' (pc_name config) env;
          env = setenv ''SUPERVISOR_GROUP_NAME'' (pc_name config) env
      in ch\<lparr>ch_env := fold (\<lambda>(key, value). setenv key value) (pc_environment config) env\<rparr>)"

definition setup_working_directory :: "child_kernel \<Rightarrow> program_config \<Rightarrow> child \<Rightarrow> bool \<times> child" where
  "setup_working_directory k config ch =
     (case pc_directory config of
        None \<Rightarrow> (True, ch)
      | Some d \<Rightarrow> if \<not> ck_chdir_ok k (c_str d) then (False, ch) else (True, ch\<lparr>ch_cwd := c_str d\<rparr>))"

definition switch_user :: "child_kernel \<Rightarrow> program_config \<Rightarrow> child \<Rightarrow> bool \<times> child" where
  "switch_user k config ch =
     (if pc_user config = [] \<or> pc_user config = ''root'' then (True, ch)
      else if cr_uid (ch_cred ch) \<noteq> 0 then (True, ch)
      else case ck_getpwnam k (c_str (pc_user config)) of
             None \<Rightarrow> (False, ch)
           | Some (pw_uid, pw_gid) \<Rightarrow>
               (case ck_initgroups k (c_str (pc_user config)) pw_gid of
                  None \<Rightarrow> (False, ch)
                | Some groups \<Rightarrow>
                    let ch = ch\<lparr>ch_groups := groups\<rparr> in
                    (case ck_setgid k pw_gid (ch_cred ch) of
                       None \<Rightarrow> (False, ch)
                     | Some cr \<Rightarrow>
                         let ch = ch\<lparr>ch_cred := cr\<rparr> in
                         (case ck_setuid k pw_uid (ch_cred ch) of
                            None \<Rightarrow> (False, ch)
                          | Some cr \<Rightarrow>
                              let ch = ch\<lparr>ch_cred := cr\<rparr> in
                              (case verify_privilege_drop (ch_cred ch) pw_uid pw_gid of
                                 Inl e \<Rightarrow> (False, ch)
                               | Inr _ \<Rightarrow> (True, ch))))))"

text \<open>
  \<open>execvp\<close> of the first argument. With no arguments it is called with a null pointer and
  fails. When \<open>setup_child_process_\<close> returns because \<open>exec\<close> failed, its caller exits
  with 127; that exit is included here.
\<close>

definition setup_child_process :: "child_kernel \<Rightarrow> program_config \<Rightarrow> child \<Rightarrow> child_result" where
  "setup_child_process k config ch =
     (let ch = ch\<lparr>ch_default_signals := ch_default_signals ch @ [SIGPIPE, SIGCHLD, SIGTERM, SIGINT]\<rparr>;
          ch = ch\<lparr>ch_fds := close_inherited_fds (ck_rlimit k) (ch_fds ch)\<rparr>;
          (ok, ch) = setup_working_directory k config ch
      in if \<not> ok then Exit 126 ch
         else let ch = setup_environment config ch;
                  ch = (case pc_umask config of Some m \<Rightarrow> ch\<lparr>ch_umask := m mod 512\<rparr> | None \<Rightarrow> ch);
                  (ok, ch) = switch_user k config ch
              in if \<not> ok then Exit 125 ch
                 else case map c_str (parse_command (pc_command config)) of
                        [] \<Rightarrow> Exit 127 ch
                      | file # rest \<Rightarrow>
                          if ck_exec_ok k file then Exec file (file # rest) ch else Exit 127 ch)"

section \<open>The child branch of spawn\<close>

definition dup2 :: "nat \<Rightarrow> nat \<Rightarrow> (nat \<Rightarrow> fd_target option) \<Rightarrow> (nat \<Rightarrow> fd_target option)" where
  "dup2 old new fds = (case fds old of None \<Rightarrow> fds | Some t \<Rightarrow> fds(new \<mapsto> t))"

definition redirect_child ::
  "program_config \<Rightarrow> (nat \<times> nat) option \<Rightarrow> (nat \<times> nat) option \<Rightarrow>
   (nat \<Rightarrow> fd_target option) \<Rightarrow> (nat \<Rightarrow> fd_target option)" where
  "redirect_child config stdout_pipe stderr_pipe fds =
     (let fds = (case stdout_pipe of Some (r, w) \<Rightarrow> fds(r := None) | None \<Rightarrow> fds);
          fds = (case stderr_pipe of Some (r, w) \<Rightarrow> fds(r := None) | None \<Rightarrow> fds);
          fds = (case stdout_pipe of Some (r, w) \<Rightarrow> (dup2 w 1 fds)(w := None) | None \<Rightarrow> fds)
      in if pc_redirect_stderr config \<and> stdout_pipe \<noteq> None then dup2 1 2 fds
         else (case stderr_pipe of Some (r, w) \<Rightarrow> (dup2 w 2 fds)(w := None) | None \<Rightarrow> fds))"

definition run_child ::
  "child_kernel \<Rightarrow> program_config \<Rightarrow> (nat \<times> nat) option \<Rightarrow> (nat \<times> nat) option \<Rightarrow> child \<Rightarrow> child_result" where
  "run_child k config stdout_pipe stderr_pipe ch =
     setup_child_process k config
       (ch\<lparr>ch_fds := redirect_child config stdout_pipe stderr_pipe (ch_fds ch)\<rparr>)"

section \<open>Splitting and quoting\<close>

text \<open>Quoting an argument so that it comes back as it was.\<close>

definition quote_char :: "char \<Rightarrow> string" where
  "quote_char c = (if c = BACKSLASH \<or> c = DQUOTE then [BACKSLASH, c] else [c])"

definition quote_arg :: "string \<Rightarrow> string" where
  "quote_arg a = DQUOTE # concat (map quote_char a) @ [DQUOTE]"

fun join_args :: "string list \<Rightarrow> string" where
  "join_args [] = []"
| "join_args [a] = quote_arg a"
| "join_args (a # as) = quote_arg a @ CHR '' '' # join_args as"

lemma parse_quoted_chars:
  "parse_loop (concat (map quote_char a) @ cs) args cur True False = parse_loop cs args (cur @ a) True False"
  by (induction a arbitrary: cur) (auto simp: quote_char_def)

lemma parse_quoted_arg:
  "parse_loop (quote_arg a @ cs) args cur False False = parse_loop cs args (cur @ a) False False"
  by (simp add: quote_arg_def parse_quoted_chars)

lemma parse_join_args:
  "parse_loop (join_args as) args [] False False = args @ filter (\<lambda>a. a \<noteq> []) as"
proof (induction "as" arbitrary: args rule: join_args.induct)
  case (2 a)
  then show ?case using parse_quoted_arg[of a "[]" args "[]"] by simp
next
  case (3 a v va)
  then show ?case by (simp add: parse_quoted_arg)
qed simp

text \<open>
  C35: A command line written with every argument in double quotes, backslashes and double
  quotes escaped and one space between arguments, is split into exactly its non-empty arguments,
  whatever characters they contain. An argument that is empty between its quotes is dropped, so that a program
  that is to be given an empty argument gets one argument less.
\<close>

theorem parse_command_roundtrip: "parse_command (join_args as) = filter (\<lambda>a. a \<noteq> []) as"
  using parse_join_args[of "as" "[]"] by (simp add: parse_command_def)

text \<open>Plain text up to the first space is the first argument.\<close>

lemma parse_loop_args: "\<exists>rest. parse_loop cs args cur q e = args @ rest"
proof (induction cs arbitrary: args cur q e)
  case (Cons c cs)
  have "\<exists>rest. parse_loop cs (args @ [x]) cur' q' e' = args @ rest" for x cur' q' e'
    using Cons.IH[of "args @ [x]" cur' q' e'] by auto
  with Cons.IH show ?case by simp
qed simp

lemma parse_plain_first:
  assumes "BACKSLASH \<notin> set w" "DQUOTE \<notin> set w" "CHR '' '' \<notin> set w"
  shows "parse_loop (w @ cs) args cur False False = parse_loop cs args (cur @ w) False False"
  using assms by (induction w arbitrary: cur) auto

lemma command_path_split: "\<exists>cs. command = command_path command @ cs \<and> (cs = [] \<or> hd cs = CHR '' '')"
proof (intro exI conjI)
  show "command = command_path command @ dropWhile (\<lambda>c. c \<noteq> CHR '' '') command"
    by (simp add: command_path_def)
  show "dropWhile (\<lambda>c. c \<noteq> CHR '' '') command = [] \<or> hd (dropWhile (\<lambda>c. c \<noteq> CHR '' '') command) = CHR '' ''"
    using hd_dropWhile[of "\<lambda>c. c \<noteq> CHR '' ''" command] by blast
qed

text \<open>
  Auxiliary property: The file that was checked is the file that runs: for a command that passed the security
  check and whose text up to the first space has no quote and no backslash, the first argument,
  which is executed, is the checked absolute path.
\<close>

theorem checked_command_is_executed:
  assumes "validate_command_path oe command = Inr ()"
    and "BACKSLASH \<notin> set (command_path command)" "DQUOTE \<notin> set (command_path command)"
  shows "\<exists>rest st. parse_command command = command_path command # rest \<and>
    is_absolute (command_path command) \<and>
    oe_stat oe (c_str (command_path command)) = Some st \<and> any_exec_bit st"
proof -
  let ?w = "command_path command"
  have w: "?w \<noteq> []" "is_absolute ?w" "\<exists>st. oe_stat oe (c_str ?w) = Some st \<and> any_exec_bit st"
    using assms(1) by (auto simp: validate_command_path_def Let_def is_absolute_def split: if_splits option.splits)
  have sp: "CHR '' '' \<notin> set ?w" by (auto simp: command_path_def dest: set_takeWhileD)
  obtain cs where cs: "command = ?w @ cs" "cs = [] \<or> hd cs = CHR '' ''" using command_path_split by blast
  have "parse_command command = parse_loop cs [] ?w False False"
    using parse_plain_first[OF assms(2,3) sp, of cs "[]" "[]"] cs(1) by (simp add: parse_command_def)
  also have "\<exists>rest. \<dots> = ?w # rest"
  proof (cases cs)
    case (Cons c cs')
    then show ?thesis using cs(2) w(1) parse_loop_args[of cs' "[?w]" "[]" False False] by auto
  qed (use w(1) in simp)
  finally show ?thesis using w(2,3) by blast
qed

theorem checked_command_is_executed_witness:
  "\<exists>rest. parse_command ''/bin/sleep 5'' = ''/bin/sleep'' # rest"
proof -
  have p: "command_path ''/bin/sleep 5'' = ''/bin/sleep''" by (simp add: command_path_def)
  have "validate_command_path plain_env ''/bin/sleep 5'' = Inr ()"
    by (simp add: validate_command_path_def p plain_env_def any_exec_bit_def)
  from checked_command_is_executed[OF this] show ?thesis by (simp add: p)
qed

section \<open>What the program starts with\<close>

text \<open>The child just before \<open>exec\<close>, when every step succeeds.\<close>

lemma switch_user_frame:
  "switch_user k c ch = (ok, ch') \<Longrightarrow>
     ch_fds ch' = ch_fds ch \<and> ch_env ch' = ch_env ch \<and> ch_cwd ch' = ch_cwd ch \<and> ch_umask ch' = ch_umask ch \<and>
     ch_default_signals ch' = ch_default_signals ch"
  by (auto simp: switch_user_def Let_def split: if_splits option.splits prod.splits sum.splits)

lemma setup_working_directory_frame:
  "setup_working_directory k c ch = (ok, ch') \<Longrightarrow>
     ch_fds ch' = ch_fds ch \<and> ch_env ch' = ch_env ch \<and> ch_cred ch' = ch_cred ch \<and> ch_umask ch' = ch_umask ch \<and>
     ch_default_signals ch' = ch_default_signals ch"
  by (auto simp: setup_working_directory_def split: option.splits if_splits)

text \<open>The outcome, step by step in the order of the code.\<close>

definition prepared :: "child_kernel \<Rightarrow> program_config \<Rightarrow> child \<Rightarrow> child" where
  "prepared k c ch = ch\<lparr>ch_default_signals := ch_default_signals ch @ [SIGPIPE, SIGCHLD, SIGTERM, SIGINT],
     ch_fds := close_inherited_fds (ck_rlimit k) (ch_fds ch)\<rparr>"

lemma setup_child_Exec:
  assumes "setup_child_process k c ch = Exec file argv ch'"
  obtains ch1 where "setup_working_directory k c (prepared k c ch) = (True, ch1)"
    "switch_user k c (case pc_umask c of Some m \<Rightarrow> (setup_environment c ch1)\<lparr>ch_umask := m mod 512\<rparr>
                      | None \<Rightarrow> setup_environment c ch1) = (True, ch')"
    "argv = map c_str (parse_command (pc_command c))" "argv \<noteq> []" "file = hd argv"
proof -
  obtain ok ch1 where w: "setup_working_directory k c (prepared k c ch) = (ok, ch1)" by fastforce
  let ?ch = "case pc_umask c of Some m \<Rightarrow> (setup_environment c ch1)\<lparr>ch_umask := m mod 512\<rparr>
      | None \<Rightarrow> setup_environment c ch1"
  obtain ok2 ch2 where s: "switch_user k c ?ch = (ok2, ch2)" by fastforce
  have "setup_child_process k c ch =
     (if \<not> ok then Exit 126 ch1
      else if \<not> ok2 then Exit 125 ch2
      else case map c_str (parse_command (pc_command c)) of
             [] \<Rightarrow> Exit 127 ch2
           | file # rest \<Rightarrow> if ck_exec_ok k file then Exec file (file # rest) ch2 else Exit 127 ch2)"
    using w s by (simp add: setup_child_process_def prepared_def Let_def)
  with assms have "ok" "ok2" "ch2 = ch'" "argv = map c_str (parse_command (pc_command c))" "argv \<noteq> []" "file = hd argv"
    by (auto split: if_splits list.splits)
  with w s that show thesis by simp
qed

lemma switch_user_drops:
  assumes "switch_user k c ch = (True, ch')" "pc_user c \<noteq> []" "pc_user c \<noteq> ''root''" "cr_uid (ch_cred ch) = 0"
  shows "\<exists>u g. ck_getpwnam k (c_str (pc_user c)) = Some (u, g) \<and> ck_initgroups k (c_str (pc_user c)) g = Some (ch_groups ch') \<and>
    cr_uid (ch_cred ch') = u \<and> cr_euid (ch_cred ch') = u \<and> cr_gid (ch_cred ch') = g \<and> cr_egid (ch_cred ch') = g"
  using assms
  by (auto simp: switch_user_def Let_def split: if_splits option.splits prod.splits sum.splits
      dest!: verify_privilege_drop_iff[THEN iffD1, OF _] simp: verify_privilege_drop_def)

text \<open>
  C11: No program is ever executed with the daemon's privileges by accident: when the daemon
  runs as root and the program is configured with another user, a child that reaches \<open>exec\<close>
  has that user's uid and gid as both its real and effective ids and that user's supplementary
  groups, however the kernel's \<open>setgid\<close> and \<open>setuid\<close> behave.
\<close>

theorem exec_after_privilege_drop:
  assumes "run_child k c op ep ch = Exec file argv ch'"
    and "pc_user c \<noteq> []" "pc_user c \<noteq> ''root''" "cr_uid (ch_cred ch) = 0"
  shows "\<exists>u g. ck_getpwnam k (c_str (pc_user c)) = Some (u, g) \<and>
    ck_initgroups k (c_str (pc_user c)) g = Some (ch_groups ch') \<and>
    ch_cred ch' = \<lparr>cr_uid = u, cr_euid = u, cr_gid = g, cr_egid = g\<rparr>"
proof -
  from assms(1) obtain ch1 where w: "setup_working_directory k c
      (prepared k c (ch\<lparr>ch_fds := redirect_child c op ep (ch_fds ch)\<rparr>)) = (True, ch1)"
    and s: "switch_user k c (case pc_umask c of Some m \<Rightarrow> (setup_environment c ch1)\<lparr>ch_umask := m mod 512\<rparr>
        | None \<Rightarrow> setup_environment c ch1) = (True, ch')"
    unfolding run_child_def by (elim setup_child_Exec)
  have "cr_uid (ch_cred ch1) = 0"
    using setup_working_directory_frame[OF w] assms(4) by (simp add: prepared_def)
  then have "cr_uid (ch_cred (case pc_umask c of Some m \<Rightarrow> (setup_environment c ch1)\<lparr>ch_umask := m mod 512\<rparr>
        | None \<Rightarrow> setup_environment c ch1)) = 0"
    by (simp add: setup_environment_def Let_def split: option.splits)
  from switch_user_drops[OF s assms(2,3) this] show ?thesis by (metis credentials.surjective unit.exhaust)
qed

definition sample_child :: child where
  "sample_child =
     \<lparr>ch_fds = [0 \<mapsto> ParentFile 0, 1 \<mapsto> ParentFile 1, 2 \<mapsto> ParentFile 2, 4 \<mapsto> StdoutPipe, 7 \<mapsto> ParentFile 7],
      ch_default_signals = [], ch_cwd = ''/'', ch_env = [], ch_umask = 18, ch_groups = [0],
      ch_cred = \<lparr>cr_uid = 0, cr_euid = 0, cr_gid = 0, cr_egid = 0\<rparr>\<rparr>"

definition sample_kernel :: child_kernel where
  "sample_kernel =
     \<lparr>ck_rlimit = Some (Some 16), ck_chdir_ok = (\<lambda>_. True), ck_getpwnam = (\<lambda>_. Some (33, 34)),
      ck_initgroups = (\<lambda>_ g. Some [g]),
      ck_setgid = (\<lambda>g cr. Some (cr\<lparr>cr_gid := g, cr_egid := g\<rparr>)),
      ck_setuid = (\<lambda>u cr. Some (cr\<lparr>cr_uid := u, cr_euid := u\<rparr>)), ck_exec_ok = (\<lambda>_. True)\<rparr>"

definition sample_program :: program_config where
  "sample_program = default_program_config\<lparr>pc_command := ''/bin/w'', pc_user := ''www''\<rparr>"

fun exec_child :: "child_result \<Rightarrow> child option" where
  "exec_child (Exec f a ch) = Some ch"
| "exec_child (Exit n ch) = None"

lemma sample_child_runs:
  obtains ch where "run_child sample_kernel sample_program (Some (3, 4)) None sample_child = Exec ''/bin/w'' [''/bin/w''] ch"
proof -
  have "parse_command ''/bin/w'' = [''/bin/w'']" by (simp add: parse_command_def)
  moreover have "setup_working_directory sample_kernel sample_program ch = (True, ch)" for ch
    by (simp add: setup_working_directory_def sample_program_def default_program_config_def)
  moreover have "fst (switch_user sample_kernel sample_program ch)" if "cr_uid (ch_cred ch) = 0" for ch
    using that by (simp add: switch_user_def sample_program_def sample_kernel_def verify_privilege_drop_def Let_def)
  ultimately show thesis
    using that by (auto simp: run_child_def setup_child_process_def sample_program_def sample_kernel_def
        default_program_config_def setup_environment_def sample_child_def Let_def case_prod_unfold)
qed

theorem exec_after_privilege_drop_witness:
  "map_option ch_cred (exec_child (run_child sample_kernel sample_program (Some (3, 4)) None sample_child)) =
     Some \<lparr>cr_uid = 33, cr_euid = 33, cr_gid = 34, cr_egid = 34\<rparr>"
proof -
  obtain ch where r: "run_child sample_kernel sample_program (Some (3, 4)) None sample_child = Exec ''/bin/w'' [''/bin/w''] ch"
    by (rule sample_child_runs)
  from exec_after_privilege_drop[OF r]
  have "ch_cred ch = \<lparr>cr_uid = 33, cr_euid = 33, cr_gid = 34, cr_egid = 34\<rparr>"
    by (simp add: sample_program_def sample_kernel_def sample_child_def)
  then show ?thesis by (simp add: r)
qed

text \<open>Descriptors of the child after redirection.\<close>

definition pipes_open :: "(nat \<times> nat) option \<Rightarrow> (nat \<times> nat) option \<Rightarrow> (nat \<Rightarrow> fd_target option) \<Rightarrow> bool" where
  "pipes_open op ep fds \<longleftrightarrow>
     (case op of None \<Rightarrow> True | Some (r, w) \<Rightarrow> 3 \<le> r \<and> 3 \<le> w \<and> r \<noteq> w \<and> fds w = Some StdoutPipe) \<and>
     (case ep of None \<Rightarrow> True | Some (r, w) \<Rightarrow> 3 \<le> r \<and> 3 \<le> w \<and> r \<noteq> w \<and> fds w = Some StderrPipe) \<and>
     (\<forall>r w r' w'. op = Some (r, w) \<longrightarrow> ep = Some (r', w') \<longrightarrow> w \<noteq> r' \<and> w' \<noteq> r)"

lemma redirect_child_stdio:
  assumes "pipes_open op ep fds"
  shows "redirect_child c op ep fds 0 = fds 0"
    "redirect_child c op ep fds 1 = (if op = None then fds 1 else Some StdoutPipe)"
    "redirect_child c op ep fds 2 =
       (if pc_redirect_stderr c \<and> op \<noteq> None then Some StdoutPipe
        else if ep \<noteq> None then Some StderrPipe else fds 2)"
    "3 \<le> n \<Longrightarrow> fds n = None \<Longrightarrow> redirect_child c op ep fds n = None"
proof -
  note ev = redirect_child_def pipes_open_def dup2_def Let_def
  have "redirect_child c op ep fds 0 = fds 0 \<and>
    redirect_child c op ep fds 1 = (if op = None then fds 1 else Some StdoutPipe) \<and>
    redirect_child c op ep fds 2 =
       (if pc_redirect_stderr c \<and> op \<noteq> None then Some StdoutPipe
        else if ep \<noteq> None then Some StderrPipe else fds 2) \<and>
    (3 \<le> n \<longrightarrow> fds n = None \<longrightarrow> redirect_child c op ep fds n = None)"
  proof (cases op)
    case None
    with assms show ?thesis by (cases ep) (auto simp: ev)
  next
    case (Some o2)
    then obtain r w where "op = Some (r, w)" by (cases o2) auto
    with assms show ?thesis
      by (cases ep) (auto simp: ev simp del: One_nat_def)
  qed
  then show "redirect_child c op ep fds 0 = fds 0"
    "redirect_child c op ep fds 1 = (if op = None then fds 1 else Some StdoutPipe)"
    "redirect_child c op ep fds 2 =
       (if pc_redirect_stderr c \<and> op \<noteq> None then Some StdoutPipe
        else if ep \<noteq> None then Some StderrPipe else fds 2)"
    "3 \<le> n \<Longrightarrow> fds n = None \<Longrightarrow> redirect_child c op ep fds n = None"
    by blast+
qed

lemma exec_fds:
  assumes "run_child k c op ep ch = Exec file argv ch'"
  shows "ch_fds ch' = close_inherited_fds (ck_rlimit k) (redirect_child c op ep (ch_fds ch))"
proof -
  from assms obtain ch1 where w: "setup_working_directory k c
      (prepared k c (ch\<lparr>ch_fds := redirect_child c op ep (ch_fds ch)\<rparr>)) = (True, ch1)"
    and s: "switch_user k c (case pc_umask c of Some m \<Rightarrow> (setup_environment c ch1)\<lparr>ch_umask := m mod 512\<rparr>
        | None \<Rightarrow> setup_environment c ch1) = (True, ch')"
    unfolding run_child_def by (elim setup_child_Exec)
  from switch_user_frame[OF s] setup_working_directory_frame[OF w] show ?thesis
    by (simp add: prepared_def setup_environment_def Let_def split: option.splits)
qed

text \<open>
  C15: A program is executed with exactly the three standard descriptors: standard output goes
  to the log pipe when one was made, standard error goes to the same pipe when it is redirected
  and to its own when it has one, standard input is inherited, and every other descriptor of the
  daemon (sockets, log files, other programs' pipes) is closed, provided the hard limit on open
  files covers the descriptors in use.
\<close>

theorem exec_descriptors:
  assumes "run_child k c op ep ch = Exec file argv ch'" "pipes_open op ep (ch_fds ch)"
    and "max_fd (ck_rlimit k) = Some m" "\<forall>n. int n \<ge> m \<longrightarrow> ch_fds ch n = None" "3 \<le> n"
  shows "ch_fds ch' n = None \<and> ch_fds ch' 0 = ch_fds ch 0 \<and>
    ch_fds ch' 1 = (if op = None then ch_fds ch 1 else Some StdoutPipe) \<and>
    ch_fds ch' 2 = (if pc_redirect_stderr c \<and> op \<noteq> None then Some StdoutPipe
                    else if ep \<noteq> None then Some StderrPipe else ch_fds ch 2)"
proof -
  let ?f = "redirect_child c op ep (ch_fds ch)"
  have fds: "ch_fds ch' = close_inherited_fds (ck_rlimit k) ?f" by (rule exec_fds[OF assms(1)])
  have "ch_fds ch' n = None"
  proof (cases "int n < m")
    case True
    then show ?thesis unfolding fds using close_inherited_fds_closes[OF assms(3,5)] by blast
  next
    case False
    then have "?f n = None" using assms(4,5) redirect_child_stdio(4)[OF assms(2)] by simp
    then show ?thesis unfolding fds using assms(3) by (auto simp: close_inherited_fds_def fold_clear)
  qed
  then show ?thesis
    unfolding fds using redirect_child_stdio(1-3)[OF assms(2), of c]
    by (simp add: close_inherited_fds_keeps_stdio)
qed

theorem exec_descriptors_witness:
  "map_option (\<lambda>ch. (ch_fds ch 1, ch_fds ch 2, ch_fds ch 7))
     (exec_child (run_child sample_kernel sample_program (Some (3, 4)) None sample_child)) =
   Some (Some StdoutPipe, Some (ParentFile 2), None)"
proof -
  obtain ch where r: "run_child sample_kernel sample_program (Some (3, 4)) None sample_child = Exec ''/bin/w'' [''/bin/w''] ch"
    by (rule sample_child_runs)
  have "max_fd (ck_rlimit sample_kernel) = Some 16" "pipes_open (Some (3, 4)) None (ch_fds sample_child)"
    "\<forall>n. int n \<ge> 16 \<longrightarrow> ch_fds sample_child n = None"
    by (auto simp: max_fd_def sample_kernel_def to_int32_def pipes_open_def sample_child_def)
  from exec_descriptors[OF r this(2,1,3), of 7]
  have "ch_fds ch 1 = Some StdoutPipe" "ch_fds ch 2 = Some (ParentFile 2)" "ch_fds ch 7 = None"
    by (simp_all add: sample_child_def sample_program_def default_program_config_def)
  then show ?thesis by (simp add: r)
qed

section \<open>The environment\<close>

lemma setenv_valid: "valid_key k \<Longrightarrow> NUL \<notin> set v \<Longrightarrow> setenv k v env = map_put k v env"
proof -
  assume k: "valid_key k" and v: "NUL \<notin> set v"
  have a: "\<not> isalnum NUL" "\<not> isalnum CHR ''=''" by (simp_all add: charclass)
  have "NUL \<notin> set k" "CHR ''='' \<notin> set k" "k \<noteq> []"
    using k a by (auto simp: valid_key_def list_all_iff)
  with v show ?thesis by (simp add: setenv_def Let_def)
qed

lemma setenv_fold:
  "list_all clean_entry kvs \<Longrightarrow>
     fold (\<lambda>(key, value). setenv key value) kvs env = fold (\<lambda>(k, v). map_put k v) kvs env"
  by (induction kvs arbitrary: env) (auto simp: clean_entry_def setenv_valid)

text \<open>
  C36: The environment of the program is the daemon's environment with the three supervisor
  variables and then the configured variables on top: a configured variable wins over a
  supervisor variable, which wins over an inherited one. For a sanitised configuration and a
  program name without a null byte.
\<close>

theorem child_environment:
  assumes "map_wf (ch_env ch)" "list_all clean_entry (pc_environment c)" "map_wf (pc_environment c)"
    and "NUL \<notin> set (pc_name c)"
  shows "map_of (ch_env (setup_environment c ch)) x =
    (case map_of (pc_environment c) x of
       Some v \<Rightarrow> Some v
     | None \<Rightarrow>
         if x = ''SUPERVISOR_ENABLED'' then Some ''1''
         else if x \<in> {''SUPERVISOR_PROCESS_NAME'', ''SUPERVISOR_GROUP_NAME''} then Some (pc_name c)
         else map_of (ch_env ch) x)"
proof -
  have vk: "valid_key ''SUPERVISOR_ENABLED''" "valid_key ''SUPERVISOR_PROCESS_NAME''"
    "valid_key ''SUPERVISOR_GROUP_NAME''" by code_simp+
  let ?base = "map_put ''SUPERVISOR_GROUP_NAME'' (pc_name c) (map_put ''SUPERVISOR_PROCESS_NAME'' (pc_name c)
      (map_put ''SUPERVISOR_ENABLED'' ''1'' (ch_env ch)))"
  have wf: "map_wf ?base" using assms(1) by (simp add: map_wf_put)
  have env: "ch_env (setup_environment c ch) = fold (\<lambda>(k, v). map_put k v) (pc_environment c) ?base"
    using assms(2,4) vk by (simp add: setup_environment_def Let_def setenv_valid setenv_fold)
  have "map_of (rev (pc_environment c)) x = map_of (pc_environment c) x"
    by (rule map_of_rev_wf[OF assms(3)])
  then show ?thesis
    unfolding env smap.look_puts[OF wf] by (auto simp: map_of_put split: option.splits)
qed

theorem child_environment_witness:
  "map_of (ch_env (setup_environment
      (sample_program\<lparr>pc_environment := [(''SUPERVISOR_ENABLED'', ''0'')]\<rparr>) sample_child)) ''SUPERVISOR_ENABLED''
   = Some ''0''"
proof -
  let ?c = "sample_program\<lparr>pc_environment := [(''SUPERVISOR_ENABLED'', ''0'')]\<rparr>"
  have "list_all clean_entry [(''SUPERVISOR_ENABLED'', ''0'')]" by code_simp
  then show ?thesis
    using child_environment[of sample_child ?c "''SUPERVISOR_ENABLED''"]
    by (simp add: sample_child_def sample_program_def default_program_config_def)
qed

end
