(* ===== verification/Process_Manager.thy ===== *)
theory Process_Manager
  imports Process
begin

text \<open>
  \<^verbatim>\<open>supervisor-lib/src/process/process_manager.cpp\<close>: the ordered map of processes, the
  operations on one or all of them, reaping of exited children, the periodic timer and the
  reconciliation with a new configuration. The event loop belongs to Boost.Asio, so one slice of
  it, \<open>io_context::run_for\<close>, is a parameter: any change of the manager and the system. Handlers that run in
  it belong to the daemon that owns the manager and change its other members too, so all operations are stated
  for any extension of the record \<open>manager\<close>; the daemon is one. The
  loop that waits for children may run for ever if the clock stands still, so it and its callers
  return an option.
\<close>

section \<open>State\<close>

record manager =
  mg_processes :: "process smap"
  mg_update_interval :: int
  mg_signal_wait :: bool
  mg_timer_wait :: bool

type_synonym 'x event_slice = "'x manager_scheme \<Rightarrow> sys \<Rightarrow> 'x manager_scheme \<times> sys"

section \<open>Walking the map\<close>

text \<open>\<open>for (const auto& [_, process_ptr] : process_map_)\<close> with a call on every process.\<close>

fun each_process :: "(process \<Rightarrow> sys \<Rightarrow> process \<times> sys) \<Rightarrow> process smap \<Rightarrow> sys \<Rightarrow> process smap \<times> sys" where
  "each_process f [] sy = ([], sy)"
| "each_process f ((n, p) # ps) sy =
     (let (p, sy) = f p sy; (ps, sy) = each_process f ps sy in ((n, p) # ps, sy))"

definition has_running_processes :: "'x manager_scheme \<Rightarrow> bool" where
  "has_running_processes m \<longleftrightarrow> list_ex (\<lambda>(n, p). p_pid p > 0) (mg_processes m)"

section \<open>Reaping\<close>

fun notify :: "int \<Rightarrow> int \<Rightarrow> process smap \<Rightarrow> sys \<Rightarrow> process smap \<times> sys" where
  "notify pid status [] sy = ([], sy)"
| "notify pid status ((n, p) # ps) sy =
     (if p_pid p = pid then let (p, sy) = on_exit status p sy in ((n, p) # ps, sy)
      else let (ps, sy) = notify pid status ps sy in ((n, p) # ps, sy))"

lemma set_state_waitable [simp]: "sy_waitable (snd (set_state s p sy)) = sy_waitable sy"
  by (simp add: set_state_def steady_now_def)

lemma on_exit_waitable [simp]: "sy_waitable (snd (on_exit st p sy)) = sy_waitable sy"
  by (simp add: on_exit_def failed_start_def Let_def case_prod_unfold)

lemma notify_waitable [simp]: "sy_waitable (snd (notify pid st ps sy)) = sy_waitable sy"
  by (induction pid st ps sy rule: notify.induct) (auto simp: case_prod_unfold Let_def)

function reap_loop :: "bool \<Rightarrow> process smap \<Rightarrow> sys \<Rightarrow> bool \<times> process smap \<times> sys" where
  "reap_loop reaped ps sy =
     (case waitpid_any sy of
        (None, sy) \<Rightarrow> (reaped, ps, sy)
      | (Some (pid, status), sy) \<Rightarrow>
          if pid \<le> 0 then (reaped, ps, sy)
          else let (ps, sy) = notify pid status ps sy in reap_loop True ps sy)"
  by pat_completeness auto
termination
  by (relation "measure (\<lambda>(r, ps, sy). length (sy_waitable sy))")
    (auto simp: waitpid_any_def case_prod_unfold split: list.splits)

declare reap_loop.simps [simp del]

definition handle_sigchld :: "'x manager_scheme \<Rightarrow> sys \<Rightarrow> bool \<times> 'x manager_scheme \<times> sys" where
  "handle_sigchld m sy =
     (let (reaped, ps, sy) = reap_loop False (mg_processes m) sy in (reaped, m\<lparr>mg_processes := ps\<rparr>, sy))"

text \<open>The loop of \<open>reap_until_\<close>; the deadline has been computed from a first reading of the clock.\<close>

partial_function (option) reap_loop_until ::
  "'x event_slice \<Rightarrow> int \<Rightarrow> ('x manager_scheme \<Rightarrow> bool) \<Rightarrow> 'x manager_scheme \<Rightarrow> sys \<Rightarrow> ('x manager_scheme \<times> sys) option" where
  "reap_loop_until run_for deadline keep_waiting m sy =
     (if \<not> keep_waiting m then Some (m, sy)
      else let (now, sy) = steady_now sy in
           if \<not> now < deadline then Some (m, sy)
           else let (reaped, m, sy) = handle_sigchld m sy in
                if reaped then reap_loop_until run_for deadline keep_waiting m sy
                else let (m, sy) = run_for m sy in reap_loop_until run_for deadline keep_waiting m sy)"

definition reap_until :: "'x event_slice \<Rightarrow> int \<Rightarrow> ('x manager_scheme \<Rightarrow> bool) \<Rightarrow> 'x manager_scheme \<Rightarrow> sys \<Rightarrow> ('x manager_scheme \<times> sys) option" where
  "reap_until run_for duration keep_waiting m sy =
     (let (now, sy) = steady_now sy in reap_loop_until run_for (now + duration) keep_waiting m sy)"

section \<open>Operations\<close>

definition begin_signal_handler :: "'x manager_scheme \<Rightarrow> 'x manager_scheme" where
  "begin_signal_handler m = m\<lparr>mg_signal_wait := True\<rparr>"

definition begin_update_timer :: "'x manager_scheme \<Rightarrow> 'x manager_scheme" where
  "begin_update_timer m = m\<lparr>mg_timer_wait := True\<rparr>"

definition mk_manager :: "int \<Rightarrow> manager" where
  "mk_manager update_interval =
     begin_update_timer (begin_signal_handler
       \<lparr>mg_processes = [], mg_update_interval = update_interval, mg_signal_wait = False, mg_timer_wait = False\<rparr>)"

text \<open>The completions of the two waits; an error (the wait was cancelled) ends the chain.\<close>

definition on_signal :: "bool \<Rightarrow> 'x manager_scheme \<Rightarrow> sys \<Rightarrow> 'x manager_scheme \<times> sys" where
  "on_signal error m sy =
     (let m = m\<lparr>mg_signal_wait := False\<rparr> in
      if error then (m, sy)
      else let (_, m, sy) = handle_sigchld m sy in (begin_signal_handler m, sy))"

definition on_timer :: "bool \<Rightarrow> 'x manager_scheme \<Rightarrow> sys \<Rightarrow> 'x manager_scheme \<times> sys" where
  "on_timer error m sy =
     (let m = m\<lparr>mg_timer_wait := False\<rparr> in
      if error then (m, sy)
      else let (ps, sy) = each_process update (mg_processes m) sy
           in (begin_update_timer (m\<lparr>mg_processes := ps\<rparr>), sy))"

text \<open>Assigning to the map's entry creates the new process, then drops the old one.\<close>

definition add_process :: "program_config \<Rightarrow> 'x manager_scheme \<Rightarrow> sys \<Rightarrow> 'x manager_scheme \<times> sys" where
  "add_process config m sy =
     (let (p, sy) = mk_process config sy;
          sy = (case map_of (mg_processes m) (pc_name config) of
                  Some old \<Rightarrow> snd (destroy old sy) | None \<Rightarrow> sy)
      in (m\<lparr>mg_processes := map_put (pc_name config) p (mg_processes m)\<rparr>, sy))"

definition start_all :: "'x manager_scheme \<Rightarrow> sys \<Rightarrow> 'x manager_scheme \<times> sys" where
  "start_all m sy =
     (if mg_processes m = [] then (m, sy)
      else let (ps, sy) = each_process (\<lambda>p sy. snd (start p sy)) (mg_processes m) sy
           in (m\<lparr>mg_processes := ps\<rparr>, sy))"

definition stop_if_running :: "process \<Rightarrow> sys \<Rightarrow> process \<times> sys" where
  "stop_if_running p sy = (if p_pid p > 0 then snd (stop p sy) else (p, sy))"

definition kill_if_running :: "process \<Rightarrow> sys \<Rightarrow> process \<times> sys" where
  "kill_if_running p sy = (if p_pid p > 0 then kill_process p sy else (p, sy))"

fun max_stopwait :: "process smap \<Rightarrow> int \<Rightarrow> int" where
  "max_stopwait [] w = w"
| "max_stopwait ((n, p) # ps) w =
     max_stopwait ps (if p_pid p > 0 then max w (pc_stopwaitsecs (p_config p)) else w)"

definition stop_all :: "'x event_slice \<Rightarrow> 'x manager_scheme \<Rightarrow> sys \<Rightarrow> ('x manager_scheme \<times> sys) option" where
  "stop_all run_for m sy =
     (if mg_processes m = [] then Some (m, sy)
      else let signaled = length (filter (\<lambda>(n, p). p_pid p > 0) (mg_processes m));
               (ps, sy) = each_process stop_if_running (mg_processes m) sy;
               m = m\<lparr>mg_processes := ps\<rparr>
           in if signaled = 0 then Some (m, sy)
              else Option.bind
                     (reap_until run_for ((max_stopwait (mg_processes m) 0 + 1) * NS) has_running_processes m sy)
                     (\<lambda>(m, sy). let (ps, sy) = each_process kill_if_running (mg_processes m) sy
                                in Some (m\<lparr>mg_processes := ps\<rparr>, sy)))"

text \<open>
  The destructor: after its body the members go, first the map and with it the processes, then
  the timer and the signal set, whose waits are cancelled.
\<close>

definition destroy_manager :: "'x event_slice \<Rightarrow> 'x manager_scheme \<Rightarrow> sys \<Rightarrow> ('x manager_scheme \<times> sys) option" where
  "destroy_manager run_for m sy =
     map_option (\<lambda>(m, sy). let (ps, sy) = each_process destroy (mg_processes m) sy
                           in (m\<lparr>mg_processes := ps, mg_timer_wait := False, mg_signal_wait := False\<rparr>, sy))
       (stop_all run_for m sy)"

definition start_process :: "string \<Rightarrow> 'x manager_scheme \<Rightarrow> sys \<Rightarrow> bool \<times> 'x manager_scheme \<times> sys" where
  "start_process name m sy =
     (case map_of (mg_processes m) name of
        None \<Rightarrow> (False, m, sy)
      | Some p \<Rightarrow>
          let (r, p, sy) = start p sy
          in (r, m\<lparr>mg_processes := map_put name p (mg_processes m)\<rparr>, sy))"

definition process_has_pid :: "string \<Rightarrow> 'x manager_scheme \<Rightarrow> bool" where
  "process_has_pid name m \<longleftrightarrow> (case map_of (mg_processes m) name of Some p \<Rightarrow> p_pid p > 0 | None \<Rightarrow> False)"

definition stop_process :: "'x event_slice \<Rightarrow> string \<Rightarrow> 'x manager_scheme \<Rightarrow> sys \<Rightarrow> (bool \<times> 'x manager_scheme \<times> sys) option" where
  "stop_process run_for name m sy =
     (case map_of (mg_processes m) name of
        None \<Rightarrow> Some (False, m, sy)
      | Some p \<Rightarrow>
          let (r, p, sy) = stop p sy;
              m = m\<lparr>mg_processes := map_put name p (mg_processes m)\<rparr>
          in if \<not> r then Some (False, m, sy)
             else map_option (\<lambda>(m, sy). (True, m, sy))
                    (reap_until run_for ((pc_stopwaitsecs (p_config p) + 1) * NS) (process_has_pid name) m sy))"

text \<open>Erasing the entry destroys the process, which kills it if it still has a pid.\<close>

definition erase_process :: "string \<Rightarrow> 'x manager_scheme \<Rightarrow> sys \<Rightarrow> 'x manager_scheme \<times> sys" where
  "erase_process name m sy =
     (case map_of (mg_processes m) name of
        None \<Rightarrow> (m, sy)
      | Some p \<Rightarrow> (m\<lparr>mg_processes := map_erase name (mg_processes m)\<rparr>, snd (destroy p sy)))"

definition remove_process :: "'x event_slice \<Rightarrow> string \<Rightarrow> 'x manager_scheme \<Rightarrow> sys \<Rightarrow> (bool \<times> 'x manager_scheme \<times> sys) option" where
  "remove_process run_for name m sy =
     (case map_of (mg_processes m) name of
        None \<Rightarrow> Some (False, m, sy)
      | Some p \<Rightarrow>
          map_option (\<lambda>(m, sy). (True, erase_process name m sy))
            (if p_pid p > 0 then map_option snd (stop_process run_for name m sy) else Some (m, sy)))"

text \<open>The first pass removes programs that are gone, the second adds and replaces.\<close>

fun remove_gone :: "'x event_slice \<Rightarrow> string list \<Rightarrow> string list \<Rightarrow> 'x manager_scheme \<Rightarrow> sys \<Rightarrow> ('x manager_scheme \<times> sys) option" where
  "remove_gone run_for new_names [] m sy = Some (m, sy)"
| "remove_gone run_for new_names (name # names) m sy =
     (if name \<notin> set new_names
      then Option.bind (remove_process run_for name m sy)
             (\<lambda>(_, m, sy). remove_gone run_for new_names names m sy)
      else remove_gone run_for new_names names m sy)"

definition add_and_start :: "program_config \<Rightarrow> 'x manager_scheme \<Rightarrow> sys \<Rightarrow> 'x manager_scheme \<times> sys" where
  "add_and_start prog m sy =
     (let (m, sy) = add_process prog m sy; (_, m, sy) = start_process (pc_name prog) m sy in (m, sy))"

fun add_changed :: "'x event_slice \<Rightarrow> program_config list \<Rightarrow> 'x manager_scheme \<Rightarrow> sys \<Rightarrow> ('x manager_scheme \<times> sys) option" where
  "add_changed run_for [] m sy = Some (m, sy)"
| "add_changed run_for (prog # progs) m sy =
     (case map_of (mg_processes m) (pc_name prog) of
        None \<Rightarrow> (let (m, sy) = add_and_start prog m sy in add_changed run_for progs m sy)
      | Some p \<Rightarrow>
          if p_config p \<noteq> prog
          then Option.bind (remove_process run_for (pc_name prog) m sy)
                 (\<lambda>(_, m, sy). let (m, sy) = add_and_start prog m sy in add_changed run_for progs m sy)
          else add_changed run_for progs m sy)"

definition sync_processes :: "'x event_slice \<Rightarrow> program_config list \<Rightarrow> 'x manager_scheme \<Rightarrow> sys \<Rightarrow> ('x manager_scheme \<times> sys) option" where
  "sync_processes run_for new_programs m sy =
     Option.bind (remove_gone run_for (map pc_name new_programs) (map fst (mg_processes m)) m sy)
       (\<lambda>(m, sy). add_changed run_for new_programs m sy)"

definition get_process :: "string \<Rightarrow> 'x manager_scheme \<Rightarrow> process option" where
  "get_process name m = map_of (mg_processes m) name"

fun collect_info :: "process smap \<Rightarrow> sys \<Rightarrow> ProcessInfo list \<times> sys" where
  "collect_info [] sy = ([], sy)"
| "collect_info ((n, p) # ps) sy =
     (let (i, sy) = get_info p sy; (is, sy) = collect_info ps sy in (i # is, sy))"

definition get_all_process_info :: "'x manager_scheme \<Rightarrow> sys \<Rightarrow> ProcessInfo list \<times> sys" where
  "get_all_process_info m sy = collect_info (mg_processes m) sy"

section \<open>The contract between a process operation and the manager\<close>

text \<open>The clock is the same function, and readings of it have only been added.\<close>

abbreviation same_clock :: "sys \<Rightarrow> sys \<Rightarrow> bool" where
  "same_clock sy sy' \<equiv> sy_steady sy' = sy_steady sy \<and> sy_reads sy \<le> sy_reads sy'"

lemma each_reads:
  assumes "\<And>p sy. sy_reads sy \<le> sy_reads (snd (f p sy))"
  shows "sy_reads sy \<le> sy_reads (snd (each_process f ps sy))"
proof (induction ps arbitrary: sy)
  case (Cons e ps)
  obtain n p where e: "e = (n, p)" by fastforce
  show ?case using assms[of sy p] Cons[of "snd (f p sy)"] by (simp add: e case_prod_unfold Let_def)
qed simp

lemma spawn_reads [simp]: "sy_reads (snd (snd (spawn p sy))) = sy_reads sy"
proof -
  have pi: "sy_reads (snd (pipe_if b sy)) = sy_reads sy" for b sy
    by (auto simp: pipe_if_def pipe2_def Let_def split: if_splits option.splits prod.splits)
  have cp [simp]: "sy_reads (close_pipe pp sy) = sy_reads sy" "sy_reads (close_write_end pp sy) = sy_reads sy"
    "sy_reads (sys_close d sy) = sy_reads sy" "sy_reads (snd (fork sy)) = sy_reads sy" for pp sy d
    by (auto simp: close_pipe_def close_write_end_def sys_close_def fork_def split: option.splits)
  have ms: "make_stream fd old sy = (r, sy') \<Longrightarrow> sy_reads sy' = sy_reads sy" for fd old sy r sy'
    by (auto simp: make_stream_def Let_def close_stream_def sys_close_def split: if_splits prod.splits option.splits)
  have at [simp]: "sy_reads (snd (attach_stdout pp p sy)) = sy_reads sy" "sy_reads (snd (attach_stderr pp p sy)) = sy_reads sy"
    for pp p sy
    by (auto simp: attach_stdout_def attach_stderr_def split: option.splits prod.splits dest!: ms)
  show ?thesis
    by (auto simp: spawn_def Let_def case_prod_unfold pi split: option.splits)
qed

lemma set_state_reads: "sy_reads sy \<le> sy_reads (snd (set_state s p sy))"
  by (simp add: set_state_def steady_now_def)

lemma start_reads: "sy_reads sy \<le> sy_reads (snd (snd (start p sy)))"
proof -
  obtain c q sq where sp: "spawn p sy = (c, q, sq)" by (cases "spawn p sy")
  have "sy_reads sq = sy_reads sy" using spawn_reads[of p sy] sp by simp
  moreover have "sy_reads sq \<le> sy_reads (snd (failed_start q sq))"
    by (simp add: failed_start_def Let_def set_state_reads)
  moreover have "sy_reads sq \<le> sy_reads (snd (set_state STARTING q' (snd (steady_now sq))))" for q'
    using set_state_reads[of "snd (steady_now sq)" STARTING q'] by simp
  ultimately show ?thesis by (simp add: start_def sp Let_def case_prod_unfold)
qed

lemma update_reads: "sy_reads sy \<le> sy_reads (snd (update p sy))"
proof -
  let ?s = "snd (steady_now sy)"
  have "sy_reads sy \<le> sy_reads (snd (snd (start p ?s)))" "sy_reads sy \<le> sy_reads (snd (set_state RUNNING p ?s))"
    using start_reads[of ?s p] set_state_reads[of ?s RUNNING p] by simp_all
  then show ?thesis by (auto simp: update_def case_prod_unfold Let_def sys_kill_def split: State.splits)
qed

lemma stop_reads: "sy_reads sy \<le> sy_reads (snd (snd (stop p sy)))"
  using set_state_reads[of sy STOPPING p] by (simp add: stop_def Let_def case_prod_unfold sys_kill_def)

lemma kill_reads: "sy_reads sy \<le> sy_reads (snd (kill_process p sy))"
  using set_state_reads[of "waitpid_blocking (p_pid p) (snd (sys_kill (p_pid p) SIGKILL sy))" STOPPED "p\<lparr>p_pid := -1\<rparr>"]
  by (simp add: kill_process_def Let_def case_prod_unfold sys_kill_def waitpid_blocking_def)

text \<open>
  The manager applies an operation to every process in turn. What it needs of the operation is
  that it keeps the process consistent, leaves its configuration alone and does not touch the
  clock; the whole walk then keeps the manager's invariant.
\<close>

definition entry_ok :: "string \<times> process \<Rightarrow> bool" where
  "entry_ok e \<longleftrightarrow> pc_name (p_config (snd e)) = fst e \<and> proc_inv (snd e)"

definition sys_ok :: "sys \<Rightarrow> bool" where
  "sys_ok sy \<longleftrightarrow> kills_positive sy \<and> fork_ret_ok sy"

definition mgr_inv :: "'x manager_scheme \<Rightarrow> sys \<Rightarrow> bool" where
  "mgr_inv m sy \<longleftrightarrow> map_wf (mg_processes m) \<and> list_all entry_ok (mg_processes m) \<and> sys_ok sy"

lemma pinv_split: "pinv (p, sy) \<longleftrightarrow> proc_inv p \<and> sys_ok sy"
  by (auto simp: pinv_def sys_ok_def)

definition configs :: "process smap \<Rightarrow> (string \<times> program_config) list" where
  "configs ps = map (\<lambda>(n, p). (n, p_config p)) ps"

locale process_op =
  fixes f :: "process \<Rightarrow> sys \<Rightarrow> process \<times> sys"
  assumes keeps_inv: "pinv (p, sy) \<Longrightarrow> pinv (f p sy)"
    and keeps_config: "p_config (fst (f p sy)) = p_config p"
    and keeps_clock: "same_clock sy (snd (f p sy))"
begin

lemma each_clock: "same_clock sy (snd (each_process f ps sy))"
proof -
  have "sy_steady (snd (each_process f ps sy)) = sy_steady sy"
    by (induction ps arbitrary: sy) (auto simp: case_prod_unfold Let_def keeps_clock)
  then show ?thesis using each_reads keeps_clock by blast
qed

lemma each_configs: "configs (fst (each_process f ps sy)) = configs ps"
  by (induction ps arbitrary: sy) (auto simp: case_prod_unfold Let_def keeps_config configs_def)

lemma keeps_ok:
  assumes "entry_ok (n, p)" "sys_ok sy"
  shows "entry_ok (n, fst (f p sy))" "sys_ok (snd (f p sy))"
  using keeps_inv[of p sy] assms keeps_config[of p sy]
  by (cases "f p sy"; auto simp: pinv_split entry_ok_def)+

lemma each_inv:
  "list_all entry_ok ps \<Longrightarrow> sys_ok sy \<Longrightarrow>
     list_all entry_ok (fst (each_process f ps sy)) \<and> sys_ok (snd (each_process f ps sy))"
  by (induction ps arbitrary: sy) (auto simp: case_prod_unfold Let_def keeps_ok)

end

lemma configs_fst: "map fst ps = map fst (configs ps)"
  by (simp add: configs_def comp_def case_prod_unfold)

lemma configs_wf: "configs ps = configs qs \<Longrightarrow> map_wf ps = map_wf qs"
  unfolding map_wf_def by (metis configs_fst)

lemma start_op: "process_op (\<lambda>p sy. snd (start p sy))"
proof
  fix p sy
  obtain r p' sy' where s: "start p sy = (r, p', sy')" by (cases "start p sy")
  show "pinv (p, sy) \<Longrightarrow> pinv (snd (start p sy))" using start_preserves[OF s] s by simp
  show "p_config (fst (snd (start p sy))) = p_config p" "same_clock sy (snd (snd (start p sy)))"
    using s start_reads[of sy p] by (auto elim!: start_cases simp: core_def sys_core_def)
qed

lemma stop_op: "process_op stop_if_running"
proof
  fix p sy
  obtain r p' sy' where s: "stop p sy = (r, p', sy')" by (cases "stop p sy")
  show "pinv (p, sy) \<Longrightarrow> pinv (stop_if_running p sy)"
    using stop_preserves[OF s] s by (simp add: stop_if_running_def)
  show "p_config (fst (stop_if_running p sy)) = p_config p" "same_clock sy (snd (stop_if_running p sy))"
    using s stop_reads[of sy p] by (auto elim!: stop_cases simp: core_def stop_if_running_def)
qed

lemma kill_op: "process_op kill_if_running"
proof
  fix p sy
  obtain p' sy' where s: "kill_process p sy = (p', sy')" by (cases "kill_process p sy")
  show "pinv (p, sy) \<Longrightarrow> pinv (kill_if_running p sy)"
    using kill_preserves[OF s] s by (simp add: kill_if_running_def)
  show "p_config (fst (kill_if_running p sy)) = p_config p" "same_clock sy (snd (kill_if_running p sy))"
    using s kill_reads[of sy p] by (auto elim!: kill_cases simp: core_def kill_if_running_def)
qed

lemma update_fields:
  "p_config (fst (update p sy)) = p_config p" "same_clock sy (snd (update p sy))"
proof -
  let ?s = "snd (steady_now sy)"
  have "p_config (fst (snd (start p ?s))) = p_config p" "sy_steady (snd (snd (start p ?s))) = sy_steady sy"
    using process_op.keeps_config[OF start_op, of p ?s] process_op.keeps_clock[OF start_op, of p ?s] by simp_all
  then show "p_config (fst (update p sy)) = p_config p" "same_clock sy (snd (update p sy))"
    using update_reads[of sy p] by (auto simp: update_def case_prod_unfold Let_def sys_kill_def split: State.splits)
qed

lemma update_op: "process_op update"
proof
  fix p sy
  show "pinv (p, sy) \<Longrightarrow> pinv (update p sy)" using update_preserves by (metis prod.collapse)
qed (rule update_fields)+

interpretation starting: process_op "\<lambda>p sy. snd (start p sy)" by (rule start_op)
interpretation stopping: process_op stop_if_running by (rule stop_op)
interpretation killing: process_op kill_if_running by (rule kill_op)
interpretation updating: process_op update by (rule update_op)

section \<open>Reaping delivers each exit once\<close>

lemma notify_cases:
  assumes "notify pid st ps sy = (ps', sy')"
  obtains (nobody) "\<forall>(n, p)\<in>set ps. p_pid p \<noteq> pid" "ps' = ps" "sy' = sy"
    | (told) pre n p post where "ps = pre @ (n, p) # post" "p_pid p = pid"
        "ps' = pre @ (n, fst (on_exit st p sy)) # post" "sy' = snd (on_exit st p sy)"
  using assms
proof (induction ps arbitrary: ps' thesis)
  case (Cons e ps)
  obtain n p where e: "e = (n, p)" by fastforce
  show ?case
  proof (cases "p_pid p = pid")
    case True
    with Cons.prems e show ?thesis by (auto simp: case_prod_unfold Let_def intro: Cons.prems(2)[of "[]"])
  next
    case False
    obtain qs sq where n0: "notify pid st ps sy = (qs, sq)" by fastforce
    with Cons.prems(3) False e have n: "notify pid st ps sy = (qs, sy')" "ps' = (n, p) # qs" by auto
    show ?thesis
    proof (rule Cons.IH[OF _ _ n(1)])
      assume "\<forall>(n, p)\<in>set ps. p_pid p \<noteq> pid" "qs = ps" "sy' = sy"
      then show thesis using Cons.prems(1) False n(2) e by auto
    next
      fix pre n' p' post assume "ps = pre @ (n', p') # post" "p_pid p' = pid"
        "qs = pre @ (n', fst (on_exit st p' sy)) # post" "sy' = snd (on_exit st p' sy)"
      then show thesis using Cons.prems(2)[of "(n, p) # pre" n' p' post] n(2) e by simp
    qed
  qed
qed simp

lemma on_exit_fields:
  "core (fst (on_exit st p sy)) = (p_config p, exit_state (p_config p) (p_state p) (p_retry_count p), -1,
     exit_retries (p_config p) (p_state p) (p_retry_count p))"
  "sys_core (snd (on_exit st p sy)) = sys_core sy" "p_exitstatus (fst (on_exit st p sy)) = decode_exit st"
  "sy_reads sy \<le> sy_reads (snd (on_exit st p sy))"
proof -
  show "core (fst (on_exit st p sy)) = (p_config p, exit_state (p_config p) (p_state p) (p_retry_count p), -1,
     exit_retries (p_config p) (p_state p) (p_retry_count p))" "sys_core (snd (on_exit st p sy)) = sys_core sy"
    using on_exit_core[of st p sy "fst (on_exit st p sy)" "snd (on_exit st p sy)"] by simp_all
  show "p_exitstatus (fst (on_exit st p sy)) = decode_exit st" "sy_reads sy \<le> sy_reads (snd (on_exit st p sy))"
    by (simp_all add: on_exit_def Let_def case_prod_unfold set_state_def failed_start_def steady_now_def)
qed

lemma notify_frame:
  assumes "notify pid st ps sy = (ps', sy')"
  shows "configs ps' = configs ps" "sys_core sy' = sys_core sy" "sy_reads sy \<le> sy_reads sy'"
    "pid > 0 \<Longrightarrow> list_all entry_ok ps \<Longrightarrow> sys_ok sy \<Longrightarrow> list_all entry_ok ps'"
proof -
  have "configs ps' = configs ps \<and> sys_core sy' = sys_core sy \<and> sy_reads sy \<le> sy_reads sy' \<and>
    (0 < pid \<longrightarrow> list_all entry_ok ps \<longrightarrow> sys_ok sy \<longrightarrow> list_all entry_ok ps')"
    using assms
  proof (cases rule: notify_cases)
    case (told pre n p post)
    note f = on_exit_fields[where st = st and p = p and sy = sy]
    have cfg: "p_config (fst (on_exit st p sy)) = p_config p" using f(1) by (simp add: core_def)
    have "entry_ok (n, fst (on_exit st p sy))" if "entry_ok (n, p)" "sys_ok sy" "pid > 0"
      using on_exit_preserves[of st p sy "fst (on_exit st p sy)" "snd (on_exit st p sy)"] that told(2) cfg
      by (auto simp: entry_ok_def pinv_def sys_ok_def)
    with told cfg f show ?thesis by (auto simp: configs_def)
  qed auto
  then show "configs ps' = configs ps" "sys_core sy' = sys_core sy" "sy_reads sy \<le> sy_reads sy'"
    "pid > 0 \<Longrightarrow> list_all entry_ok ps \<Longrightarrow> sys_ok sy \<Longrightarrow> list_all entry_ok ps'" by blast+
qed

lemma reap_loop_step:
  "reap_loop r ps sy = (case sy_waitable sy of
     [] \<Rightarrow> (r, ps, sy)
   | (pid, st) # ws \<Rightarrow>
       if pid \<le> 0 then (r, ps, sy\<lparr>sy_waitable := ws\<rparr>)
       else reap_loop True (fst (notify pid st ps (sy\<lparr>sy_waitable := ws\<rparr>))) (snd (notify pid st ps (sy\<lparr>sy_waitable := ws\<rparr>))))"
  by (subst reap_loop.simps) (auto simp: waitpid_any_def case_prod_unfold Let_def split: list.splits)

lemma reap_loop_frame:
  assumes "reap_loop r ps sy = (r', ps', sy')"
  shows "configs ps' = configs ps" "sys_core sy' = sys_core sy" "sy_reads sy \<le> sy_reads sy'"
    "list_all entry_ok ps \<Longrightarrow> sys_ok sy \<Longrightarrow> list_all entry_ok ps'"
proof -
  have "configs ps' = configs ps \<and> sys_core sy' = sys_core sy \<and> sy_reads sy \<le> sy_reads sy' \<and>
    (list_all entry_ok ps \<longrightarrow> sys_ok sy \<longrightarrow> list_all entry_ok ps')"
    using assms
  proof (induction "sy_waitable sy" arbitrary: r ps sy)
    case Nil
    then show ?case by (subst (asm) reap_loop_step) auto
  next
    case (Cons w ws)
    obtain pid st where w: "w = (pid, st)" by fastforce
    let ?s = "sy\<lparr>sy_waitable := ws\<rparr>"
    have core: "sys_core ?s = sys_core sy" "sys_ok ?s = sys_ok sy"
      by (simp_all add: sys_core_def sys_ok_def kills_positive_def fork_ret_ok_def)
    show ?case
    proof (cases "pid \<le> 0")
      case True
      with Cons.prems Cons.hyps(2)[symmetric] w have "ps' = ps" "sy' = ?s" by (auto simp: reap_loop_step)
      with core show ?thesis by simp
    next
      case False
      obtain qs sq where n: "notify pid st ps ?s = (qs, sq)" by fastforce
      have rl: "reap_loop True qs sq = (r', ps', sy')"
        using Cons.prems False Cons.hyps(2)[symmetric] w n by (simp add: reap_loop_step[of r])
      have ws: "sy_waitable sq = ws" using notify_waitable[of pid st ps ?s] n by simp
      have "sys_ok sq = sys_ok ?s"
        using notify_frame(2)[OF n] by (simp add: sys_core_def sys_ok_def kills_positive_def fork_ret_ok_def)
      with Cons.hyps(1)[OF ws[symmetric] rl] notify_frame[OF n] False core show ?thesis by auto
    qed
  qed
  then show "configs ps' = configs ps" "sys_core sy' = sys_core sy" "sy_reads sy \<le> sy_reads sy'"
    "list_all entry_ok ps \<Longrightarrow> sys_ok sy \<Longrightarrow> list_all entry_ok ps'" by blast+
qed

lemma handle_sigchld_frame:
  assumes "handle_sigchld m sy = (r, m', sy')"
  shows "configs (mg_processes m') = configs (mg_processes m)" "sys_core sy' = sys_core sy"
    "sy_reads sy \<le> sy_reads sy'" "mgr_inv m sy \<Longrightarrow> mgr_inv m' sy'"
proof -
  obtain ps where r: "reap_loop False (mg_processes m) sy = (r, ps, sy')" and m': "m' = m\<lparr>mg_processes := ps\<rparr>"
    using assms by (auto simp: handle_sigchld_def split: prod.splits)
  note f = reap_loop_frame[OF r]
  have ok: "sys_ok sy' = sys_ok sy"
    using f(2) by (simp add: sys_core_def sys_ok_def kills_positive_def fork_ret_ok_def)
  show "configs (mg_processes m') = configs (mg_processes m)" "sys_core sy' = sys_core sy"
    "sy_reads sy \<le> sy_reads sy'" using f m' by simp_all
  show "mgr_inv m sy \<Longrightarrow> mgr_inv m' sy'"
    using f(1,4) ok m' configs_wf[OF f(1)] by (auto simp: mgr_inv_def)
qed

end
