(* ===== verification/Manager_Behaviour.thy ===== *)
theory Manager_Behaviour
  imports Process_Manager
begin

text \<open>
  What the manager of \<^verbatim>\<open>supervisor-lib/src/process/process_manager.cpp\<close> promises: its waiting loops end,
  stopping everything leaves no child, it keeps a registry of programs and settings, and every exit is
  delivered. While it waits it runs the event loop, and so other handlers of the daemon; what these may do
  is the contract of a locale.
\<close>

section \<open>What the manager needs of the event loop\<close>

definition clock_runs :: "(nat \<Rightarrow> int) \<Rightarrow> bool" where
  "clock_runs clock \<longleftrightarrow> (\<forall>d. \<exists>N. \<forall>n\<ge>N. d \<le> clock n)"

text \<open>A result of an operation that keeps the invariant, the clock and the configurations.\<close>

definition keeps_all :: "'x manager_scheme \<Rightarrow> sys \<Rightarrow> 'x manager_scheme \<Rightarrow> sys \<Rightarrow> bool" where
  "keeps_all m sy m' sy' \<longleftrightarrow> mgr_inv m' sy' \<and> same_clock sy sy' \<and>
     configs (mg_processes m') = configs (mg_processes m)"

text \<open>The same for the manager's own operations: nothing else of the daemon it belongs to has changed.\<close>

definition keeps_own :: "'x manager_scheme \<Rightarrow> sys \<Rightarrow> 'x manager_scheme \<Rightarrow> sys \<Rightarrow> bool" where
  "keeps_own m sy m' sy' \<longleftrightarrow> keeps_all m sy m' sy' \<and> manager.more m' = manager.more m"

text \<open>The same for an operation that may also have changed which programs there are.\<close>

definition keeps_sound :: "'x manager_scheme \<Rightarrow> sys \<Rightarrow> 'x manager_scheme \<Rightarrow> sys \<Rightarrow> bool" where
  "keeps_sound m sy m' sy' \<longleftrightarrow> mgr_inv m' sy' \<and> same_clock sy sy'"

lemma keeps_all_trans: "keeps_all m sy m1 sy1 \<Longrightarrow> keeps_all m1 sy1 m2 sy2 \<Longrightarrow> keeps_all m sy m2 sy2"
  by (simp add: keeps_all_def)

lemma keeps_sound_trans: "keeps_sound m sy m1 sy1 \<Longrightarrow> keeps_sound m1 sy1 m2 sy2 \<Longrightarrow> keeps_sound m sy m2 sy2"
  by (simp add: keeps_sound_def)

lemma keeps_all_sound: "keeps_all m sy m' sy' \<Longrightarrow> keeps_sound m sy m' sy'"
  by (simp add: keeps_all_def keeps_sound_def)

lemma keeps_own_all: "keeps_own m sy m' sy' \<Longrightarrow> keeps_all m sy m' sy'"
  by (simp add: keeps_own_def)

lemma mgr_inv_clock [simp]: "mgr_inv m (snd (steady_now sy)) = mgr_inv m sy"
  by (simp add: mgr_inv_def sys_ok_def kills_positive_def fork_ret_ok_def)

lemma keeps_sigchld:
  assumes "handle_sigchld m (snd (steady_now sy)) = (r, m', sy')" "mgr_inv m sy"
  shows "keeps_own m sy m' sy'" "Suc (sy_reads sy) \<le> sy_reads sy'"
proof -
  have "manager.more m' = manager.more m" using assms(1) by (auto simp: handle_sigchld_def split: prod.splits)
  then show "keeps_own m sy m' sy'" "Suc (sy_reads sy) \<le> sy_reads sy'"
    using handle_sigchld_frame[OF assms(1)] assms(2) by (auto simp: keeps_own_def keeps_all_def sys_core_def)
qed

text \<open>What is known when the loop returns: the wait is over, or a later reading of the clock is past the deadline.\<close>

definition waited :: "int \<Rightarrow> ('x manager_scheme \<Rightarrow> bool) \<Rightarrow> sys \<Rightarrow> 'x manager_scheme \<Rightarrow> sys \<Rightarrow> bool" where
  "waited deadline keep sy m' sy' \<longleftrightarrow>
     \<not> keep m' \<or> (\<exists>j. sy_reads sy \<le> j \<and> j < sy_reads sy' \<and> deadline \<le> sy_steady sy j)"

text \<open>A wait of this length lies between two readings of the clock.\<close>

definition waited_out :: "int \<Rightarrow> sys \<Rightarrow> sys \<Rightarrow> bool" where
  "waited_out duration sy sy' \<longleftrightarrow>
     (\<exists>i j. sy_reads sy \<le> i \<and> i < j \<and> j < sy_reads sy' \<and> sy_steady sy i + duration \<le> sy_steady sy j)"

lemma waited_after_now:
  assumes "waited (sy_steady sy1 (sy_reads sy1) + duration) keep (snd (steady_now sy1)) m' sy'" "same_clock sy sy1" "keep m'"
  shows "waited_out duration sy sy'"
proof -
  obtain j where "sy_reads sy1 < j" "j < sy_reads sy'" "sy_steady sy1 (sy_reads sy1) + duration \<le> sy_steady sy1 j"
    using assms(1,3) by (auto simp: waited_def Suc_le_eq)
  with assms(2) show ?thesis unfolding waited_out_def by metis
qed

text \<open>
  A slice of the event loop runs handlers of this daemon. How much they may change is the parameter
  \<open>keeps\<close>: at least what the manager's own operations change, and never its consistency or the clock. The
  members of the daemon that extends the manager may be changed at will, unless \<open>keeps\<close> says otherwise.
  The waiting loop ends at the latest when the clock passes the deadline.
\<close>

locale waiting_loop =
  fixes run_for :: "'x event_slice"
    and keeps :: "'x manager_scheme \<Rightarrow> sys \<Rightarrow> 'x manager_scheme \<Rightarrow> sys \<Rightarrow> bool"
  assumes own_keeps: "keeps_own m sy m' sy' \<Longrightarrow> keeps m sy m' sy'"
    and keeps_soundD: "keeps m sy m' sy' \<Longrightarrow> keeps_sound m sy m' sy'"
    and keeps_trans: "keeps m sy m1 sy1 \<Longrightarrow> keeps m1 sy1 m2 sy2 \<Longrightarrow> keeps m sy m2 sy2"
    and slice_keeps: "mgr_inv m sy \<Longrightarrow> clock_runs (sy_steady sy) \<Longrightarrow> keeps m sy (fst (run_for m sy)) (snd (run_for m sy))"
begin

lemma keeps_inv: "keeps m sy m' sy' \<Longrightarrow> mgr_inv m' sy' \<and> same_clock sy sy'"
  using keeps_soundD by (simp add: keeps_sound_def)

lemma keeps_refl: "mgr_inv m sy \<Longrightarrow> keeps m sy m sy" "mgr_inv m sy \<Longrightarrow> keeps m sy m (snd (steady_now sy))"
  by (rule own_keeps, simp add: keeps_own_def keeps_all_def)+

lemma reap_loop_until_returns:
  assumes "mgr_inv m sy" "clock_runs (sy_steady sy)" "\<forall>n\<ge>N. deadline \<le> sy_steady sy n"
  shows "\<exists>m' sy'. reap_loop_until run_for deadline keep m sy = Some (m', sy') \<and> keeps m sy m' sy' \<and>
    waited deadline keep sy m' sy'"
  using assms
proof (induction "N - sy_reads sy" arbitrary: m sy rule: less_induct)
  case less
  obtain r m1 sy1 where h: "handle_sigchld m (snd (steady_now sy)) = (r, m1, sy1)" by (metis prod_cases3)
  note k = keeps_sigchld[OF h less.prems(1)]
  define m2 sy2 where "m2 = (if r then m1 else fst (run_for m1 sy1))" and "sy2 = (if r then sy1 else snd (run_for m1 sy1))"
  have s: "keeps m1 sy1 (fst (run_for m1 sy1)) (snd (run_for m1 sy1))"
    using slice_keeps[of m1 sy1] k(1) less.prems(2) by (simp add: keeps_own_def keeps_all_def)
  have k2: "keeps m sy m2 sy2" "Suc (sy_reads sy) \<le> sy_reads sy2"
    using own_keeps[OF k(1)] k(2) keeps_trans[OF own_keeps[OF k(1)] s] keeps_inv[OF s] by (auto simp: m2_def sy2_def)
  have now: "steady_now sy = (sy_steady sy (sy_reads sy), snd (steady_now sy))" by (simp add: steady_now_def)
  have step: "reap_loop_until run_for deadline keep m sy =
     (if \<not> keep m then Some (m, sy)
      else if \<not> sy_steady sy (sy_reads sy) < deadline then Some (m, snd (steady_now sy))
      else reap_loop_until run_for deadline keep m2 sy2)"
    by (subst reap_loop_until.simps, subst now) (simp add: h m2_def sy2_def case_prod_unfold Let_def)
  show ?case
  proof (cases "keep m \<and> sy_steady sy (sy_reads sy) < deadline")
    case True
    then have lt: "N - sy_reads sy2 < N - sy_reads sy" using less.prems(3) k2(2) by (meson Suc_le_lessD diff_less_mono2 less_le_trans not_le)
    note inv2 = keeps_inv[OF k2(1)]
    obtain m' sy' where r: "reap_loop_until run_for deadline keep m2 sy2 = Some (m', sy')" "keeps m2 sy2 m' sy'"
      "waited deadline keep sy2 m' sy'"
      using less.hyps[OF lt, of m2] inv2 less.prems(2,3) by auto
    have "waited deadline keep sy m' sy'" using r(3) inv2 k2(2) by (auto simp: waited_def intro: Suc_leD le_trans)
    with True step keeps_trans[OF k2(1) r(2)] r(1) show ?thesis by auto
  next
    case False
    with step keeps_refl[OF less.prems(1)] show ?thesis
      by (cases "keep m") (auto simp: waited_def intro!: exI[of _ "sy_reads sy"])
  qed
qed

lemma reap_until_returns:
  assumes "mgr_inv m sy" "clock_runs (sy_steady sy)"
  shows "\<exists>m' sy'. reap_until run_for duration keep m sy = Some (m', sy') \<and> keeps m sy m' sy' \<and>
    waited (sy_steady sy (sy_reads sy) + duration) keep (snd (steady_now sy)) m' sy'"
proof -
  let ?d = "sy_steady sy (sy_reads sy) + duration" and ?s = "snd (steady_now sy)"
  obtain N where "\<forall>n\<ge>N. ?d \<le> sy_steady ?s n"
    using assms(2) by (auto simp: clock_runs_def)
  with reap_loop_until_returns[of m ?s N ?d keep] assms obtain m' sy' where
    "reap_loop_until run_for ?d keep m ?s = Some (m', sy')" "keeps m ?s m' sy'" "waited ?d keep ?s m' sy'" by auto
  with keeps_trans[OF keeps_refl(2)[OF assms(1)]] show ?thesis by (simp add: reap_until_def case_prod_unfold)
qed

end

text \<open>Two degrees: handlers that leave the set of programs alone, and any handlers, a reload among them.\<close>

locale event_loop = waiting_loop run_for keeps_all for run_for

locale reentrant_loop = waiting_loop run_for keeps_sound for run_for

lemma event_loopI:
  assumes "\<And>m sy. mgr_inv m sy \<Longrightarrow> clock_runs (sy_steady sy) \<Longrightarrow> keeps_all m sy (fst (run_for m sy)) (snd (run_for m sy))"
  shows "event_loop run_for"
  by (rule event_loop.intro, rule waiting_loop.intro)
    (erule keeps_own_all, erule keeps_all_sound, erule (1) keeps_all_trans, rule assms)

lemma reentrant_loopI:
  assumes "\<And>m sy. mgr_inv m sy \<Longrightarrow> clock_runs (sy_steady sy) \<Longrightarrow> keeps_sound m sy (fst (run_for m sy)) (snd (run_for m sy))"
  shows "reentrant_loop run_for"
  by (rule reentrant_loop.intro, rule waiting_loop.intro)
    (erule keeps_own_all[THEN keeps_all_sound], assumption, erule (1) keeps_sound_trans, rule assms)

sublocale event_loop \<subseteq> loose: reentrant_loop run_for
  by (rule reentrant_loopI) (rule keeps_all_sound, rule slice_keeps)

section \<open>Effect of the operations on the map\<close>

lemma each_keeps:
  assumes "process_op f" "mgr_inv m sy" "each_process f (mg_processes m) sy = (ps, sy')"
  shows "keeps_own m sy (m\<lparr>mg_processes := ps\<rparr>) sy'"
proof -
  have e: "ps = fst (each_process f (mg_processes m) sy)" "sy' = snd (each_process f (mg_processes m) sy)"
    using assms(3) by simp_all
  note op = process_op.each_configs[OF assms(1), of "mg_processes m" sy]
    process_op.each_clock[OF assms(1), of "mg_processes m" sy]
    process_op.each_inv[OF assms(1), of "mg_processes m" sy]
  show ?thesis using op assms(2) configs_wf[OF op(1)] by (auto simp: keeps_own_def keeps_all_def mgr_inv_def e)
qed

lemma kill_if_running_pid: "p_pid (fst (kill_if_running p sy)) \<le> 0"
  using kill_cases[of p sy "fst (kill_process p sy)" "snd (kill_process p sy)"]
  by (fastforce simp: kill_if_running_def core_def)

lemma each_kill_pids: "list_all (\<lambda>(n, p). p_pid p \<le> 0) (fst (each_process kill_if_running ps sy))"
  by (induction ps arbitrary: sy) (auto simp: case_prod_unfold Let_def kill_if_running_pid)

lemma each_stop_idle:
  "list_all (\<lambda>(n, p). \<not> p_pid p > 0) ps \<Longrightarrow> each_process stop_if_running ps sy = (ps, sy)"
  by (induction ps) (auto simp: stop_if_running_def)

lemma no_running_iff: "\<not> has_running_processes m \<longleftrightarrow> list_all (\<lambda>(n, p). p_pid p \<le> 0) (mg_processes m)"
  by (force simp: has_running_processes_def list_ex_iff list_all_iff)

text \<open>Replacing one process by its successor.\<close>

definition successor :: "process \<Rightarrow> sys \<Rightarrow> process \<Rightarrow> sys \<Rightarrow> bool" where
  "successor p sy p' sy' \<longleftrightarrow> p_config p' = p_config p \<and> same_clock sy sy' \<and>
     (pinv (p, sy) \<longrightarrow> pinv (p', sy'))"

lemma stop_entry: "stop p sy = (r, p', sy') \<Longrightarrow> successor p sy p' sy'"
  using stop_preserves[of p sy r p' sy'] stop_reads[of sy p] by (auto elim!: stop_cases simp: successor_def core_def)

lemma start_entry: "start p sy = (r, p', sy') \<Longrightarrow> successor p sy p' sy'"
  using start_preserves[of p sy r p' sy'] start_reads[of sy p] by (auto elim!: start_cases simp: successor_def core_def sys_core_def)

lemma map_put_same_key:
  "map_wf m \<Longrightarrow> map_of m k = Some v \<Longrightarrow> map_put k w m = map (\<lambda>(a, b). if a = k then (k, w) else (a, b)) m"
proof (induction m)
  case (Cons e m)
  obtain a b where e: "e = (a, b)" by fastforce
  show ?case
  proof (cases "a = k")
    case True
    then have "\<forall>x\<in>fst ` set m. x \<noteq> k" using Cons.prems(1) e by auto
    then have "map (\<lambda>(a, b). if a = k then (k, w) else (a, b)) m = m" by (intro map_idI) force
    with True e show ?thesis by simp
  next
    case False
    then have "map_of m k = Some v" using Cons.prems(2) e by simp
    then have "k \<in> fst ` set m" by (force dest: map_of_SomeD)
    then have "\<not> k < a" using Cons.prems(1) e by (auto dest: less_asym)
    with False Cons e show ?thesis by simp
  qed
qed simp

lemma put_configs:
  assumes "map_wf ps" "map_of ps n = Some p" "p_config p' = p_config p"
  shows "configs (map_put n p' ps) = configs ps"
proof -
  have "b = p" if "(n, b) \<in> set ps" for b
    using that assms(1,2) map_wf_distinct[OF assms(1)] by (simp add: map_of_eq_Some_iff)
  then show ?thesis
    unfolding configs_def map_put_same_key[OF assms(1,2)] using assms(3) by auto
qed

lemma put_keeps:
  assumes "mgr_inv m sy" "map_of (mg_processes m) n = Some p" "successor p sy p' sy'"
  shows "keeps_all m sy (m\<lparr>mg_processes := map_put n p' (mg_processes m)\<rparr>) sy'"
proof -
  let ?ps = "mg_processes m"
  have wf: "map_wf ?ps" and ok: "list_all entry_ok ?ps" "sys_ok sy" using assms(1) by (auto simp: mgr_inv_def)
  have e: "entry_ok (n, p)" using ok(1) map_of_SomeD[OF assms(2)] by (auto simp: list_all_iff)
  have "pinv (p', sy')" using assms(3) e ok(2) by (simp add: successor_def entry_ok_def pinv_split)
  then have e': "entry_ok (n, p')" "sys_ok sy'"
    using assms(3) e by (auto simp: successor_def entry_ok_def pinv_split)
  then have "list_all entry_ok (map_put n p' ?ps)"
    using ok(1) set_map_put_sub[of n p' ?ps] by (auto simp: list_all_iff)
  then show ?thesis
    using wf e'(2) assms(3) put_configs[OF wf assms(2), of p'] by (simp add: keeps_all_def mgr_inv_def map_wf_put successor_def)
qed

text \<open>A process that has been destroyed holds no child, no stream and no open log file.\<close>

definition released :: "process \<Rightarrow> bool" where
  "released p \<longleftrightarrow> p_pid p \<le> 0 \<and> \<not> stream_open_now (p_stdout_stream p) \<and> \<not> stream_open_now (p_stderr_stream p) \<and>
     pred_option (\<lambda>w. \<not> lw_is_open w) (p_stdout_log_writer p) \<and> pred_option (\<lambda>w. \<not> lw_is_open w) (p_stderr_log_writer p)"

lemma closed_stream: "\<not> stream_open_now (fst (close_stream s sy))"
  by (auto simp: close_stream_def stream_open_now_def split: option.splits)

lemma closed_writer: "pred_option (\<lambda>w. \<not> lw_is_open w) (fst (writer_close w sy))"
  by (auto simp: writer_close_def closeNL_def stream_close_def Let_def case_prod_unfold split: option.splits)

lemma destroy_released: "released (fst (destroy p sy))"
proof -
  have "p_pid (fst (if p_pid p > 0 then kill_process p sy else (p, sy))) \<le> 0"
    using kill_if_running_pid[of p sy] by (simp add: kill_if_running_def)
  then show ?thesis by (simp add: released_def destroy_def case_prod_unfold Let_def closed_stream closed_writer)
qed

lemma each_destroy_released: "list_all (\<lambda>(n, p). released p) (fst (each_process destroy ps sy))"
  by (induction ps arbitrary: sy) (auto simp: case_prod_unfold Let_def destroy_released)

context waiting_loop
begin

lemma stop_all_returns:
  assumes "mgr_inv m sy" "clock_runs (sy_steady sy)"
  shows "\<exists>m' sy'. stop_all run_for m sy = Some (m', sy') \<and> keeps m sy m' sy' \<and> \<not> has_running_processes m'"
proof (cases "has_running_processes m")
  case False
  then have idle: "list_all (\<lambda>(n, p). \<not> p_pid p > 0) (mg_processes m)" by (auto simp: no_running_iff list_all_iff)
  then have "filter (\<lambda>(n, p). p_pid p > 0) (mg_processes m) = []" by (auto simp: list_all_iff filter_empty_conv)
  with idle False assms(1) show ?thesis
    by (auto simp: stop_all_def each_stop_idle intro: keeps_refl)
next
  case True
  then have ne: "mg_processes m \<noteq> []" "length (filter (\<lambda>(n, p). p_pid p > 0) (mg_processes m)) \<noteq> 0"
    by (auto simp: has_running_processes_def list_ex_iff filter_empty_conv)
  obtain ps sy1 where e: "each_process stop_if_running (mg_processes m) sy = (ps, sy1)" by fastforce
  note k1 = each_keeps[OF stop_op assms(1) e]
  then have inv1: "mgr_inv (m\<lparr>mg_processes := ps\<rparr>) sy1" "clock_runs (sy_steady sy1)"
    using assms(2) by (simp_all add: keeps_own_def keeps_all_def)
  obtain m2 sy2 where r: "reap_until run_for ((max_stopwait ps 0 + 1) * NS) has_running_processes
      (m\<lparr>mg_processes := ps\<rparr>) sy1 = Some (m2, sy2)" "keeps (m\<lparr>mg_processes := ps\<rparr>) sy1 m2 sy2"
    using reap_until_returns[OF inv1] by blast
  obtain qs sy3 where q: "each_process kill_if_running (mg_processes m2) sy2 = (qs, sy3)" by fastforce
  have k3: "keeps_own m2 sy2 (m2\<lparr>mg_processes := qs\<rparr>) sy3"
    using each_keeps[OF kill_op _ q] keeps_inv[OF r(2)] by simp
  have "\<not> has_running_processes (m2\<lparr>mg_processes := qs\<rparr>)"
    using each_kill_pids[of "mg_processes m2" sy2] q by (simp add: no_running_iff)
  moreover have "stop_all run_for m sy = Some (m2\<lparr>mg_processes := qs\<rparr>, sy3)"
    using ne r(1) q by (simp add: stop_all_def e)
  ultimately show ?thesis using keeps_trans[OF keeps_trans[OF own_keeps[OF k1] r(2)] own_keeps[OF k3]] by auto
qed

lemma destroy_manager_returns:
  assumes "mgr_inv m sy" "clock_runs (sy_steady sy)"
  shows "\<exists>m' sy'. destroy_manager run_for m sy = Some (m', sy') \<and> list_all (\<lambda>(n, p). released p) (mg_processes m') \<and>
    \<not> mg_timer_wait m' \<and> \<not> mg_signal_wait m'"
proof -
  obtain m1 sy1 where "stop_all run_for m sy = Some (m1, sy1)" using stop_all_returns[OF assms] by blast
  with each_destroy_released[of "mg_processes m1" sy1] show ?thesis
    by (simp add: destroy_manager_def case_prod_unfold Let_def)
qed

end

context event_loop
begin

lemma stop_process_returns:
  assumes "mgr_inv m sy" "clock_runs (sy_steady sy)"
  shows "\<exists>r m' sy'. stop_process run_for name m sy = Some (r, m', sy') \<and> keeps_all m sy m' sy'"
proof (cases "map_of (mg_processes m) name")
  case None
  with assms(1) show ?thesis by (auto simp: stop_process_def keeps_all_def intro: exI[of _ False])
next
  case (Some p)
  obtain r p1 sy1 where st: "stop p sy = (r, p1, sy1)" by (cases "stop p sy")
  let ?m = "m\<lparr>mg_processes := map_put name p1 (mg_processes m)\<rparr>"
  have k1: "keeps_all m sy ?m sy1" by (rule put_keeps[OF assms(1) Some stop_entry[OF st]])
  then have inv1: "mgr_inv ?m sy1" "clock_runs (sy_steady sy1)" using assms(2) by (simp_all add: keeps_all_def)
  show ?thesis
  proof (cases r)
    case False
    with Some st k1 show ?thesis by (auto simp: stop_process_def)
  next
    case True
    obtain m2 sy2 where "reap_until run_for ((pc_stopwaitsecs (p_config p1) + 1) * NS) (process_has_pid name) ?m sy1
        = Some (m2, sy2)" "keeps_all ?m sy1 m2 sy2"
      using reap_until_returns[OF inv1] by blast
    with True Some st keeps_all_trans[OF k1] show ?thesis by (auto simp: stop_process_def)
  qed
qed

end

text \<open>
  Stopping a process that runs: when the signal could be sent, the call comes back when the process has no
  pid any more, or has waited for its stop time and a second; when it was refused, the process is STOPPING.
\<close>

definition signal_ok :: "sys \<Rightarrow> bool" where
  "signal_ok sy \<longleftrightarrow> sy_kill_ok sy (length (sy_kills sy))"

lemma set_state_kill_ok [simp]: "sy_kill_ok (snd (set_state s p sy)) = sy_kill_ok sy"
  by (simp add: set_state_def steady_now_def)

lemma stop_running:
  assumes "p_pid p > 0" "p_state p \<noteq> STOPPED" "stop p sy = (r, p', sy')"
  shows "r = signal_ok sy" "p_state p' = STOPPING" "p_config p' = p_config p"
  using assms by (auto simp: stop_def Let_def case_prod_unfold sys_kill_def steady_now_def signal_ok_def)

definition stop_outcome :: "string \<Rightarrow> process \<Rightarrow> sys \<Rightarrow> 'x manager_scheme \<Rightarrow> sys \<Rightarrow> bool" where
  "stop_outcome name p sy m' sy' \<longleftrightarrow>
     (if signal_ok sy
      then \<not> process_has_pid name m' \<or> waited_out ((pc_stopwaitsecs (p_config p) + 1) * NS) sy sy'
      else \<exists>p'. map_of (mg_processes m') name = Some p' \<and> p_state p' = STOPPING)"

context event_loop
begin

lemma stop_process_running:
  assumes "mgr_inv m sy" "clock_runs (sy_steady sy)" "map_of (mg_processes m) name = Some p" "p_pid p > 0"
  shows "\<exists>m' sy'. stop_process run_for name m sy = Some (signal_ok sy, m', sy') \<and> keeps_all m sy m' sy' \<and>
    stop_outcome name p sy m' sy'"
proof -
  have "proc_inv p" using assms(1) map_of_SomeD[OF assms(3)] by (auto simp: mgr_inv_def list_all_iff entry_ok_def)
  then have "p_state p \<noteq> STOPPED" using assms(4) by (auto simp: proc_inv_def)
  obtain p1 sy1 where st: "stop p sy = (signal_ok sy, p1, sy1)" "p_state p1 = STOPPING" "p_config p1 = p_config p"
    using stop_running[OF assms(4) \<open>p_state p \<noteq> STOPPED\<close>] by (cases "stop p sy") auto
  let ?m = "m\<lparr>mg_processes := map_put name p1 (mg_processes m)\<rparr>"
  have k1: "keeps_all m sy ?m sy1" by (rule put_keeps[OF assms(1,3) stop_entry[OF st(1)]])
  then have inv1: "mgr_inv ?m sy1" "clock_runs (sy_steady sy1)" "same_clock sy sy1"
    using assms(2) by (simp_all add: keeps_all_def)
  show ?thesis
  proof (cases "signal_ok sy")
    case False
    with assms(3) st k1 show ?thesis by (auto simp: stop_process_def stop_outcome_def map_of_put)
  next
    case True
    obtain m2 sy2 where r: "reap_until run_for ((pc_stopwaitsecs (p_config p) + 1) * NS) (process_has_pid name) ?m sy1
        = Some (m2, sy2)" "keeps_all ?m sy1 m2 sy2"
      "waited (sy_steady sy1 (sy_reads sy1) + (pc_stopwaitsecs (p_config p) + 1) * NS) (process_has_pid name)
         (snd (steady_now sy1)) m2 sy2"
      using reap_until_returns[OF inv1(1,2)] by blast
    have "stop_outcome name p sy m2 sy2"
      using waited_after_now[OF r(3) inv1(3)] True by (auto simp: stop_outcome_def)
    with True assms(3) st r(1,2) keeps_all_trans[OF k1] show ?thesis by (auto simp: stop_process_def)
  qed
qed

end

section \<open>Reconciling with a new configuration\<close>

text \<open>The configurations as a lookup table, and an operation that changes it in a known way.\<close>

definition config_of :: "'x manager_scheme \<Rightarrow> string \<rightharpoonup> program_config" where
  "config_of m = map_of (configs (mg_processes m))"

definition changes_to :: "sys \<Rightarrow> 'x manager_scheme \<Rightarrow> sys \<Rightarrow> (string \<rightharpoonup> program_config) \<Rightarrow> bool" where
  "changes_to sy m' sy' cfg \<longleftrightarrow> mgr_inv m' sy' \<and> same_clock sy sy' \<and> config_of m' = cfg"

lemma config_of_lookup: "config_of m n = map_option p_config (map_of (mg_processes m) n)"
proof -
  have "map_of (map (\<lambda>(n, p). (n, p_config p)) ps) n = map_option p_config (map_of ps n)" for ps
    by (induction ps) auto
  then show ?thesis by (simp add: config_of_def configs_def)
qed

lemma keeps_all_changes: "keeps_all m sy m' sy' \<Longrightarrow> changes_to sy m' sy' (config_of m)"
  by (simp add: keeps_all_def changes_to_def config_of_def)

lemma close_writer_ok:
  assumes "sys_core sy' = sys_core sy"
  shows "sys_ok sy' = sys_ok sy" "sy_steady sy' = sy_steady sy"
  using assms by (simp_all add: sys_core_def sys_ok_def kills_positive_def fork_ret_ok_def)

lemma destroy_reads: "sy_reads sy \<le> sy_reads (snd (destroy p sy))"
proof -
  have c: "sy_reads (snd (close_stream s sy)) = sy_reads sy" "sy_reads (snd (writer_close w sy)) = sy_reads sy" for s w sy
    by (auto simp: close_stream_def sys_close_def writer_close_def split: option.splits prod.splits)
  show ?thesis using kill_reads[of sy p] by (simp add: destroy_def Let_def case_prod_unfold c)
qed

lemma destroy_ok: "sys_ok (snd (destroy p sy)) = sys_ok sy" "same_clock sy (snd (destroy p sy))"
proof -
  have k: "sys_ok (snd (kill_process p sy)) = sys_ok sy \<and> sy_steady (snd (kill_process p sy)) = sy_steady sy"
    by (rule kill_cases[of p sy "fst (kill_process p sy)" "snd (kill_process p sy)"])
      (auto simp: sys_ok_def kills_positive_def fork_ret_ok_def)
  let ?k = "if p_pid p > 0 then kill_process p sy else (p, sy)"
  have "sys_core (snd (destroy p sy)) = sys_core (snd ?k)"
    by (simp add: destroy_def Let_def case_prod_unfold close_stream_frame[OF prod.collapse[symmetric]]
        writer_frame[OF prod.collapse[symmetric]])
  from close_writer_ok[OF this] k
  show "sys_ok (snd (destroy p sy)) = sys_ok sy" "same_clock sy (snd (destroy p sy))"
    using destroy_reads[of sy p] by (auto split: if_splits)
qed

lemma erase_changes:
  assumes "mgr_inv m sy"
  shows "changes_to sy (fst (erase_process n m sy)) (snd (erase_process n m sy)) ((config_of m)(n := None))"
proof (cases "map_of (mg_processes m) n")
  case None
  then have "config_of m n = None" by (simp add: config_of_lookup)
  with None assms show ?thesis by (auto simp: erase_process_def changes_to_def)
next
  case (Some p)
  have wf: "map_wf (mg_processes m)" using assms by (simp add: mgr_inv_def)
  with Some assms set_map_erase_sub[of n "mg_processes m"] show ?thesis
    by (auto simp: erase_process_def changes_to_def mgr_inv_def map_wf_erase destroy_ok list_all_iff
        config_of_lookup map_of_erase fun_eq_iff)
qed

lemma add_process_changes:
  assumes "mgr_inv m sy" "add_process c m sy = (m', sy')"
  shows "changes_to sy m' sy' ((config_of m)(pc_name c \<mapsto> c))"
proof -
  obtain p sy1 where mk: "mk_process c sy = (p, sy1)" by fastforce
  note f = mk_process_fields[OF mk]
  have e: "entry_ok (pc_name c, p)" using f(1) by (auto simp: entry_ok_def proc_inv_def core_def)
  have p: "p_config p = c" using f(1) by (simp add: core_def)
  have m': "mg_processes m' = map_put (pc_name c) p (mg_processes m)"
    and sy': "sys_ok sy' = sys_ok sy1" "same_clock sy1 sy'"
    using assms(2) by (auto simp: add_process_def mk destroy_ok split: option.splits)
  have wf: "map_wf (mg_processes m')" using assms(1) m' by (simp add: mgr_inv_def map_wf_put)
  have "sy_reads sy \<le> sy_reads sy1" using mk by (auto simp: mk_process_def steady_now_def Let_def split: prod.splits)
  moreover have "list_all entry_ok (mg_processes m')"
    using assms(1) e set_map_put_sub[of "pc_name c" p "mg_processes m"] by (auto simp: m' mgr_inv_def list_all_iff)
  ultimately show ?thesis using wf assms(1) sy' close_writer_ok[OF f(2)]
    by (auto simp: changes_to_def mgr_inv_def config_of_lookup m' map_of_put fun_eq_iff p)
qed

lemma start_process_keeps:
  assumes "mgr_inv m sy" "start_process n m sy = (r, m', sy')"
  shows "keeps_all m sy m' sy'"
proof (cases "map_of (mg_processes m) n")
  case None
  with assms show ?thesis by (simp add: start_process_def keeps_all_def)
next
  case (Some p)
  obtain r1 p1 sy1 where st: "start p sy = (r1, p1, sy1)" by (cases "start p sy")
  from put_keeps[OF assms(1) Some start_entry[OF st]] assms(2) Some st show ?thesis
    by (simp add: start_process_def)
qed

lemma add_and_start_changes:
  assumes "mgr_inv m sy" "add_and_start c m sy = (m', sy')"
  shows "changes_to sy m' sy' ((config_of m)(pc_name c \<mapsto> c))"
proof -
  obtain m1 sy1 where a: "add_process c m sy = (m1, sy1)" by fastforce
  obtain r where s: "start_process (pc_name c) m1 sy1 = (r, m', sy')"
    using assms(2) by (auto simp: add_and_start_def a split: prod.splits)
  note c1 = add_process_changes[OF assms(1) a]
  then have "keeps_all m1 sy1 m' sy'" using start_process_keeps[OF _ s] by (simp add: changes_to_def)
  with c1 show ?thesis by (auto simp: changes_to_def keeps_all_def config_of_def)
qed

text \<open>What a list of programs asks for: the last one of each name.\<close>

definition programs_map :: "program_config list \<Rightarrow> string \<rightharpoonup> program_config" where
  "programs_map progs = map_of (rev (map (\<lambda>c. (pc_name c, c)) progs))"

lemma programs_map_Nil [simp]: "programs_map [] x = None"
  by (simp add: programs_map_def)

lemma programs_map_Cons:
  "programs_map (c # progs) x =
     (case programs_map progs x of Some c' \<Rightarrow> Some c' | None \<Rightarrow> if x = pc_name c then Some c else None)"
  by (simp add: programs_map_def map_add_def split: option.splits)

lemma programs_map_None: "programs_map progs x = None \<longleftrightarrow> x \<notin> set (map pc_name progs)"
  by (induction progs) (auto simp: programs_map_Cons split: option.splits)

lemma programs_map_SomeD: "programs_map progs x = Some c \<Longrightarrow> c \<in> set progs \<and> pc_name c = x"
  by (induction progs) (auto simp: programs_map_Cons split: option.splits if_splits)

lemma programs_map_distinct:
  assumes "distinct (map pc_name progs)"
  shows "programs_map progs = map_of (map (\<lambda>c. (pc_name c, c)) progs)"
proof -
  have "distinct (map fst (map (\<lambda>c. (pc_name c, c)) progs))" using assms by (simp add: comp_def)
  from map_of_rev_distinct[OF this] show ?thesis by (simp add: programs_map_def fun_eq_iff)
qed

lemmas event_loop_stop_all = waiting_loop.stop_all_returns[OF event_loop.axioms]
lemmas event_loop_destroy_manager = waiting_loop.destroy_manager_returns[OF event_loop.axioms]
lemmas reentrant_loop_stop_all = waiting_loop.stop_all_returns[OF reentrant_loop.axioms]

context event_loop
begin

lemma remove_process_returns:
  assumes "mgr_inv m sy" "clock_runs (sy_steady sy)"
  shows "\<exists>r m' sy'. remove_process run_for n m sy = Some (r, m', sy') \<and> changes_to sy m' sy' ((config_of m)(n := None))"
proof (cases "map_of (mg_processes m) n")
  case None
  then have "config_of m n = None" by (simp add: config_of_lookup)
  with None assms(1) show ?thesis
    by (auto simp: remove_process_def changes_to_def intro: exI[of _ False])
next
  case (Some p)
  obtain r m1 sy1 where st: "stop_process run_for n m sy = Some (r, m1, sy1)" "keeps_all m sy m1 sy1"
    using stop_process_returns[OF assms] by blast
  define m2 sy2 where "m2 = (if p_pid p > 0 then m1 else m)" and "sy2 = (if p_pid p > 0 then sy1 else sy)"
  have k: "keeps_all m sy m2 sy2" using st(2) assms(1) by (simp add: m2_def sy2_def keeps_all_def)
  have "remove_process run_for n m sy = Some (True, erase_process n m2 sy2)"
    by (simp add: remove_process_def Some st(1) m2_def sy2_def)
  moreover have "changes_to sy (fst (erase_process n m2 sy2)) (snd (erase_process n m2 sy2)) ((config_of m)(n := None))"
    using erase_changes[of m2 sy2 n] k by (simp add: keeps_all_def changes_to_def config_of_def)
  ultimately show ?thesis by (metis prod.collapse)
qed

lemma remove_gone_returns:
  assumes "mgr_inv m sy" "clock_runs (sy_steady sy)"
  shows "\<exists>m' sy'. remove_gone run_for keep names m sy = Some (m', sy') \<and>
    changes_to sy m' sy' (\<lambda>x. if x \<in> set names \<and> x \<notin> set keep then None else config_of m x)"
  using assms
proof (induction names arbitrary: m sy)
  case Nil
  then show ?case by (simp add: changes_to_def)
next
  case (Cons n names)
  show ?case
  proof (cases "n \<in> set keep")
    case True
    then have eq: "(\<lambda>x. if x \<in> set (n # names) \<and> x \<notin> set keep then None else config_of m x) =
        (\<lambda>x. if x \<in> set names \<and> x \<notin> set keep then None else config_of m x)" by (auto simp: fun_eq_iff)
    show ?thesis unfolding eq using Cons.IH[OF Cons.prems] True by simp
  next
    case False
    obtain r m1 sy1 where r: "remove_process run_for n m sy = Some (r, m1, sy1)"
      and c: "changes_to sy m1 sy1 ((config_of m)(n := None))"
      using remove_process_returns[OF Cons.prems] by blast
    then have "mgr_inv m1 sy1" "clock_runs (sy_steady sy1)" using Cons.prems(2) by (simp_all add: changes_to_def)
    from Cons.IH[OF this] obtain m' sy' where "remove_gone run_for keep names m1 sy1 = Some (m', sy')"
      "changes_to sy1 m' sy' (\<lambda>x. if x \<in> set names \<and> x \<notin> set keep then None else config_of m1 x)" by blast
    with False r c show ?thesis by (auto simp: changes_to_def fun_eq_iff)
  qed
qed

lemma add_changed_returns:
  assumes "mgr_inv m sy" "clock_runs (sy_steady sy)"
  shows "\<exists>m' sy'. add_changed run_for progs m sy = Some (m', sy') \<and>
    changes_to sy m' sy' (\<lambda>x. case programs_map progs x of
      Some c \<Rightarrow> Some c | None \<Rightarrow> config_of m x)"
  using assms
proof (induction progs arbitrary: m sy)
  case Nil
  then show ?case by (simp add: changes_to_def)
next
  case (Cons c progs)
  have "\<exists>m1 sy1. add_changed run_for (c # progs) m sy = add_changed run_for progs m1 sy1 \<and>
      changes_to sy m1 sy1 ((config_of m)(pc_name c \<mapsto> c))"
  proof (cases "map_of (mg_processes m) (pc_name c)")
    case None
    obtain m1 sy1 where a: "add_and_start c m sy = (m1, sy1)" by fastforce
    with None add_and_start_changes[OF Cons.prems(1) a] show ?thesis by auto
  next
    case (Some p)
    then have cp: "config_of m (pc_name c) = Some (p_config p)" by (simp add: config_of_lookup)
    show ?thesis
    proof (cases "p_config p = c")
      case True
      then have "(config_of m)(pc_name c \<mapsto> c) = config_of m" using cp by (auto simp: fun_eq_iff)
      with Some True Cons.prems(1) show ?thesis by (intro exI[of _ m] exI[of _ sy]) (simp add: changes_to_def)
    next
      case False
      obtain r m1 sy1 where r: "remove_process run_for (pc_name c) m sy = Some (r, m1, sy1)"
        and c1: "changes_to sy m1 sy1 ((config_of m)(pc_name c := None))"
        using remove_process_returns[OF Cons.prems(1,2)] by blast
      obtain m2 sy2 where a: "add_and_start c m1 sy1 = (m2, sy2)" by fastforce
      have "changes_to sy1 m2 sy2 ((config_of m1)(pc_name c \<mapsto> c))"
        using add_and_start_changes[OF _ a] c1 by (simp add: changes_to_def)
      with c1 have "changes_to sy m2 sy2 ((config_of m)(pc_name c \<mapsto> c))" by (simp add: changes_to_def)
      with Some False r a show ?thesis by auto
    qed
  qed
  then obtain m1 sy1 where step: "add_changed run_for (c # progs) m sy = add_changed run_for progs m1 sy1"
    and c1: "changes_to sy m1 sy1 ((config_of m)(pc_name c \<mapsto> c))" by blast
  then have inv1: "mgr_inv m1 sy1" "clock_runs (sy_steady sy1)"
    using Cons.prems by (simp_all add: changes_to_def)
  from Cons.IH[OF inv1] obtain m' sy' where rest: "add_changed run_for progs m1 sy1 = Some (m', sy')"
    "changes_to sy1 m' sy' (\<lambda>x. case programs_map progs x of Some c \<Rightarrow> Some c | None \<Rightarrow> config_of m1 x)" by blast
  have "(\<lambda>x. case programs_map progs x of Some c \<Rightarrow> Some c | None \<Rightarrow> config_of m1 x) =
      (\<lambda>x. case programs_map (c # progs) x of Some c \<Rightarrow> Some c | None \<Rightarrow> config_of m x)"
    using c1 by (auto simp: changes_to_def fun_eq_iff programs_map_Cons split: option.splits)
  with step rest c1 show ?case by (auto simp: changes_to_def)
qed

lemma sync_processes_returns:
  assumes "mgr_inv m sy" "clock_runs (sy_steady sy)"
  shows "\<exists>m' sy'. sync_processes run_for progs m sy = Some (m', sy') \<and>
    changes_to sy m' sy' (programs_map progs)"
proof -
  obtain m1 sy1 where r: "remove_gone run_for (map pc_name progs) (map fst (mg_processes m)) m sy = Some (m1, sy1)"
    and c1: "changes_to sy m1 sy1
      (\<lambda>x. if x \<in> set (map fst (mg_processes m)) \<and> x \<notin> set (map pc_name progs) then None else config_of m x)"
    using remove_gone_returns[OF assms(1,2)] by blast
  then have inv1: "mgr_inv m1 sy1" "clock_runs (sy_steady sy1)" using assms(2) by (simp_all add: changes_to_def)
  obtain m2 sy2 where a: "add_changed run_for progs m1 sy1 = Some (m2, sy2)"
    and c2: "changes_to sy1 m2 sy2 (\<lambda>x. case programs_map progs x of
      Some c \<Rightarrow> Some c | None \<Rightarrow> config_of m1 x)"
    using add_changed_returns[OF inv1] by blast
  have "config_of m1 x = None" if "x \<notin> set (map pc_name progs)" for x
  proof (cases "map_of (mg_processes m) x")
    case None
    with c1 show ?thesis by (simp add: changes_to_def config_of_lookup)
  next
    case (Some p)
    then have "x \<in> set (map fst (mg_processes m))" by (force dest: map_of_SomeD)
    with c1 that show ?thesis by (simp add: changes_to_def)
  qed
  then have "programs_map progs x = None \<Longrightarrow> config_of m1 x = None" for x by (simp only: programs_map_None)
  then have "(case programs_map progs x of
      Some c \<Rightarrow> Some c | None \<Rightarrow> config_of m1 x) = programs_map progs x" for x
    by (cases "programs_map progs x") simp_all
  then have "(\<lambda>x. case programs_map progs x of
      Some c \<Rightarrow> Some c | None \<Rightarrow> config_of m1 x) = programs_map progs" by blast
  with r a c1 c2 show ?thesis by (auto simp: sync_processes_def changes_to_def)
qed

end

section \<open>The manager's own handlers as an event loop\<close>

text \<open>A slice in which a child has exited and the timer is due runs these two handlers.\<close>

definition manager_slice :: "'x event_slice" where
  "manager_slice m sy = (let (m, sy) = on_signal False m sy in on_timer False m sy)"

lemma on_signal_keeps:
  assumes "mgr_inv m sy" "on_signal e m sy = (m', sy')"
  shows "keeps_all m sy m' sy'" "sy_reads sy \<le> sy_reads sy'"
proof -
  let ?m = "m\<lparr>mg_signal_wait := False\<rparr>"
  obtain r m1 sy1 where h: "handle_sigchld ?m sy = (r, m1, sy1)" by (metis prod_cases3)
  have "mgr_inv ?m sy" using assms(1) by (simp add: mgr_inv_def)
  with handle_sigchld_frame[OF h] assms h show "keeps_all m sy m' sy'" "sy_reads sy \<le> sy_reads sy'"
    by (auto simp: on_signal_def keeps_all_def mgr_inv_def begin_signal_handler_def sys_core_def Let_def split: if_splits)
qed

lemma on_timer_keeps:
  assumes "mgr_inv m sy" "on_timer e m sy = (m', sy')"
  shows "keeps_all m sy m' sy'" "sy_reads sy \<le> sy_reads sy'"
proof -
  obtain ps sy1 where h: "each_process update (mg_processes m) sy = (ps, sy1)" by fastforce
  have "sy_reads sy \<le> sy_reads sy1" using each_reads[of update sy "mg_processes m"] update_reads h by simp
  with keeps_own_all[OF each_keeps[OF update_op assms(1) h]] assms h show "keeps_all m sy m' sy'" "sy_reads sy \<le> sy_reads sy'"
    by (auto simp: on_timer_def keeps_all_def mgr_inv_def begin_update_timer_def Let_def split: if_splits)
qed

lemma manager_slice_keeps:
  assumes "mgr_inv m sy"
  shows "keeps_all m sy (fst (manager_slice m sy)) (snd (manager_slice m sy))"
proof -
  obtain m1 sy1 where s: "on_signal False m sy = (m1, sy1)" by fastforce
  obtain m2 sy2 where t: "on_timer False m1 sy1 = (m2, sy2)" by fastforce
  note ks = on_signal_keeps[OF assms s]
  then have kt: "keeps_all m1 sy1 m2 sy2" "sy_reads sy1 \<le> sy_reads sy2"
    using on_timer_keeps[OF _ t] by (auto simp: keeps_all_def)
  with ks keeps_all_trans[OF ks(1) kt(1)] s t
  show "keeps_all m sy (fst (manager_slice m sy)) (snd (manager_slice m sy))"
    by (simp add: manager_slice_def)
qed

interpretation own_handlers: event_loop manager_slice
  by (rule event_loopI) (rule manager_slice_keeps)

text \<open>A slice in which a reload with these programs is carried out too.\<close>

definition reloading_slice :: "program_config list \<Rightarrow> 'x event_slice" where
  "reloading_slice progs m sy =
     (let (m, sy) = manager_slice m sy in
      case sync_processes manager_slice progs m sy of Some ms \<Rightarrow> ms | None \<Rightarrow> (m, sy))"

lemma reloading_slice_sound:
  assumes "mgr_inv m sy" "clock_runs (sy_steady sy)"
  shows "keeps_sound m sy (fst (reloading_slice progs m sy)) (snd (reloading_slice progs m sy))"
proof -
  obtain m1 sy1 where s: "manager_slice m sy = (m1, sy1)" by fastforce
  have k: "keeps_all m sy m1 sy1" using manager_slice_keeps[OF assms(1)] s by simp
  obtain m2 sy2 where r: "sync_processes manager_slice progs m1 sy1 = Some (m2, sy2)" "changes_to sy1 m2 sy2 (programs_map progs)"
    using own_handlers.sync_processes_returns[of m1 sy1 progs] k assms(2) by (auto simp: keeps_all_def)
  have "reloading_slice progs m sy = (m2, sy2)" by (simp add: reloading_slice_def s r(1))
  with k r(2) show ?thesis by (simp add: keeps_all_def keeps_sound_def changes_to_def)
qed

interpretation reloading: reentrant_loop "reloading_slice progs" for progs
  by (rule reentrant_loopI) (rule reloading_slice_sound)

section \<open>What the manager promises\<close>

text \<open>
  C4: Stopping everything ends, whatever handlers the event loop runs in the meantime, a reload of the
  configuration among them, as long as they keep the manager consistent and the clock eventually passes
  any deadline; afterwards no process has a pid, so no supervised child survives a shutdown. If the
  handlers leave the set of programs alone, it is the same afterwards.
\<close>

theorem stop_all_leaves_no_child:
  assumes "reentrant_loop run_for" "mgr_inv m sy" "clock_runs (sy_steady sy)"
  shows "\<exists>m' sy'. stop_all run_for m sy = Some (m', sy') \<and> mgr_inv m' sy' \<and>
    list_all (\<lambda>(n, p). p_pid p \<le> 0) (mg_processes m') \<and>
    (event_loop run_for \<longrightarrow> configs (mg_processes m') = configs (mg_processes m))"
proof -
  obtain m' sy' where r: "stop_all run_for m sy = Some (m', sy')" "keeps_sound m sy m' sy'" "\<not> has_running_processes m'"
    using reentrant_loop_stop_all[OF assms] by blast
  moreover have "configs (mg_processes m') = configs (mg_processes m)" if "event_loop run_for"
    using event_loop_stop_all[OF that assms(2,3)] r(1) by (auto simp: keeps_all_def)
  ultimately show ?thesis by (auto simp: keeps_sound_def no_running_iff)
qed

definition sample_manager :: manager where
  "sample_manager = (mk_manager 1000)\<lparr>mg_processes := [([], fst sample_started)]\<rparr>"

lemma sample_manager_ok: "mgr_inv sample_manager (snd sample_started)"
proof -
  have "pinv sample_started" using pstep_preserves[OF sample_step sample_fresh_inv] .
  then show ?thesis
    by (simp add: mgr_inv_def sample_manager_def pinv_def sys_ok_def entry_ok_def sample_started_fields default_program_config_def)
qed

lemma sample_clock: "clock_runs (sy_steady (snd sample_started))"
proof -
  have "d \<le> int n * NS" if "nat d \<le> n" for d n using that by linarith
  then show ?thesis by (auto simp: clock_runs_def sample_started_fields)
qed

definition sample_reload :: program_config where
  "sample_reload = default_program_config\<lparr>pc_name := ''web'', pc_command := ''/bin/web''\<rparr>"

theorem stop_all_leaves_no_child_witness:
  "\<exists>m' sy'. stop_all (reloading_slice [sample_reload]) sample_manager (snd sample_started) = Some (m', sy') \<and>
     list_all (\<lambda>(n, p). p_pid p \<le> 0) (mg_processes m')"
  using stop_all_leaves_no_child[OF reloading.reentrant_loop_axioms sample_manager_ok sample_clock] by blast

text \<open>
  Auxiliary property: Synchronising with a new configuration ends, and afterwards the manager supervises exactly
  the programs of that configuration, each with exactly its configured settings, the last one's
  where a name occurs more than once; programs that are gone have been removed.
\<close>

theorem sync_processes_converges:
  assumes "event_loop run_for" "mgr_inv m sy" "clock_runs (sy_steady sy)"
  shows "\<exists>m' sy'. sync_processes run_for progs m sy = Some (m', sy') \<and> mgr_inv m' sy' \<and>
    (\<forall>x. map_option p_config (get_process x m') = programs_map progs x)"
  using event_loop.sync_processes_returns[OF assms, of progs]
  by (auto simp: changes_to_def get_process_def config_of_lookup[symmetric])

theorem sync_processes_converges_witness:
  "\<exists>m' sy'. sync_processes manager_slice [default_program_config\<lparr>pc_name := ''web''\<rparr>] sample_manager (snd sample_started)
     = Some (m', sy') \<and> get_process [] m' = None"
proof -
  let ?c = "default_program_config\<lparr>pc_name := ''web''\<rparr>"
  from sync_processes_converges[OF own_handlers.event_loop_axioms sample_manager_ok sample_clock, of "[?c]"]
  obtain m' sy' where r: "sync_processes manager_slice [?c] sample_manager (snd sample_started) = Some (m', sy')"
    "\<forall>x. map_option p_config (get_process x m') = programs_map [?c] x" by blast
  from r(2)[rule_format, of "[]"] have "get_process [] m' = None" by (simp add: programs_map_Cons)
  with r(1) show ?thesis by blast
qed

text \<open>
  The manager as a registry: what it promises its clients is a finite map from names to
  settings, and every operation acts on that map as its name says.
\<close>

lemma config_of_update:
  assumes "mgr_inv m sy"
  shows "config_of (fst (start_all m sy)) = config_of m" "config_of (fst (on_signal e m sy)) = config_of m"
    "config_of (fst (on_timer e m sy)) = config_of m" "config_of (fst (snd (start_process n m sy))) = config_of m"
proof -
  show "config_of (fst (start_all m sy)) = config_of m"
    using starting.each_configs[of "mg_processes m" sy] by (simp add: start_all_def config_of_def case_prod_unfold Let_def)
  show "config_of (fst (on_signal e m sy)) = config_of m"
    using on_signal_keeps(1)[OF assms surjective_pairing] by (simp add: keeps_all_def config_of_def)
  show "config_of (fst (on_timer e m sy)) = config_of m"
    using on_timer_keeps(1)[OF assms surjective_pairing] by (simp add: keeps_all_def config_of_def)
  show "config_of (fst (snd (start_process n m sy))) = config_of m"
    using start_process_keeps[OF assms, of n] by (cases "start_process n m sy") (simp add: keeps_all_def config_of_def)
qed

text \<open>
  C10: The manager implements a registry of programs: adding a program updates the map at its
  name, removing one deletes the name, synchronising replaces the whole map, and nothing else
  (starting, stopping, signals of children, the timer) changes it.
\<close>

theorem manager_refines_registry:
  assumes "event_loop run_for" "mgr_inv m sy" "clock_runs (sy_steady sy)"
  shows "config_of (fst (add_process c m sy)) = (config_of m)(pc_name c \<mapsto> c) \<and>
    config_of (fst (start_all m sy)) = config_of m \<and>
    config_of (fst (snd (start_process n m sy))) = config_of m \<and>
    config_of (fst (on_signal e m sy)) = config_of m \<and> config_of (fst (on_timer e m sy)) = config_of m \<and>
    (\<exists>m' sy'. stop_all run_for m sy = Some (m', sy') \<and> config_of m' = config_of m) \<and>
    (\<exists>r m' sy'. stop_process run_for n m sy = Some (r, m', sy') \<and> config_of m' = config_of m) \<and>
    (\<exists>r m' sy'. remove_process run_for n m sy = Some (r, m', sy') \<and> config_of m' = (config_of m)(n := None)) \<and>
    (\<exists>m' sy'. sync_processes run_for progs m sy = Some (m', sy') \<and> config_of m' = programs_map progs)"
proof -
  have add: "config_of (fst (add_process c m sy)) = (config_of m)(pc_name c \<mapsto> c)"
    using add_process_changes[OF assms(2), of c "fst (add_process c m sy)" "snd (add_process c m sy)"]
    by (simp add: changes_to_def)
  note loop = event_loop_stop_all[OF assms] event_loop.stop_process_returns[OF assms, of n]
    event_loop.remove_process_returns[OF assms, of n] event_loop.sync_processes_returns[OF assms, of progs]
  then show ?thesis
    using add config_of_update[OF assms(2)] by (auto simp: keeps_all_def changes_to_def config_of_def)
qed

theorem manager_refines_registry_witness:
  "config_of (fst (add_process (default_program_config\<lparr>pc_name := ''web''\<rparr>) sample_manager (snd sample_started))) ''web'' =
     Some (default_program_config\<lparr>pc_name := ''web''\<rparr>)"
  using manager_refines_registry[OF own_handlers.event_loop_axioms sample_manager_ok sample_clock,
      of "default_program_config\<lparr>pc_name := ''web''\<rparr>"] by simp

lemma remove_gone_idle: "set names \<subseteq> set keep \<Longrightarrow> remove_gone run_for keep names m sy = Some (m, sy)"
  by (induction names) auto

lemma add_changed_idle:
  "\<forall>c\<in>set progs. map_option p_config (map_of (mg_processes m) (pc_name c)) = Some c \<Longrightarrow>
     add_changed run_for progs m sy = Some (m, sy)"
  by (induction progs) auto

text \<open>
  C29: Synchronising with the configuration that is already in force leaves every process, its
  pid and the system untouched: no program is restarted or signalled by a reload without changes.
\<close>

theorem sync_unchanged_is_identity:
  assumes "map_wf (mg_processes m)" "distinct (map pc_name progs)"
    and "\<And>x. map_of (map (\<lambda>c. (pc_name c, c)) progs) x = map_option p_config (get_process x m)"
  shows "sync_processes run_for progs m sy = Some (m, sy)"
proof -
  let ?t = "map (\<lambda>c. (pc_name c, c)) progs"
  have "x \<in> set (map pc_name progs)" if "x \<in> set (map fst (mg_processes m))" for x
  proof -
    have "map_of (mg_processes m) x \<noteq> None" using that by (auto simp: map_of_eq_None_iff)
    then have "map_of ?t x \<noteq> None" using assms(3)[of x] by (auto simp: get_process_def)
    then show ?thesis by (simp add: map_of_eq_None_iff image_image)
  qed
  moreover have "map_option p_config (map_of (mg_processes m) (pc_name c)) = Some c" if "c \<in> set progs" for c
  proof -
    have "distinct (map fst ?t)" using assms(2) by (simp add: comp_def)
    then have "map_of ?t (pc_name c) = Some c" using that by (auto simp: map_of_eq_Some_iff)
    with assms(3)[of "pc_name c"] show ?thesis by (simp add: get_process_def)
  qed
  ultimately show ?thesis
    by (auto simp: sync_processes_def remove_gone_idle add_changed_idle subset_eq)
qed

theorem sync_unchanged_is_identity_witness:
  "sync_processes manager_slice [default_program_config] sample_manager (snd sample_started) =
     Some (sample_manager, snd sample_started)"
proof (rule sync_unchanged_is_identity)
  show "map_wf (mg_processes sample_manager)" using sample_manager_ok by (simp add: mgr_inv_def)
  show "map_of (map (\<lambda>c. (pc_name c, c)) [default_program_config]) x = map_option p_config (get_process x sample_manager)" for x
    by (simp add: get_process_def sample_manager_def sample_started_fields default_program_config_def)
qed simp

section \<open>Delivery of exits\<close>

definition unique_pids :: "process smap \<Rightarrow> bool" where
  "unique_pids ps \<longleftrightarrow> distinct (filter (\<lambda>x. x > 0) (map (\<lambda>(n, p). p_pid p) ps))"

definition exited_with :: "process \<Rightarrow> int \<Rightarrow> process \<Rightarrow> bool" where
  "exited_with p st p' \<longleftrightarrow> p_pid p' = -1 \<and> p_exitstatus p' = decode_exit st \<and> p_config p' = p_config p \<and>
     p_state p' = exit_state (p_config p) (p_state p) (p_retry_count p)"

definition delivered :: "(int \<times> int) list \<Rightarrow> string \<times> process \<Rightarrow> string \<times> process \<Rightarrow> bool" where
  "delivered ws e e' \<longleftrightarrow> fst e' = fst e \<and>
     (case map_of ws (p_pid (snd e)) of Some st \<Rightarrow> exited_with (snd e) st (snd e') | None \<Rightarrow> snd e' = snd e)"

lemma on_exit_exited: "exited_with p st (fst (on_exit st p sy))"
  using on_exit_fields[where st = st and p = p and sy = sy] by (simp add: exited_with_def core_def)

lemma notify_delivered:
  assumes "notify pid st ps sy = (ps', sy')" "unique_pids ps" "pid > 0"
  shows "list_all2 (delivered [(pid, st)]) ps ps' \<and> unique_pids ps'"
  using assms(1)
proof (cases rule: notify_cases)
  case nobody
  have "delivered [(pid, st)] e e" if "e \<in> set ps" for e
    using nobody(1) that by (cases e) (auto simp: delivered_def)
  with nobody(2) assms(2) show ?thesis by (simp add: list_all2_same)
next
  case (told pre n p post)
  have others: "p_pid q \<noteq> pid" if "(k, q) \<in> set pre \<union> set post" for k q
  proof -
    have "pid \<notin> set (filter (\<lambda>x. x > 0) (map (\<lambda>(n, p). p_pid p) (pre @ post)))"
      using assms(2,3) told(2) unfolding unique_pids_def told(1) by simp
    moreover have "p_pid q \<in> set (map (\<lambda>(n, p). p_pid p) (pre @ post))" using that by force
    ultimately show ?thesis using assms(3) unfolding set_filter by blast
  qed
  have same: "delivered [(pid, st)] e e" if "e \<in> set pre \<union> set post" for e
    using others[of "fst e" "snd e"] that by (simp add: delivered_def)
  have "delivered [(pid, st)] (n, p) (n, fst (on_exit st p sy))"
    using told(2) on_exit_exited by (simp add: delivered_def)
  then have "list_all2 (delivered [(pid, st)]) ps ps'"
    using told(1,3) same by (simp add: list_all2_appendI list_all2_same)
  moreover have "unique_pids ps'"
  proof -
    have "p_pid (fst (on_exit st p sy)) = -1" using on_exit_exited[of p st sy] by (simp add: exited_with_def)
    with assms(2) show ?thesis by (simp add: unique_pids_def told(1,3) split: if_splits)
  qed
  ultimately show ?thesis by blast
qed

lemma delivered_trans:
  assumes "list_all2 (delivered [(pid, st)]) ps qs" "list_all2 (delivered ws) qs rs"
    and "pid > 0" "pid \<notin> fst ` set ws" "\<forall>x\<in>fst ` set ws. x > 0"
  shows "list_all2 (delivered ((pid, st) # ws)) ps rs"
proof -
  have none: "map_of ws pid = None" "map_of ws (-1) = None"
    using assms(4,5) by (force simp: map_of_eq_None_iff)+
  have "delivered ((pid, st) # ws) a c" if "delivered [(pid, st)] a b" "delivered ws b c" for a b c
    using that none by (auto simp: delivered_def exited_with_def split: if_splits option.splits)
  then show ?thesis using list_all2_trans[OF _ assms(1,2)] by blast
qed

lemma reap_loop_delivers:
  assumes "reap_loop r ps sy = (r', ps', sy')" "unique_pids ps" "distinct (map fst (sy_waitable sy))"
    and "\<forall>x\<in>fst ` set (sy_waitable sy). x > 0"
  shows "list_all2 (delivered (sy_waitable sy)) ps ps' \<and> sy_waitable sy' = [] \<and> r' = (r \<or> sy_waitable sy \<noteq> [])"
  using assms
proof (induction "sy_waitable sy" arbitrary: r ps sy)
  case Nil
  then have "r' = r" "ps' = ps" "sy' = sy" by (simp_all add: reap_loop_step)
  with Nil.hyps show ?case by (simp add: list_all2_same delivered_def)
next
  case (Cons w ws)
  note wl = Cons.hyps(2)[symmetric]
  obtain pid st where w: "w = (pid, st)" by fastforce
  let ?s = "sy\<lparr>sy_waitable := ws\<rparr>"
  obtain qs sq where n: "notify pid st ps ?s = (qs, sq)" by fastforce
  have pos: "pid > 0" using Cons.prems(4) wl w by simp
  have rl: "reap_loop True qs sq = (r', ps', sy')"
    using Cons.prems(1) pos wl w n by (simp add: reap_loop_step[of r])
  have ws: "sy_waitable sq = ws" using notify_waitable[of pid st ps ?s] n by simp
  note nd = notify_delivered[OF n Cons.prems(2) pos]
  have "list_all2 (delivered ws) qs ps' \<and> sy_waitable sy' = [] \<and> r'"
    using Cons.hyps(1)[OF ws[symmetric] rl] nd Cons.prems(3,4) wl w ws by simp
  then show ?case
    using delivered_trans[of pid st ps qs ws ps'] nd pos Cons.prems(3,4) wl w by auto
qed

text \<open>
  C7: One call of the SIGCHLD handler collects every child that has exited (signals that were
  merged lose nothing) and tells exactly the process that owns each pid: that process loses its
  pid, records the exit status and changes state, all others are left exactly as they were, and
  exits of unknown children are discarded. The handler reports whether it reaped anything.
\<close>

theorem sigchld_delivers_every_exit:
  assumes "handle_sigchld m sy = (r, m', sy')" "unique_pids (mg_processes m)"
    and "distinct (map fst (sy_waitable sy))" "\<forall>x\<in>fst ` set (sy_waitable sy). x > 0"
  shows "list_all2 (delivered (sy_waitable sy)) (mg_processes m) (mg_processes m') \<and>
    sy_waitable sy' = [] \<and> r = (sy_waitable sy \<noteq> [])"
proof -
  obtain ps where rl: "reap_loop False (mg_processes m) sy = (r, ps, sy')" and m': "mg_processes m' = ps"
    using assms(1) by (auto simp: handle_sigchld_def split: prod.splits)
  from reap_loop_delivers[OF rl assms(2-4)] m' show ?thesis by simp
qed

theorem sigchld_delivers_every_exit_witness:
  "list_all2 (delivered [(100, 0), (7, 9)]) (mg_processes sample_manager)
     (mg_processes (fst (snd (handle_sigchld sample_manager ((snd sample_started)\<lparr>sy_waitable := [(100, 0), (7, 9)]\<rparr>)))))"
proof -
  let ?s = "(snd sample_started)\<lparr>sy_waitable := [(100, 0), (7, 9)]\<rparr>"
  obtain r m' sy' where h: "handle_sigchld sample_manager ?s = (r, m', sy')" by (metis prod_cases3)
  have "unique_pids (mg_processes sample_manager)" by (simp add: unique_pids_def sample_manager_def)
  from sigchld_delivers_every_exit[OF h this] show ?thesis by (simp add: h)
qed

end
