(* ===== verification/Property_Tree.thy ===== *)
theory Property_Tree
  imports Prelude
begin

text \<open>
  Boost.PropertyTree reads XML and INI text into trees of an abstract type and gives access to
  them by path. It is code outside this repository: its operations are the fields of a record
  that every definition using them takes as an argument.
\<close>

record 'pt ptree_api =
  read_xml :: "string \<Rightarrow> 'pt res"
  read_ini :: "string \<Rightarrow> 'pt res"
  get_str :: "'pt \<Rightarrow> string \<Rightarrow> string option"
  get_int :: "'pt \<Rightarrow> string \<Rightarrow> int option"
  get_child :: "'pt \<Rightarrow> string \<Rightarrow> 'pt option"
  children :: "'pt \<Rightarrow> (string \<times> 'pt) list"

text \<open>The throwing accessors \<open>get<T>(path)\<close> and \<open>get_child(path)\<close>.\<close>

definition require :: "string \<Rightarrow> 'a option \<Rightarrow> 'a res" where
  "require path v = (case v of Some x \<Rightarrow> Inr x | None \<Rightarrow> Inl (RuntimeError (''No such node ('' @ path @ '')'')))"

lemma require_simps [simp]: "require path (Some x) = Inr x"
  by (simp add: require_def)

text \<open>A concrete tree, a text and named children in order, on which the operations can be instantiated.\<close>

datatype ptree = Node (node_data: string) (node_children: "(string \<times> ptree) list")

end
