(* ===== verification/Rpc_Connection.thy ===== *)
theory Rpc_Connection
  imports Util_String Boost_Strings Property_Tree
begin

text \<open>
  \<^verbatim>\<open>supervisor-lib/src/rpc/rpc_connection.cpp\<close> and \<^verbatim>\<open>xmlrpc.cpp\<close>: one connection to
  the control socket. Bytes are collected until a complete HTTP request is there, its body is
  parsed as an XML-RPC call, the call is dispatched, and one response, a result or a fault, is
  written. The dispatcher acts on a state of any type and may not return (\<open>None\<close>). The XML reader and \<open>ifind_first\<close> are
  parameters.
\<close>

section \<open>XML-RPC values\<close>

datatype Value = VString string | VInt int | VBool bool

fun show_value :: "Value \<Rightarrow> string" where
  "show_value (VString s) = ''<string>'' @ escape_xml s @ ''</string>''"
| "show_value (VInt i) = ''<int>'' @ show_int i @ ''</int>''"
| "show_value (VBool b) = ''<boolean>'' @ (if b then ''1'' else ''0'') @ ''</boolean>''"

datatype Member = Member (member_name: string) (member_value: Value)

definition show_member :: "Member \<Rightarrow> string" where
  "show_member m =
     ''<member>'' @ ''<name>'' @ escape_xml (member_name m) @ ''</name>'' @
     ''<value>'' @ show_value (member_value m) @ ''</value>'' @ ''</member>''"

definition show_struct :: "Member list \<Rightarrow> string" where
  "show_struct items = ''<struct>'' @ concat (map show_member items) @ ''</struct>''"

section \<open>Responses\<close>

definition CRLF :: string where
  "CRLF = [CR, NL]"

definition generate_xmlrpc_response :: "string \<Rightarrow> string" where
  "generate_xmlrpc_response r =
     ''<?xml version='' @ [DQUOTE] @ ''1.0'' @ [DQUOTE] @ ''?>'' @ [NL] @
     ''<methodResponse>'' @ [NL] @
     ''  <params>'' @ [NL] @
     ''    <param><value>'' @ r @ ''</value></param>'' @ [NL] @
     ''  </params>'' @ [NL] @
     ''</methodResponse>'' @ [NL]"

definition generate_xmlrpc_fault :: "int \<Rightarrow> string \<Rightarrow> string" where
  "generate_xmlrpc_fault code message =
     ''<?xml version='' @ [DQUOTE] @ ''1.0'' @ [DQUOTE] @ ''?>'' @ [NL] @
     ''<methodResponse>'' @ [NL] @
     ''  <fault>'' @ [NL] @
     ''    <value>'' @
     show_struct [Member ''faultCode'' (VInt code), Member ''faultString'' (VString message)] @
     ''</value>'' @ [NL] @
     ''  </fault>'' @ [NL] @
     ''</methodResponse>'' @ [NL]"

definition generate_http_response :: "string \<Rightarrow> string" where
  "generate_http_response body =
     ''HTTP/1.1 200 OK'' @ CRLF @
     ''Content-Type: text/xml'' @ CRLF @
     ''Content-Length: '' @ show_nat (length body) @ CRLF @
     ''Connection: close'' @ CRLF @
     CRLF @
     body"

section \<open>The connection\<close>

text \<open>
  Whether a read is outstanding, the bytes received so far, the responses whose writing has been
  started and whether the socket is open.
\<close>

record connection =
  cn_request_data :: string
  cn_reading :: bool
  cn_written :: "string list"
  cn_open :: bool

type_synonym 's dispatcher = "string \<Rightarrow> string list \<Rightarrow> 's \<Rightarrow> (string res \<times> 's) option"

definition begin_read :: "connection \<Rightarrow> connection" where
  "begin_read c = c\<lparr>cn_reading := True\<rparr>"

definition start_connection :: "connection \<Rightarrow> connection" where
  "start_connection c = begin_read c"

definition new_connection :: connection where
  "new_connection = \<lparr>cn_request_data = [], cn_reading = False, cn_written = [], cn_open = True\<rparr>"

definition send_response :: "string \<Rightarrow> connection \<Rightarrow> connection" where
  "send_response body c = c\<lparr>cn_written := cn_written c @ [generate_http_response body]\<rparr>"

definition handle_write :: "connection \<Rightarrow> connection" where
  "handle_write c = c\<lparr>cn_open := False\<rparr>"

section \<open>Parsing a call\<close>

definition param_value :: "'pt ptree_api \<Rightarrow> 'pt \<Rightarrow> string list" where
  "param_value api t =
     (case get_str api t ''value.string'' of
        Some s \<Rightarrow> [s]
      | None \<Rightarrow>
          (case get_int api t ''value.int'' of
             Some i \<Rightarrow> [show_int i]
           | None \<Rightarrow> (case get_str api t ''value'' of Some v \<Rightarrow> [v] | None \<Rightarrow> [])))"

definition parse_params :: "'pt ptree_api \<Rightarrow> 'pt \<Rightarrow> string list" where
  "parse_params api tree =
     (case get_child api tree ''methodCall.params'' of
        None \<Rightarrow> []
      | Some ps \<Rightarrow> concat (map (\<lambda>(tag, t). if tag = ''param'' then param_value api t else []) (children api ps)))"

definition parse_xmlrpc_request :: "'pt ptree_api \<Rightarrow> string \<Rightarrow> (string \<times> string list) res" where
  "parse_xmlrpc_request api xml =
     (case bind_res (read_xml api xml)
             (\<lambda>tree. bind_res (require ''methodCall.methodName'' (get_str api tree ''methodCall.methodName''))
               (\<lambda>method_name. Inr (method_name, parse_params api tree))) of
        Inr r \<Rightarrow> Inr r
      | Inl e \<Rightarrow> Inl (RuntimeError (''Failed to parse XML-RPC request: '' @ what e)))"

section \<open>Processing a request\<close>

text \<open>Where the headers end and where the body starts.\<close>

definition find_header_end :: "string \<Rightarrow> (nat \<times> nat) option" where
  "find_header_end r =
     (case find_str (CRLF @ CRLF) r of
        Some h \<Rightarrow> Some (h, h + 4)
      | None \<Rightarrow> (case find_str [NL, NL] r of Some h \<Rightarrow> Some (h, h + 2) | None \<Rightarrow> None))"

definition run_request ::
  "'pt ptree_api \<Rightarrow> 's dispatcher option \<Rightarrow> string \<Rightarrow> 's \<Rightarrow> (string res \<times> 's) option" where
  "run_request api disp request s =
     (case find_header_end request of
        None \<Rightarrow> Some (Inl (RuntimeError ''Invalid HTTP request''), s)
      | Some (_, body_start) \<Rightarrow>
          (case parse_xmlrpc_request api (drop body_start request) of
             Inl e \<Rightarrow> Some (Inl e, s)
           | Inr (method_name, params) \<Rightarrow>
               (case disp of
                  None \<Rightarrow> Some (Inl (RuntimeError ''No method dispatcher''), s)
                | Some d \<Rightarrow> d method_name params s)))"

text \<open>Every exception of the parser or of a handler becomes a fault with code 1.\<close>

definition process_request ::
  "'pt ptree_api \<Rightarrow> 's dispatcher option \<Rightarrow> string \<Rightarrow> connection \<Rightarrow> 's \<Rightarrow> (connection \<times> 's) option" where
  "process_request api disp request c s =
     map_option (\<lambda>(r, s).
      (send_response
         (case r of Inr v \<Rightarrow> generate_xmlrpc_response v | Inl e \<Rightarrow> generate_xmlrpc_fault 1 (what e)) c, s))
       (run_request api disp request s)"

section \<open>Reading\<close>

definition MAX_REQUEST_SIZE :: nat where
  "MAX_REQUEST_SIZE = 1024 * 1024"

text \<open>
  The value of the Content-Length header: \<open>None\<close> without the header. A value that is no
  number, or too large for 64 bits, is an exception of \<open>std::stoull\<close>.
\<close>

definition content_length :: "boost_algo \<Rightarrow> string \<Rightarrow> nat option res" where
  "content_length B headers =
     (case ifind_first B headers ''content-length:'' of
        None \<Rightarrow> Inr None
      | Some (_, after_name) \<Rightarrow>
          (case find_char_from (\<lambda>c. c \<noteq> CHR '' '' \<and> c \<noteq> TAB) headers after_name of
             None \<Rightarrow> Inr (Some 0)
           | Some val_start \<Rightarrow>
               let val = (case find_char_from (\<lambda>c. c = CR \<or> c = NL) headers val_start of
                            Some val_end \<Rightarrow> substr headers val_start (val_end - val_start)
                          | None \<Rightarrow> drop val_start headers)
               in bind_res (stoull val) (\<lambda>n. Inr (Some n))))"

datatype socket_error = SockOk | SockEof | SockFailed

text \<open>
  A completed read. The exception of \<open>content_length\<close> is not caught here: it leaves the
  handler.
\<close>

definition handle_read ::
  "boost_algo \<Rightarrow> 'pt ptree_api \<Rightarrow> 's dispatcher option \<Rightarrow> socket_error \<Rightarrow> string \<Rightarrow> connection \<Rightarrow> 's \<Rightarrow>
   (connection \<times> 's) res option" where
  "handle_read B api disp error bytes c s =
     (let c = c\<lparr>cn_reading := False\<rparr>; got_eof = (error = SockEof) in
      if error = SockFailed then Some (Inr (c, s))
      else if length (cn_request_data c) + length bytes > MAX_REQUEST_SIZE
      then Some (Inr (send_response (generate_xmlrpc_fault 1 ''Request too large (max 1MB)'') c, s))
      else let c = c\<lparr>cn_request_data := cn_request_data c @ bytes\<rparr>;
               wait_more = Some (Inr (if got_eof then c else begin_read c, s))
           in case find_header_end (cn_request_data c) of
                None \<Rightarrow> wait_more
              | Some (header_end, body_offset) \<Rightarrow>
                  (case content_length B (take header_end (cn_request_data c)) of
                     Inl e \<Rightarrow> Some (Inl e)
                   | Inr cl \<Rightarrow>
                       let n = (case cl of None \<Rightarrow> 0 | Some n \<Rightarrow> n) in
                       if cl \<noteq> None \<and> length (cn_request_data c) - body_offset < n then wait_more
                       else let c = c\<lparr>cn_request_data := take (body_offset + n) (cn_request_data c)\<rparr>
                            in map_option Inr (process_request api disp (cn_request_data c) c s)))"

section \<open>Framing: the same request however it is cut\<close>

lemma prefix_take_iff: "prefix p s \<longleftrightarrow> take (length p) s = p"
  by (metis append_eq_conv_conj prefix_def take_is_prefix)

lemma find_str_append: "find_str pat a = Some k \<Longrightarrow> find_str pat (a @ b) = Some k"
proof -
  assume a: "find_str pat a = Some k"
  then have le: "k + length pat \<le> length a" by (rule find_str_le)
  have "take (length pat) (drop j (a @ b)) = take (length pat) (drop j a)" if "j \<le> k" for j
    using that le by simp
  with a show ?thesis
    unfolding find_str_Some_iff prefix_take_iff by (auto simp del: take_append drop_append)
qed

lemma find_str_take:
  assumes "find_str pat s = None \<or> (\<exists>i. find_str pat s = Some i \<and> m < i + length pat)" "pat \<noteq> []"
  shows "find_str pat (take m s) = None"
proof (rule ccontr)
  assume "find_str pat (take m s) \<noteq> None"
  then obtain j where j: "find_str pat (take m s) = Some j" by blast
  have "find_str pat (take m s @ drop m s) = Some j" by (rule find_str_append[OF j])
  then have "find_str pat s = Some j" by simp
  moreover have "j + length pat \<le> m" using find_str_le[OF j] by simp
  ultimately show False using assms(1) by auto
qed

text \<open>A request with a single, correct Content-Length header and CRLF line ends.\<close>

definition framed :: "boost_algo \<Rightarrow> string \<Rightarrow> string \<Rightarrow> bool" where
  "framed B headers body \<longleftrightarrow>
     find_str (CRLF @ CRLF) (headers @ CRLF @ CRLF) = Some (length headers) \<and>
     find_str [NL, NL] (headers @ CRLF @ CRLF) = None \<and>
     content_length B headers = Inr (Some (length body))"

definition request_text :: "string \<Rightarrow> string \<Rightarrow> string" where
  "request_text headers body = headers @ CRLF @ CRLF @ body"

lemma length_CRLF [simp]: "length CRLF = 2"
  by (simp add: CRLF_def)

lemma header_end_of_part:
  assumes "framed B headers body"
  shows "find_header_end (take m (request_text headers body)) =
    (if m < length headers + 4 then None else Some (length headers, length headers + 4))"
proof (cases "m < length headers + 4")
  case True
  let ?h = "headers @ CRLF @ CRLF"
  have "take m (request_text headers body) = take m ?h" using True by (simp add: request_text_def)
  moreover have "find_str (CRLF @ CRLF) (take m ?h) = None" "find_str [NL, NL] (take m ?h) = None"
    using assms True by (intro find_str_take; auto simp: framed_def CRLF_def)+
  ultimately show ?thesis using True by (simp add: find_header_end_def)
next
  case False
  let ?h = "headers @ CRLF @ CRLF"
  have "request_text headers body = ?h @ body" by (simp add: request_text_def)
  then have "take m (request_text headers body) = take m ?h @ take (m - length ?h) body" by (simp only: take_append)
  moreover have "take m ?h = ?h" using False by (intro take_all) simp
  ultimately have "take m (request_text headers body) = ?h @ take (m - length ?h) body" by (simp only:)
  moreover have "find_str (CRLF @ CRLF) ((headers @ CRLF @ CRLF) @ x) = Some (length headers)" for x
    using assms find_str_append[of "CRLF @ CRLF" "headers @ CRLF @ CRLF" "length headers" x]
    by (simp add: framed_def)
  ultimately show ?thesis using False by (simp add: find_header_end_def)
qed

lemma handle_read_wait:
  assumes "framed B headers body" "cn_request_data c @ d = take m (request_text headers body)"
    and "m < length (request_text headers body)" "length (request_text headers body) \<le> MAX_REQUEST_SIZE"
  shows "handle_read B api disp SockOk d c s =
    Some (Inr (c\<lparr>cn_request_data := take m (request_text headers body), cn_reading := True\<rparr>, s))"
proof -
  let ?r = "request_text headers body"
  have len: "length (cn_request_data c) + length d = m" using assms(2,3) by (metis length_append length_take min.absorb4)
  have lens: "length ?r = length headers + 4 + length body" "length (take m ?r) = m"
    using assms(3) by (simp_all add: request_text_def)
  have small: "\<not> length (cn_request_data c) + length d > MAX_REQUEST_SIZE" using len assms(3,4) by simp
  note he = header_end_of_part[OF assms(1), of m]
  show ?thesis
  proof (cases "m < length headers + 4")
    case True
    with he small show ?thesis
      by (simp add: handle_read_def assms(2) begin_read_def Let_def)
  next
    case False
    then have "take (length headers) (take m ?r) = headers" by (simp add: request_text_def)
    moreover have "m - (length headers + 4) < length body" using False assms(3) lens(1) by simp
    ultimately show ?thesis
      using he small False assms(1) lens(2)
      by (simp add: handle_read_def assms(2) begin_read_def Let_def framed_def del: length_take take_take)
  qed
qed

lemma handle_read_complete:
  assumes "framed B headers body" "cn_request_data c @ d = request_text headers body"
    and "length (request_text headers body) \<le> MAX_REQUEST_SIZE"
  shows "handle_read B api disp SockOk d c s =
    map_option Inr (process_request api disp (request_text headers body)
      (c\<lparr>cn_reading := False, cn_request_data := request_text headers body\<rparr>) s)"
proof -
  let ?r = "request_text headers body"
  have len: "length (cn_request_data c) + length d = length ?r" using assms(2) by (metis length_append)
  have fe: "find_header_end ?r = Some (length headers, length headers + 4)"
    using header_end_of_part[OF assms(1), of "length ?r"] by (simp add: request_text_def)
  have h: "take (length headers) ?r = headers" "length ?r = length headers + 4 + length body"
    by (simp_all add: request_text_def)
  show ?thesis
    using assms(1,3) len h by (simp add: handle_read_def assms(2) fe framed_def Let_def)
qed

text \<open>A client's bytes, in the pieces in which they are read.\<close>

fun feed ::
  "boost_algo \<Rightarrow> 'pt ptree_api \<Rightarrow> 's dispatcher option \<Rightarrow> string list \<Rightarrow> connection \<times> 's \<Rightarrow> (connection \<times> 's) res option" where
  "feed B api disp [] cs = Some (Inr cs)"
| "feed B api disp (d # ds) cs =
     Option.bind (handle_read B api disp SockOk d (fst cs) (snd cs))
       (\<lambda>r. case r of Inl e \<Rightarrow> Some (Inl e) | Inr cs \<Rightarrow> feed B api disp ds cs)"

lemma feed_from:
  assumes "framed B headers body" "length (request_text headers body) \<le> MAX_REQUEST_SIZE"
    and "cn_request_data c @ concat ds = request_text headers body" "ds \<noteq> []" "list_all (\<lambda>d. d \<noteq> []) ds"
  shows "feed B api disp ds (c, s) =
    map_option Inr (process_request api disp (request_text headers body)
      (c\<lparr>cn_reading := False, cn_request_data := request_text headers body\<rparr>) s)"
  using assms(3-5)
proof (induction ds arbitrary: c)
  case (Cons d ds)
  let ?r = "request_text headers body"
  show ?case
  proof (cases "ds = []")
    case True
    with Cons.prems handle_read_complete[OF assms(1) _ assms(2), of c d api disp s]
    show ?thesis
      by (cases "process_request api disp ?r (c\<lparr>cn_reading := False, cn_request_data := ?r\<rparr>) s") simp_all
  next
    case False
    let ?m = "length (cn_request_data c @ d)"
    have "concat ds \<noteq> []" using False Cons.prems(3) by (cases ds) auto
    then have m: "?m < length ?r" using Cons.prems(1) by (metis concat.simps(2) append_assoc length_append length_greater_0_conv less_add_same_cancel1)
    have p: "cn_request_data c @ d = take ?m ?r" using Cons.prems(1) by (metis append_eq_conv_conj append_assoc concat.simps(2))
    define part where "part = take ?m ?r"
    note w = handle_read_wait[OF assms(1) p m assms(2), of api disp s, folded part_def]
    let ?c = "c\<lparr>cn_request_data := part, cn_reading := True\<rparr>"
    have "cn_request_data c @ d = part" using p by (simp only: part_def)
    then have "cn_request_data ?c @ concat ds = ?r" using Cons.prems(1) by (metis append_assoc concat.simps(2) connection.select_convs(1) connection.surjective connection.update_convs(1,2))
    from Cons.IH[OF this False] Cons.prems(3) w show ?thesis by simp
  qed
qed simp

section \<open>One response, bounded memory\<close>

definition conn_inv :: "connection \<Rightarrow> bool" where
  "conn_inv c \<longleftrightarrow> length (cn_request_data c) \<le> MAX_REQUEST_SIZE \<and> length (cn_written c) \<le> 1 \<and>
     (cn_reading c \<longrightarrow> cn_written c = [])"

text \<open>A completion arrives only for an outstanding read; a finished write closes the socket.\<close>

inductive conn_step ::
  "boost_algo \<Rightarrow> 'pt ptree_api \<Rightarrow> 's dispatcher option \<Rightarrow> connection \<times> 's \<Rightarrow> connection \<times> 's \<Rightarrow> bool"
  for B api disp where
  conn_read: "cn_reading c \<Longrightarrow> handle_read B api disp e d c s = Some (Inr (c', s')) \<Longrightarrow> conn_step B api disp (c, s) (c', s')"
| conn_write: "cn_written c \<noteq> [] \<Longrightarrow> conn_step B api disp (c, s) (handle_write c, s)"
| conn_other: "conn_step B api disp (c, s) (c, s')"

lemma process_request_fields:
  assumes "process_request api disp r c s = Some (c', s')"
  shows "cn_reading c' = cn_reading c" "cn_request_data c' = cn_request_data c"
    "length (cn_written c') = Suc (length (cn_written c))"
  using assms by (auto simp: process_request_def send_response_def Let_def split: prod.splits)

lemma handle_read_cases:
  assumes "handle_read B api disp e d c s = Some (Inr (c', s'))"
  obtains (dropped) "c' = c\<lparr>cn_reading := False\<rparr>" "s' = s"
    | (too_large) m where "c' = send_response m (c\<lparr>cn_reading := False\<rparr>)" "s' = s"
    | (waiting) b where "c' = c\<lparr>cn_reading := b, cn_request_data := cn_request_data c @ d\<rparr>" "s' = s"
        "length (cn_request_data c @ d) \<le> MAX_REQUEST_SIZE"
    | (complete) k where "process_request api disp (take k (cn_request_data c @ d))
        (c\<lparr>cn_reading := False, cn_request_data := take k (cn_request_data c @ d)\<rparr>) s = Some (c', s')"
        "length (cn_request_data c @ d) \<le> MAX_REQUEST_SIZE"
proof -
  consider "e = SockFailed" | "e \<noteq> SockFailed" "length (cn_request_data c @ d) > MAX_REQUEST_SIZE"
    | "e \<noteq> SockFailed" "length (cn_request_data c @ d) \<le> MAX_REQUEST_SIZE" "find_header_end (cn_request_data c @ d) = None"
    | h bo where "e \<noteq> SockFailed" "length (cn_request_data c @ d) \<le> MAX_REQUEST_SIZE"
        "find_header_end (cn_request_data c @ d) = Some (h, bo)"
    by (cases "e = SockFailed"; cases "length (cn_request_data c @ d) > MAX_REQUEST_SIZE";
        cases "find_header_end (cn_request_data c @ d)") auto
  then show thesis
  proof cases
    case 1
    with assms show thesis by (intro dropped) (simp_all add: handle_read_def Let_def)
  next
    case 2
    with assms show thesis by (intro too_large[of "generate_xmlrpc_fault 1 ''Request too large (max 1MB)''"])
        (auto simp: handle_read_def Let_def)
  next
    case 3
    with assms show thesis
      by (intro waiting[of "e \<noteq> SockEof"]) (auto simp: handle_read_def Let_def begin_read_def)
  next
    case 4
    with assms obtain cl where cl: "content_length B (take h (cn_request_data c @ d)) = Inr cl"
      by (auto simp: handle_read_def Let_def split: sum.splits)
    define n where "n = (case cl of None \<Rightarrow> 0 | Some n \<Rightarrow> n)"
    show thesis
    proof (cases "cl \<noteq> None \<and> length (cn_request_data c @ d) - bo < n")
      case True
      with 4 assms cl show thesis
        by (intro waiting[of "e \<noteq> SockEof"]) (auto simp: handle_read_def Let_def begin_read_def n_def)
    next
      case False
      with 4 assms cl show thesis
        by (intro complete[of "bo + n"]) (auto simp: handle_read_def Let_def n_def split: if_splits)
    qed
  qed
qed

lemma handle_read_keeps:
  assumes "handle_read B api disp e d c s = Some (Inr (c', s'))" "cn_reading c" "conn_inv c"
  shows "conn_inv c'"
  using assms(1)
proof (cases rule: handle_read_cases)
  case (complete k)
  note f = process_request_fields[OF complete(1)]
  have "length (cn_request_data c') \<le> MAX_REQUEST_SIZE" using f(2) complete(2) by simp
  then show ?thesis using f assms(2,3) by (simp add: conn_inv_def)
qed (use assms(2,3) in \<open>auto simp: conn_inv_def send_response_def\<close>)

lemma conn_step_keeps: "conn_step B api disp s t \<Longrightarrow> conn_inv (fst s) \<Longrightarrow> conn_inv (fst t)"
proof (induction rule: conn_step.induct)
  case (conn_read c e d s c' s')
  then show ?case using handle_read_keeps by simp
next
  case (conn_write c s)
  then show ?case by (simp add: conn_inv_def handle_write_def)
qed simp

interpretation conn: transition_system "conn_step B api disp" "\<lambda>s. conn_inv (fst s)" for B api disp
  by unfold_locales (rule conn_step_keeps)

text \<open>
  C20: Whatever a client sends, in whatever pieces, a connection never holds more than one
  megabyte of request, never writes more than one response, and has no read outstanding once it
  has answered.
\<close>

theorem connection_bounded:
  assumes "(conn_step B api disp)\<^sup>*\<^sup>* (start_connection new_connection, s) (c, s')"
  shows "length (cn_request_data c) \<le> 1024 * 1024 \<and> length (cn_written c) \<le> 1 \<and>
    (cn_reading c \<longrightarrow> cn_written c = [])"
proof -
  have "conn_inv (fst (start_connection new_connection, s))"
    by (simp add: conn_inv_def start_connection_def begin_read_def new_connection_def)
  from conn.steps_preserve[OF assms this] show ?thesis by (simp add: conn_inv_def MAX_REQUEST_SIZE_def)
qed

text \<open>An API without a parser, enough for requests that never become complete.\<close>

definition null_api :: "unit ptree_api" where
  "null_api = \<lparr>read_xml = (\<lambda>_. Inl (RuntimeError ''xml'')), read_ini = (\<lambda>_. Inl (RuntimeError ''ini'')),
     get_str = (\<lambda>_ _. None), get_int = (\<lambda>_ _. None), get_child = (\<lambda>_ _. None), children = (\<lambda>_. [])\<rparr>"

theorem connection_bounded_witness:
  "length (cn_written \<lparr>cn_request_data = ''POST'', cn_reading = True, cn_written = [], cn_open = True\<rparr>) \<le> 1"
proof -
  let ?c = "\<lparr>cn_request_data = ''POST'', cn_reading = True, cn_written = [], cn_open = True\<rparr>"
  have "find_header_end ''POST'' = None" by code_simp
  then have "handle_read classic_boost null_api (None :: unit dispatcher option) SockOk ''POST''
      (start_connection new_connection) () = Some (Inr (?c, ()))"
    by (simp add: handle_read_def start_connection_def begin_read_def new_connection_def MAX_REQUEST_SIZE_def Let_def)
  then have "conn_step classic_boost null_api None (start_connection new_connection, ()) (?c, ())"
    by (intro conn_read) (auto simp: start_connection_def begin_read_def)
  then have "(conn_step classic_boost null_api None)\<^sup>*\<^sup>* (start_connection new_connection, ()) (?c, ())"
    by (rule r_into_rtranclp)
  from connection_bounded[OF this] show ?thesis by simp
qed

text \<open>
  A Content-Length header whose value is not a number makes the handler throw: the exception is
  not turned into a fault.
\<close>

lemma bad_content_length_throws:
  "handle_read classic_boost null_api (None :: unit dispatcher option) SockOk
     (''Content-Length: x'' @ CRLF @ CRLF) (start_connection new_connection) () =
   Some (Inl (InvalidArgument ''stoull''))"
proof -
  let ?r = "''Content-Length: x'' @ CRLF @ CRLF"
  have h: "find_header_end ?r = Some (17, 21)" by code_simp
  have c: "content_length classic_boost ''Content-Length: x'' = Inl (InvalidArgument ''stoull'')" by code_simp
  have "take 17 ?r = ''Content-Length: x''" by simp
  then show ?thesis
    using h c by (simp add: handle_read_def start_connection_def begin_read_def new_connection_def MAX_REQUEST_SIZE_def Let_def)
qed

end
