(* ===== verification/Rpc_Server.thy ===== *)
theory Rpc_Server
  imports Rpc_Connection Secure
begin

text \<open>
  \<^verbatim>\<open>supervisor-lib/src/rpc/rpc_server.cpp\<close>: the table of handlers and the life of the
  control socket. A handler takes the parameters and a state and returns a result, or never
  returns (\<open>None\<close>). The system calls on the socket are recorded in order; whether each
  succeeds is decided by the environment. A path too long for a socket address makes the
  endpoint's constructor throw.
\<close>

section \<open>State\<close>

type_synonym 's rpc_handler = "string list \<Rightarrow> 's \<Rightarrow> (string res \<times> 's) option"

datatype socket_call = Probe | Unlink | OpenSocket | BindSocket | Chmod600 | Listen | AcceptNext | CloseAcceptor

record 's rpc_server =
  rs_socket_path :: string
  rs_handlers :: "'s rpc_handler smap"
  rs_running :: bool
  rs_acceptor_open :: bool
  rs_accepting :: bool
  rs_calls :: "socket_call list"

text \<open>Whether the path fits an address, whether somebody answers on it, and which calls fail.\<close>

record socket_env =
  se_endpoint_ok :: "string \<Rightarrow> bool"
  se_active :: bool
  se_open_ok :: bool
  se_bind_ok :: bool
  se_listen_ok :: bool

section \<open>Handlers\<close>

definition mk_rpc_server :: "string \<Rightarrow> 's rpc_server" where
  "mk_rpc_server socket_path =
     \<lparr>rs_socket_path = socket_path, rs_handlers = [], rs_running = False, rs_acceptor_open = False,
      rs_accepting = False, rs_calls = []\<rparr>"

definition register_handler :: "string \<Rightarrow> 's rpc_handler \<Rightarrow> 's rpc_server \<Rightarrow> 's rpc_server" where
  "register_handler name handler srv = srv\<lparr>rs_handlers := map_put name handler (rs_handlers srv)\<rparr>"

definition dispatch_method :: "'s rpc_server \<Rightarrow> string \<Rightarrow> 's rpc_handler" where
  "dispatch_method srv method_name params s =
     (case map_of (rs_handlers srv) method_name of
        Some h \<Rightarrow> h params s
      | None \<Rightarrow> Some (Inl (RuntimeError (''Unknown method: '' @ method_name)), s))"

section \<open>The socket\<close>

definition do_call :: "socket_call \<Rightarrow> 's rpc_server \<Rightarrow> 's rpc_server" where
  "do_call a srv = srv\<lparr>rs_calls := rs_calls srv @ [a]\<rparr>"

text \<open>
  What a connection calls: it holds a weak pointer to its server, and when the server is gone
  (\<open>None\<close>) the call is refused.
\<close>

definition connection_dispatcher :: "'s rpc_server option \<Rightarrow> 's dispatcher" where
  "connection_dispatcher self method_name params s =
     (case self of
        None \<Rightarrow> Some (Inl (RuntimeError ''Server is shutting down''), s)
      | Some srv \<Rightarrow> dispatch_method srv method_name params s)"

definition start_accept :: "'s rpc_server \<Rightarrow> 's rpc_server" where
  "start_accept srv = do_call AcceptNext (srv\<lparr>rs_accepting := True\<rparr>)"

text \<open>An exception leaves the server as it is at that point.\<close>

definition start_server :: "os_env \<Rightarrow> socket_env \<Rightarrow> 's rpc_server \<Rightarrow> exn option \<times> 's rpc_server" where
  "start_server oe se srv =
     (case validate_socket_directory oe (rs_socket_path srv) of
        Inl e \<Rightarrow> (Some e, srv)
      | Inr _ \<Rightarrow>
          (case oe_exists oe (rs_socket_path srv) of
             Inl e \<Rightarrow> (Some e, srv)
           | Inr exists \<Rightarrow>
               if exists \<and> \<not> se_endpoint_ok se (rs_socket_path srv) then (Some (SystemError ''endpoint''), srv)
               else let srv = (if exists then do_call Probe srv else srv) in
               if exists \<and> se_active se
               then (Some (RuntimeError (''Another supervisord is already running? (socket '' @
                       rs_socket_path srv @ '' is active)'')), srv)
               else let srv = do_call Unlink srv in
               if \<not> se_endpoint_ok se (rs_socket_path srv) then (Some (SystemError ''endpoint''), srv)
               else let srv = do_call OpenSocket srv in
               if \<not> se_open_ok se then (Some (SystemError ''open''), srv)
               else let srv = do_call BindSocket (srv\<lparr>rs_acceptor_open := True\<rparr>) in
               if \<not> se_bind_ok se then (Some (SystemError ''bind''), srv)
               else case set_socket_permissions oe (rs_socket_path srv) of
                      Inl e \<Rightarrow> (Some e, srv)
                    | Inr _ \<Rightarrow>
                        let srv = do_call Listen (do_call Chmod600 srv) in
                        if \<not> se_listen_ok se then (Some (SystemError ''listen''), srv)
                        else (None, start_accept (srv\<lparr>rs_running := True\<rparr>))))"

definition stop_server :: "'s rpc_server \<Rightarrow> 's rpc_server" where
  "stop_server srv =
     (if \<not> rs_running srv then srv
      else do_call Unlink (do_call CloseAcceptor (srv\<lparr>rs_running := False, rs_acceptor_open := False\<rparr>)))"

text \<open>The destructor stops the server; then that of its acceptor closes it, if it is still open.\<close>

definition destroy_server :: "'s rpc_server \<Rightarrow> 's rpc_server" where
  "destroy_server srv =
     (let srv = stop_server srv in
      if rs_acceptor_open srv then do_call CloseAcceptor (srv\<lparr>rs_acceptor_open := False\<rparr>) else srv)"

text \<open>After an accepted connection, or a failed accept, the next one is awaited while running.\<close>

definition handle_accept :: "bool \<Rightarrow> connection \<Rightarrow> 's rpc_server \<Rightarrow> connection \<times> 's rpc_server" where
  "handle_accept error c srv =
     (let srv = srv\<lparr>rs_accepting := False\<rparr>
      in ((if \<not> error then start_connection c else c),
          (if rs_running srv then start_accept srv else srv)))"

section \<open>Properties\<close>

text \<open>Registering is assignment in a map: the last handler of a name is the one that runs.\<close>

lemma dispatch_register:
  "dispatch_method (register_handler n h srv) m ps s = (if m = n then h ps s else dispatch_method srv m ps s)"
  by (simp add: dispatch_method_def register_handler_def map_of_put)

text \<open>
  C33: A server that starts has checked that its socket's directory exists and is not writable by
  everyone, has found nobody listening on the path, and has restricted the socket's permissions
  after binding and before listening, so the socket is never connectable with default
  permissions. If another instance answers, nothing of its socket is touched.
\<close>

theorem start_server_order:
  "case start_server oe se srv of
     (None, srv') \<Rightarrow>
       (\<exists>st pre. oe_stat oe (parent_path (rs_socket_path srv)) = Some st \<and> st_kind st = Directory \<and>
          \<not> world_writable st \<and> \<not> (oe_exists oe (rs_socket_path srv) = Inr True \<and> se_active se) \<and>
          oe_chmod_ok oe (rs_socket_path srv) \<and>
          rs_calls srv' = rs_calls srv @ pre @ [Unlink, OpenSocket, BindSocket, Chmod600, Listen, AcceptNext] \<and>
          set pre \<subseteq> {Probe} \<and> rs_running srv' \<and> rs_acceptor_open srv')
   | (Some e, srv') \<Rightarrow>
       rs_running srv' = rs_running srv \<and>
       (if oe_exists oe (rs_socket_path srv) = Inr True \<and> se_active se
        then set (rs_calls srv') \<subseteq> insert Probe (set (rs_calls srv)) else True)"
proof (cases "validate_socket_directory oe (rs_socket_path srv)")
  case (Inl e)
  then show ?thesis by (auto simp: start_server_def)
next
  case (Inr u)
  then obtain st where st: "oe_stat oe (parent_path (rs_socket_path srv)) = Some st" "st_kind st = Directory"
    "\<not> world_writable st"
    by (auto simp: validate_socket_directory_def Let_def split: option.splits if_splits)
  let ?pre = "if oe_exists oe (rs_socket_path srv) = Inr True then [Probe] else []"
  show ?thesis
    using st Inr
    by (cases "oe_exists oe (rs_socket_path srv)")
      (auto simp: start_server_def do_call_def start_accept_def set_socket_permissions_def Let_def
        intro!: exI[of _ ?pre])
qed

text \<open>
  A start that fails after binding leaves the name of the socket in the directory: the server is not
  running, so its destructor closes the acceptor and removes nothing.
\<close>

lemma failed_start_not_running:
  "start_server oe se srv = (Some e, srv') \<Longrightarrow> rs_running srv' = rs_running srv"
  by (auto simp: start_server_def do_call_def Let_def split: sum.splits if_splits)

lemma failed_start_leaves_socket_file:
  assumes "\<not> rs_running srv" "start_server oe se srv = (Some e, srv')" "rs_acceptor_open srv'"
  shows "rs_calls (destroy_server srv') = rs_calls srv' @ [CloseAcceptor]"
proof -
  have "\<not> rs_running srv'" using assms(1) failed_start_not_running[OF assms(2)] by simp
  with assms(3) show ?thesis by (simp add: destroy_server_def stop_server_def do_call_def)
qed

lemma destroyed_server:
  "\<not> rs_running (destroy_server srv)" "\<not> rs_acceptor_open (destroy_server srv)"
  "rs_handlers (destroy_server srv) = rs_handlers srv"
  by (auto simp: destroy_server_def stop_server_def do_call_def Let_def)

end
