(* ===== verification/Supervisord.thy ===== *)
theory Supervisord
  imports Manager_Behaviour Rpc_Server
begin

text \<open>
  \<^verbatim>\<open>supervisor-app/src/daemon/\<close>: the daemon. It owns the configuration, the process manager
  and the RPC server; its RPC handlers and signal handlers are the ways the outside acts on the
  processes. The daemon is a manager with further fields, so that the slice of the event loop
  that the manager runs while it waits, the parameter \<open>run_for\<close>, sees and changes the whole daemon,
  as the handlers that run in it do: a reload in the middle of a shutdown changes the state and
  the configuration of the daemon that is being shut down. The
  configuration parser is an argument, a function from the file's path to a configuration or an
  exception.
\<close>

section \<open>XML of process information\<close>

definition process_info_members :: "ProcessInfo \<Rightarrow> Member list" where
  "process_info_members i =
     [Member ''name'' (VString (pi_name i)), Member ''group'' (VString (pi_name i)),
      Member ''statename'' (VString (show_state (pi_state i))), Member ''state'' (VInt (state_code (pi_state i))),
      Member ''pid'' (VInt (pi_pid i)), Member ''exitstatus'' (VInt (pi_exitstatus i)),
      Member ''stdout_logfile'' (VString (pi_stdout_logfile i)), Member ''spawnerr'' (VString (pi_spawnerr i)),
      Member ''description'' (VString (pi_description i))]"

definition show_process_info :: "ProcessInfo \<Rightarrow> string" where
  "show_process_info i = show_struct (process_info_members i)"

definition show_process_infos :: "ProcessInfo list \<Rightarrow> string" where
  "show_process_infos is =
     ''<array><data>'' @ concat (map (\<lambda>i. ''<value>'' @ show_process_info i @ ''</value>'') is) @ ''</data></array>''"

section \<open>State\<close>

datatype DaemonState = DaemonShutdown | DaemonRestarting | DaemonRunning | DaemonFatal

fun daemon_state_code :: "DaemonState \<Rightarrow> int" where
  "daemon_state_code DaemonShutdown = -1"
| "daemon_state_code DaemonRestarting = 0"
| "daemon_state_code DaemonRunning = 1"
| "daemon_state_code DaemonFatal = 2"

fun daemon_state_name :: "DaemonState \<Rightarrow> string" where
  "daemon_state_name DaemonFatal = ''FATAL''"
| "daemon_state_name DaemonRunning = ''RUNNING''"
| "daemon_state_name DaemonRestarting = ''RESTARTING''"
| "daemon_state_name DaemonShutdown = ''SHUTDOWN''"

text \<open>
  The member \<open>process_manager_\<close> is the record that the daemon extends. While an operation of the manager
  runs, the system is passed beside the daemon; \<open>dm_sys\<close> holds it in between. \<open>dm_posted\<close> counts the shutdown actions posted to the event loop; \<open>dm_term_wait\<close> and
  \<open>dm_hup_wait\<close> are the outstanding waits for SIGTERM or SIGINT and for SIGHUP.
\<close>

record daemon = manager +
  dm_config :: configuration
  dm_sys :: sys
  dm_state :: DaemonState
  dm_posted :: nat
  dm_loop_stopped :: bool
  dm_getpid :: int
  dm_term_wait :: bool
  dm_hup_wait :: bool
  dm_sigpipe_ignored :: bool

type_synonym daemon_slice = "daemon \<Rightarrow> sys \<Rightarrow> daemon \<times> sys"

abbreviation throws :: "string \<Rightarrow> daemon \<Rightarrow> (string res \<times> daemon) option" where
  "throws m d \<equiv> Some (Inl (RuntimeError m), d)"

definition with_sys :: "daemon \<times> sys \<Rightarrow> daemon" where
  "with_sys ds = (fst ds)\<lparr>dm_sys := snd ds\<rparr>"

text \<open>What the manager knows of a daemon is the same whatever the daemon's own fields are.\<close>

lemma manager_of_daemon:
  assumes "mg_processes d' = mg_processes d"
  shows "mgr_inv d' sy = mgr_inv d sy" "has_running_processes d' = has_running_processes d"
    "get_process name d' = get_process name d" "process_has_pid name d' = process_has_pid name d"
    "config_of d' = config_of d" "stop_outcome name p sy d' sy' = stop_outcome name p sy d sy'"
  using assms
  by (simp_all add: mgr_inv_def has_running_processes_def get_process_def process_has_pid_def config_of_def stop_outcome_def)

lemma daemon_fields_apart:
  "mg_processes (d\<lparr>dm_sys := v0\<rparr>) = mg_processes d"
  "mg_processes (d\<lparr>dm_state := v1\<rparr>) = mg_processes d"
  "mg_processes (d\<lparr>dm_config := v2\<rparr>) = mg_processes d"
  "mg_processes (d\<lparr>dm_posted := v3\<rparr>) = mg_processes d"
  "mg_processes (d\<lparr>dm_loop_stopped := v4\<rparr>) = mg_processes d"
  "mg_processes (d\<lparr>dm_term_wait := v5\<rparr>) = mg_processes d"
  "mg_processes (d\<lparr>dm_hup_wait := v6\<rparr>) = mg_processes d"
  "mg_processes (d\<lparr>dm_sigpipe_ignored := v7\<rparr>) = mg_processes d"
  by simp_all

lemmas manager_of_update [simp] =
  manager_of_daemon[of "d\<lparr>dm_sys := v\<rparr>" d for d :: daemon and v, OF daemon_fields_apart(1)]
  manager_of_daemon[of "d\<lparr>dm_state := v\<rparr>" d for d :: daemon and v, OF daemon_fields_apart(2)]
  manager_of_daemon[of "d\<lparr>dm_config := v\<rparr>" d for d :: daemon and v, OF daemon_fields_apart(3)]
  manager_of_daemon[of "d\<lparr>dm_posted := v\<rparr>" d for d :: daemon and v, OF daemon_fields_apart(4)]
  manager_of_daemon[of "d\<lparr>dm_loop_stopped := v\<rparr>" d for d :: daemon and v, OF daemon_fields_apart(5)]
  manager_of_daemon[of "d\<lparr>dm_term_wait := v\<rparr>" d for d :: daemon and v, OF daemon_fields_apart(6)]
  manager_of_daemon[of "d\<lparr>dm_hup_wait := v\<rparr>" d for d :: daemon and v, OF daemon_fields_apart(7)]
  manager_of_daemon[of "d\<lparr>dm_sigpipe_ignored := v\<rparr>" d for d :: daemon and v, OF daemon_fields_apart(8)]

section \<open>Process handlers\<close>

definition rpc_get_all_process_info :: "daemon rpc_handler" where
  "rpc_get_all_process_info params d =
     (let (is, sy) = get_all_process_info d (dm_sys d)
      in Some (Inr (show_process_infos is), d\<lparr>dm_sys := sy\<rparr>))"

definition rpc_get_process_info :: "daemon rpc_handler" where
  "rpc_get_process_info params d =
     (case params of
        [] \<Rightarrow> throws ''Process name required'' d
      | name # _ \<Rightarrow>
          (case get_process name d of
             None \<Rightarrow> throws (''BAD_NAME: '' @ name) d
           | Some p \<Rightarrow>
               let (i, sy) = get_info p (dm_sys d) in Some (Inr (show_process_info i), d\<lparr>dm_sys := sy\<rparr>)))"

definition rpc_start_process :: "daemon rpc_handler" where
  "rpc_start_process params d =
     (case params of
        [] \<Rightarrow> throws ''Process name required'' d
      | name # _ \<Rightarrow>
          (case get_process name d of
             None \<Rightarrow> throws (''BAD_NAME: '' @ name) d
           | Some p \<Rightarrow>
               if p_state p = RUNNING \<or> p_state p = STARTING then throws (''ALREADY_STARTED: '' @ name) d
               else let (ok, ds) = start_process name d (dm_sys d);
                        d = with_sys ds
                    in if \<not> ok then throws (''SPAWN_ERROR: '' @ name) d
                       else Some (Inr (show_value (VBool True)), d)))"

definition rpc_stop_process :: "daemon_slice \<Rightarrow> daemon rpc_handler" where
  "rpc_stop_process run_for params d =
     (case params of
        [] \<Rightarrow> throws ''Process name required'' d
      | name # _ \<Rightarrow>
          (case get_process name d of
             None \<Rightarrow> throws (''BAD_NAME: '' @ name) d
           | Some p \<Rightarrow>
               if p_state p = STOPPED \<or> p_state p = EXITED \<or> p_state p = FATAL
               then throws (''NOT_RUNNING: '' @ name) d
               else Option.bind (stop_process run_for name d (dm_sys d))
                      (\<lambda>(ok, ds). let d = with_sys ds in
                         if \<not> ok then throws (''NOT_RUNNING: '' @ name) d
                         else Some (Inr (show_value (VBool True)), d))))"

definition rpc_start_all :: "daemon rpc_handler" where
  "rpc_start_all params d =
     rpc_get_all_process_info params (with_sys (start_all d (dm_sys d)))"

definition rpc_stop_all :: "daemon_slice \<Rightarrow> daemon rpc_handler" where
  "rpc_stop_all run_for params d =
     Option.bind (stop_all run_for d (dm_sys d))
       (\<lambda>ds. rpc_get_all_process_info params (with_sys ds))"

definition register_process_handlers :: "daemon_slice \<Rightarrow> daemon rpc_server \<Rightarrow> daemon rpc_server" where
  "register_process_handlers run_for srv =
     register_handler ''supervisor.stopAllProcesses'' (rpc_stop_all run_for)
     (register_handler ''supervisor.startAllProcesses'' rpc_start_all
     (register_handler ''supervisor.stopProcess'' (rpc_stop_process run_for)
     (register_handler ''supervisor.startProcess'' rpc_start_process
     (register_handler ''supervisor.getProcessInfo'' rpc_get_process_info
     (register_handler ''supervisor.getAllProcessInfo'' rpc_get_all_process_info srv)))))"

section \<open>Daemon handlers\<close>

definition reload_config :: "daemon_slice \<Rightarrow> (string \<Rightarrow> configuration res) \<Rightarrow> daemon \<Rightarrow> daemon option" where
  "reload_config run_for parse_file d =
     (if cf_config_file (dm_config d) = [] then Some d
      else if dm_state d = DaemonRestarting then Some d
      else let d = d\<lparr>dm_state := DaemonRestarting\<rparr> in
           case parse_file (cf_config_file (dm_config d)) of
             Inl e \<Rightarrow> Some (d\<lparr>dm_state := DaemonRunning\<rparr>)
           | Inr new_config \<Rightarrow>
               map_option (\<lambda>ds. (with_sys ds)\<lparr>dm_config := new_config, dm_state := DaemonRunning\<rparr>)
                 (sync_processes run_for (cf_programs new_config) d (dm_sys d)))"

definition rpc_get_state :: "daemon rpc_handler" where
  "rpc_get_state params d =
     Some (Inr (show_struct [Member ''statecode'' (VInt (daemon_state_code (dm_state d))),
                             Member ''statename'' (VString (daemon_state_name (dm_state d)))]), d)"

definition rpc_shutdown :: "daemon rpc_handler" where
  "rpc_shutdown params d = Some (Inr (show_value (VBool True)), d\<lparr>dm_posted := Suc (dm_posted d)\<rparr>)"

definition rpc_reload_config :: "daemon_slice \<Rightarrow> (string \<Rightarrow> configuration res) \<Rightarrow> daemon rpc_handler" where
  "rpc_reload_config run_for parse_file params d =
     map_option (\<lambda>d. (Inr (show_value (VBool True)), d)) (reload_config run_for parse_file d)"

definition rpc_api_version :: "daemon rpc_handler" where
  "rpc_api_version params d = Some (Inr ''<string>3.0</string>'', d)"

definition rpc_get_identification :: "daemon rpc_handler" where
  "rpc_get_identification params d = Some (Inr ''<string>supervisor</string>'', d)"

definition rpc_get_pid :: "daemon rpc_handler" where
  "rpc_get_pid params d = Some (Inr (''<int>'' @ show_int (dm_getpid d) @ ''</int>''), d)"

definition register_rpc_handlers ::
  "daemon_slice \<Rightarrow> (string \<Rightarrow> configuration res) \<Rightarrow> daemon rpc_server \<Rightarrow> daemon rpc_server" where
  "register_rpc_handlers run_for parse_file srv =
     register_handler ''supervisor.getPID'' rpc_get_pid
     (register_handler ''supervisor.getIdentification'' rpc_get_identification
     (register_handler ''supervisor.getAPIVersion'' rpc_api_version
     (register_handler ''supervisor.getSupervisorVersion'' rpc_api_version
     (register_handler ''supervisor.getVersion'' rpc_api_version
     (register_handler ''supervisor.reloadConfig'' (rpc_reload_config run_for parse_file)
     (register_handler ''supervisor.shutdown'' rpc_shutdown
     (register_handler ''supervisor.getState'' rpc_get_state
     (register_process_handlers run_for srv))))))))"

section \<open>Start, signals and shutdown\<close>

fun add_programs :: "program_config list \<Rightarrow> 'x manager_scheme \<times> sys \<Rightarrow> 'x manager_scheme \<times> sys" where
  "add_programs [] ms = ms"
| "add_programs (prog # progs) ms = add_programs progs (add_process prog (fst ms) (snd ms))"

definition mk_supervisord :: "configuration \<Rightarrow> int \<Rightarrow> sys \<Rightarrow> daemon \<times> daemon rpc_server" where
  "mk_supervisord config pid sy =
     (let d = manager.extend (mk_manager 1000)
                \<lparr>dm_config = config, dm_sys = sy, dm_state = DaemonRunning, dm_posted = 0,
                 dm_loop_stopped = False, dm_getpid = pid, dm_term_wait = False, dm_hup_wait = False,
                 dm_sigpipe_ignored = False\<rparr>
      in (with_sys (add_programs (cf_programs config) (d, sy)), mk_rpc_server (cf_socket_file config)))"

text \<open>
  \<open>run\<close> up to the event loop, and after it. The two signal sets are locals of \<open>run\<close>: their
  waits are cancelled when it is left, by an exception too.
\<close>

definition run_startup ::
  "os_env \<Rightarrow> socket_env \<Rightarrow> daemon_slice \<Rightarrow> (string \<Rightarrow> configuration res) \<Rightarrow> daemon \<Rightarrow> daemon rpc_server \<Rightarrow>
   exn option \<times> daemon \<times> daemon rpc_server" where
  "run_startup oe se run_for parse_file d srv =
     (let d = d\<lparr>dm_term_wait := True, dm_hup_wait := True, dm_sigpipe_ignored := True\<rparr>
      in case start_server oe se (register_rpc_handlers run_for parse_file srv) of
           (Some e, srv) \<Rightarrow> (Some e, d, srv)
         | (None, srv) \<Rightarrow> (None, with_sys (start_all d (dm_sys d)), srv))"

definition leave_run :: "daemon \<Rightarrow> daemon" where
  "leave_run d = d\<lparr>dm_term_wait := False, dm_hup_wait := False\<rparr>"

definition run_finish :: "daemon rpc_server \<Rightarrow> int \<times> daemon rpc_server" where
  "run_finish srv = (0, stop_server srv)"

text \<open>
  The wait for a termination signal is not renewed; the one for SIGHUP is, unless it was cancelled. A posted
  action is taken from the queue before it runs. What handlers that run while the processes are being stopped
  have made of the daemon is kept.
\<close>

definition on_terminate :: "daemon_slice \<Rightarrow> bool \<Rightarrow> daemon \<Rightarrow> daemon option" where
  "on_terminate run_for error d =
     (let d = d\<lparr>dm_term_wait := False\<rparr> in
      if error then Some d
      else let d = d\<lparr>dm_state := DaemonShutdown\<rparr> in
           map_option (\<lambda>ds. (with_sys ds)\<lparr>dm_loop_stopped := True\<rparr>) (stop_all run_for d (dm_sys d)))"

definition on_sighup :: "daemon_slice \<Rightarrow> (string \<Rightarrow> configuration res) \<Rightarrow> bool \<Rightarrow> daemon \<Rightarrow> daemon option" where
  "on_sighup run_for parse_file error d =
     (let d = d\<lparr>dm_hup_wait := False\<rparr> in
      if error then Some d
      else map_option (\<lambda>d. d\<lparr>dm_hup_wait := True\<rparr>) (reload_config run_for parse_file d))"

definition on_posted_shutdown :: "daemon_slice \<Rightarrow> daemon \<Rightarrow> daemon option" where
  "on_posted_shutdown run_for d =
     (let d = d\<lparr>dm_posted := dm_posted d - 1\<rparr> in
      map_option (\<lambda>ds. (with_sys ds)\<lparr>dm_loop_stopped := True\<rparr>) (stop_all run_for d (dm_sys d)))"

section \<open>What the handlers promise\<close>

definition daemon_inv :: "daemon \<Rightarrow> bool" where
  "daemon_inv d \<longleftrightarrow> mgr_inv d (dm_sys d) \<and> clock_runs (sy_steady (dm_sys d))"

lemma start_process_answers:
  assumes "daemon_inv d"
  shows "case get_process name d of
      None \<Rightarrow> rpc_start_process [name] d = Some (Inl (RuntimeError (''BAD_NAME: '' @ name)), d)
    | Some p \<Rightarrow>
        if p_state p \<in> {RUNNING, STARTING}
        then rpc_start_process [name] d = Some (Inl (RuntimeError (''ALREADY_STARTED: '' @ name)), d)
        else \<exists>d' p'. get_process name d' = Some p' \<and>
          (rpc_start_process [name] d = Some (Inr ''<boolean>1</boolean>'', d') \<and> p_state p' = STARTING \<and> p_pid p' > 0 \<or>
           rpc_start_process [name] d = Some (Inl (RuntimeError (''SPAWN_ERROR: '' @ name)), d') \<and>
             p_state p' \<in> {BACKOFF, FATAL})"
proof (cases "get_process name d")
  case None
  then show ?thesis by (simp add: rpc_start_process_def)
next
  case (Some p)
  show ?thesis
  proof (cases "p_state p \<in> {RUNNING, STARTING}")
    case True
    with Some show ?thesis by (auto simp: rpc_start_process_def)
  next
    case False
    obtain r p' sy' where st: "start p (dm_sys d) = (r, p', sy')" by (cases "start p (dm_sys d)")
    have look: "map_of (mg_processes d) name = Some p" using Some by (simp add: get_process_def)
    have ok: "list_all entry_ok (mg_processes d)" "sys_ok (dm_sys d)"
      using assms by (auto simp: daemon_inv_def mgr_inv_def)
    have "entry_ok (name, p)" using ok(1) map_of_SomeD[OF look] by (auto simp: list_all_iff)
    then have "pinv (p, dm_sys d)" using ok(2) by (simp add: entry_ok_def pinv_split)
    from start_preserves[OF st this] have inv: "proc_inv p'" by (simp add: pinv_def)
    let ?d = "with_sys (d\<lparr>mg_processes := map_put name p' (mg_processes d)\<rparr>, sy')"
    have g: "get_process name ?d = Some p'" by (simp add: get_process_def with_sys_def map_of_put)
    have sp: "start_process name d (dm_sys d) =
        (r, d\<lparr>mg_processes := map_put name p' (mg_processes d)\<rparr>, sy')"
      by (simp add: start_process_def look st)
    have h: "rpc_start_process [name] d =
        (if r then Some (Inr ''<boolean>1</boolean>'', ?d) else Some (Inl (RuntimeError (''SPAWN_ERROR: '' @ name)), ?d))"
      using Some False sp by (simp add: rpc_start_process_def)
    have "r \<and> p_state p' = STARTING \<or> \<not> r \<and> p_state p' \<in> {BACKOFF, FATAL}"
      using st False by (elim start_cases) (auto simp: core_def split: if_splits)
    with inv h g Some False show ?thesis by (auto simp: proc_inv_def intro!: exI[of _ ?d])
  qed
qed

text \<open>
  Auxiliary property: What a client is told by \<open>startProcess\<close>: an unknown name is BAD_NAME and a process that
  is starting or running is ALREADY_STARTED, both without any effect; otherwise the process is
  started and the answer is true exactly when the spawn succeeded, in which case it is STARTING
  with a pid, and SPAWN_ERROR when it failed, in which case it is in BACKOFF or FATAL.
\<close>

theorem rpc_start_process_outcomes:
  assumes "daemon_inv d"
  shows "case get_process name d of
      None \<Rightarrow> rpc_start_process [name] d = Some (Inl (RuntimeError (''BAD_NAME: '' @ name)), d)
    | Some p \<Rightarrow>
        if p_state p \<in> {RUNNING, STARTING}
        then rpc_start_process [name] d = Some (Inl (RuntimeError (''ALREADY_STARTED: '' @ name)), d)
        else \<exists>d' p'. get_process name d' = Some p' \<and>
          (rpc_start_process [name] d = Some (Inr ''<boolean>1</boolean>'', d') \<and> p_state p' = STARTING \<and> p_pid p' > 0 \<or>
           rpc_start_process [name] d = Some (Inl (RuntimeError (''SPAWN_ERROR: '' @ name)), d') \<and>
             p_state p' \<in> {BACKOFF, FATAL})"
  using assms by (rule start_process_answers)

definition sample_daemon :: daemon where
  "sample_daemon = manager.extend sample_manager
     \<lparr>dm_config = default_configuration, dm_sys = snd sample_started,
      dm_state = DaemonRunning, dm_posted = 0, dm_loop_stopped = False, dm_getpid = 1, dm_term_wait = True,
      dm_hup_wait = True, dm_sigpipe_ignored = True\<rparr>"

lemma sample_daemon_fields:
  "mg_processes sample_daemon = [([], fst sample_started)]" "dm_sys sample_daemon = snd sample_started"
  "dm_config sample_daemon = default_configuration" "dm_state sample_daemon = DaemonRunning"
  "dm_posted sample_daemon = 0" "dm_hup_wait sample_daemon"
  by (simp_all add: sample_daemon_def sample_manager_def manager.defs)

lemma sample_daemon_ok: "daemon_inv sample_daemon"
  using sample_manager_ok sample_clock by (simp add: daemon_inv_def sample_daemon_fields mgr_inv_def sample_manager_def)

definition reloadable_daemon :: daemon where
  "reloadable_daemon = sample_daemon\<lparr>dm_config := default_configuration\<lparr>cf_config_file := ''/etc/s.conf''\<rparr>\<rparr>"

lemma reloadable_daemon_ok: "daemon_inv reloadable_daemon"
  using sample_daemon_ok by (simp add: daemon_inv_def reloadable_daemon_def)

theorem rpc_start_process_outcomes_witness:
  "rpc_start_process [[]] sample_daemon = Some (Inl (RuntimeError ''ALREADY_STARTED: ''), sample_daemon)"
  using rpc_start_process_outcomes[OF sample_daemon_ok, of "[]"]
  by (simp add: get_process_def sample_daemon_fields sample_started_fields)

lemma stop_process_idle:
  assumes "map_of (mg_processes m) name = Some p" "p_pid p \<le> 0" "map_wf (mg_processes m)"
  shows "stop_process run_for name m sy = Some (False, m, sy)"
proof -
  have "map_put name p (mg_processes m) = mg_processes m"
  proof -
    have d: "distinct (map fst (mg_processes m))" using assms(3) by (rule map_wf_distinct)
    have "e = (name, p)" if "e \<in> set (mg_processes m)" "fst e = name" for e
      using that map_of_eq_Some_iff[OF d, of name "snd e"] assms(1) by (metis option.inject prod.collapse)
    then show ?thesis unfolding map_put_same_key[OF assms(3,1)] by (intro map_idI) (auto split: prod.splits)
  qed
  then show ?thesis using assms(1,2) by (simp add: stop_process_def stop_def)
qed

lemma stop_process_answers:
  assumes "event_loop run_for" "daemon_inv d"
  shows "case get_process name d of
      None \<Rightarrow> rpc_stop_process run_for [name] d = Some (Inl (RuntimeError (''BAD_NAME: '' @ name)), d)
    | Some p \<Rightarrow>
        if p_pid p \<le> 0
        then rpc_stop_process run_for [name] d = Some (Inl (RuntimeError (''NOT_RUNNING: '' @ name)), d)
        else \<exists>d'. rpc_stop_process run_for [name] d =
            Some (if p_state p \<noteq> FATAL \<and> signal_ok (dm_sys d) then Inr ''<boolean>1</boolean>''
                  else Inl (RuntimeError (''NOT_RUNNING: '' @ name)), d') \<and> daemon_inv d' \<and>
          (if p_state p = FATAL then d' = d else stop_outcome name p (dm_sys d) d' (dm_sys d')) \<and>
          configs (mg_processes d') = configs (mg_processes d)"
proof (cases "get_process name d")
  case None
  then show ?thesis by (simp add: rpc_stop_process_def)
next
  case (Some p)
  have inv: "mgr_inv d (dm_sys d)" "clock_runs (sy_steady (dm_sys d))"
    using assms(2) by (simp_all add: daemon_inv_def)
  have look: "map_of (mg_processes d) name = Some p" using Some by (simp add: get_process_def)
  show ?thesis
  proof (cases "p_pid p \<le> 0")
    case True
    have "with_sys (d, dm_sys d) = d" by (simp add: with_sys_def)
    with True Some stop_process_idle[OF look True] inv(1) show ?thesis
      by (simp add: rpc_stop_process_def mgr_inv_def)
  next
    case False
    have "proc_inv p" using inv(1) map_of_SomeD[OF look] by (auto simp: mgr_inv_def list_all_iff entry_ok_def)
    then have s: "p_state p \<notin> {STOPPED, EXITED}" using False by (auto simp: proc_inv_def)
    obtain m' sy' where st: "stop_process run_for name d (dm_sys d) = Some (signal_ok (dm_sys d), m', sy')"
      "keeps_all d (dm_sys d) m' sy'" "stop_outcome name p (dm_sys d) m' sy'"
      using event_loop.stop_process_running[OF assms(1) inv look] False by auto
    then have "daemon_inv (with_sys (m', sy'))" "daemon_inv d"
      using inv assms(2) by (simp_all add: daemon_inv_def with_sys_def keeps_all_def)
    with st s False Some show ?thesis
      by (auto simp: rpc_stop_process_def with_sys_def keeps_all_def Let_def)
  qed
qed

text \<open>
  Auxiliary property: What a client is told by \<open>stopProcess\<close>: BAD_NAME for an unknown name, NOT_RUNNING, with
  no effect, for every process without a pid, and otherwise the call returns after at most the
  waiting time with the programs and their settings unchanged. In particular a program that keeps
  crashing and is waiting in BACKOFF for its next start cannot be stopped: the request is refused
  and the restart remains scheduled.
\<close>

theorem rpc_stop_process_outcomes:
  assumes "event_loop run_for" "daemon_inv d"
  shows "case get_process name d of
      None \<Rightarrow> rpc_stop_process run_for [name] d = Some (Inl (RuntimeError (''BAD_NAME: '' @ name)), d)
    | Some p \<Rightarrow>
        if p_pid p \<le> 0
        then rpc_stop_process run_for [name] d = Some (Inl (RuntimeError (''NOT_RUNNING: '' @ name)), d)
        else \<exists>d'. rpc_stop_process run_for [name] d =
            Some (if p_state p \<noteq> FATAL \<and> signal_ok (dm_sys d) then Inr ''<boolean>1</boolean>''
                  else Inl (RuntimeError (''NOT_RUNNING: '' @ name)), d') \<and> daemon_inv d' \<and>
          (if p_state p = FATAL then d' = d else stop_outcome name p (dm_sys d) d' (dm_sys d')) \<and>
          configs (mg_processes d') = configs (mg_processes d)"
  using assms by (rule stop_process_answers)

theorem rpc_stop_process_outcomes_witness:
  "\<exists>r d'. rpc_stop_process manager_slice [[]] sample_daemon = Some (r, d') \<and> daemon_inv d'"
  using rpc_stop_process_outcomes[OF own_handlers.event_loop_axioms sample_daemon_ok, of "[]"]
  by (auto simp: get_process_def sample_daemon_fields sample_started_fields)

text \<open>A program waiting in BACKOFF stays there when a stop is requested.\<close>

lemma backoff_cannot_be_stopped:
  assumes "get_process name d = Some p" "p_state p = BACKOFF" "p_pid p = -1"
    and "map_wf (mg_processes d)"
  shows "rpc_stop_process run_for [name] d = Some (Inl (RuntimeError (''NOT_RUNNING: '' @ name)), d)"
proof -
  have "with_sys (d, dm_sys d) = d" by (simp add: with_sys_def)
  with assms stop_process_idle[of d name p run_for] show ?thesis
    by (simp add: rpc_stop_process_def get_process_def)
qed

text \<open>What a reload does in every state of the daemon.\<close>

definition reloaded :: "(string \<Rightarrow> configuration res) \<Rightarrow> daemon \<Rightarrow> daemon \<Rightarrow> bool" where
  "reloaded parse_file d d' \<longleftrightarrow>
     (if cf_config_file (dm_config d) = [] \<or> dm_state d = DaemonRestarting then d' = d
      else case parse_file (cf_config_file (dm_config d)) of
             Inl e \<Rightarrow> d' = d\<lparr>dm_state := DaemonRunning\<rparr>
           | Inr c \<Rightarrow> dm_state d' = DaemonRunning \<and> dm_config d' = c \<and>
               (\<forall>x. map_option p_config (get_process x d') = programs_map (cf_programs c) x))"

lemma reload_config_reloads:
  assumes "event_loop run_for" "daemon_inv d"
  shows "\<exists>d'. reload_config run_for parse_file d = Some d' \<and> daemon_inv d' \<and> reloaded parse_file d d' \<and>
    same_clock (dm_sys d) (dm_sys d')"
proof (cases "cf_config_file (dm_config d) = [] \<or> dm_state d = DaemonRestarting")
  case True
  with assms(2) show ?thesis by (auto simp: reload_config_def reloaded_def)
next
  case False
  have inv: "mgr_inv d (dm_sys d)" "clock_runs (sy_steady (dm_sys d))"
    using assms(2) by (simp_all add: daemon_inv_def)
  show ?thesis
  proof (cases "parse_file (cf_config_file (dm_config d))")
    case (Inl e)
    with assms(2) False show ?thesis by (simp add: reload_config_def daemon_inv_def reloaded_def Let_def)
  next
    case (Inr c)
    obtain m' sy' where s: "sync_processes run_for (cf_programs c) (d\<lparr>dm_state := DaemonRestarting\<rparr>) (dm_sys d) = Some (m', sy')"
      "changes_to (dm_sys d) m' sy' (programs_map (cf_programs c))"
      using event_loop.sync_processes_returns[OF assms(1) _ inv(2), of "d\<lparr>dm_state := DaemonRestarting\<rparr>" "cf_programs c"] inv(1) by auto
    have "daemon_inv ((with_sys (m', sy'))\<lparr>dm_config := c, dm_state := DaemonRunning\<rparr>)"
      using s(2) inv(2) by (simp add: daemon_inv_def changes_to_def with_sys_def)
    moreover have "map_option p_config (get_process x m') = programs_map (cf_programs c) x" for x
      using s(2) by (simp add: changes_to_def get_process_def config_of_lookup[symmetric])
    ultimately show ?thesis
      using False Inr s by (auto simp: reload_config_def reloaded_def with_sys_def changes_to_def)
  qed
qed

text \<open>
  Auxiliary property: A reload ends with the daemon in its running state. If the new configuration cannot be
  read or is rejected, processes and configuration are exactly what they were; if it is
  accepted, it becomes the configuration and the manager supervises exactly its programs with
  its settings, the last one's where a name occurs more than once.
\<close>

theorem reload_config_outcomes:
  assumes "event_loop run_for" "daemon_inv d" "cf_config_file (dm_config d) \<noteq> []" "dm_state d \<noteq> DaemonRestarting"
  shows "\<exists>d'. reload_config run_for parse_file d = Some d' \<and> dm_state d' = DaemonRunning \<and> daemon_inv d' \<and>
    (case parse_file (cf_config_file (dm_config d)) of
       Inl e \<Rightarrow> d' = d\<lparr>dm_state := DaemonRunning\<rparr>
     | Inr c \<Rightarrow> dm_config d' = c \<and>
         (\<forall>x. map_option p_config (get_process x d') = programs_map (cf_programs c) x))"
  using reload_config_reloads[OF assms(1,2), of parse_file] assms(3,4)
  by (cases "parse_file (cf_config_file (dm_config d))") (auto simp: reloaded_def)

theorem reload_config_outcomes_witness:
  "\<exists>d'. reload_config manager_slice (\<lambda>_. Inl (ConfigParseError ''bad''))
       (sample_daemon\<lparr>dm_config := default_configuration\<lparr>cf_config_file := ''/etc/s.conf''\<rparr>\<rparr>) = Some d' \<and>
     dm_state d' = DaemonRunning \<and> mg_processes d' = mg_processes sample_manager"
  using reload_config_outcomes[OF own_handlers.event_loop_axioms,
      of "sample_daemon\<lparr>dm_config := default_configuration\<lparr>cf_config_file := ''/etc/s.conf''\<rparr>\<rparr>"
         "\<lambda>_. Inl (ConfigParseError ''bad'')"] sample_daemon_ok
  by (auto simp: daemon_inv_def sample_daemon_fields sample_manager_def mgr_inv_def)

text \<open>
  A slice of the event loop in which SIGHUP has arrived: the whole reload, with its own waits, is carried out
  on the daemon that waits.
\<close>

definition sighup_slice :: "(string \<Rightarrow> configuration res) \<Rightarrow> daemon_slice" where
  "sighup_slice parse_file d sy =
     (let d = d\<lparr>dm_sys := sy\<rparr> in
      case (if dm_hup_wait d then on_sighup manager_slice parse_file False d else Some d) of
        Some d \<Rightarrow> (d, dm_sys d) | None \<Rightarrow> (d, dm_sys d))"

lemma on_sighup_sound:
  assumes "daemon_inv d"
  shows "\<exists>d'. on_sighup manager_slice parse_file e d = Some d' \<and> daemon_inv d' \<and> same_clock (dm_sys d) (dm_sys d')"
proof -
  have "daemon_inv (d\<lparr>dm_hup_wait := False\<rparr>)" using assms by (simp add: daemon_inv_def mgr_inv_def)
  from reload_config_reloads[OF own_handlers.event_loop_axioms this, of parse_file] this show ?thesis
    by (cases e) (auto simp: on_sighup_def daemon_inv_def mgr_inv_def)
qed

lemma sighup_slice_sound:
  assumes "mgr_inv d sy" "clock_runs (sy_steady sy)"
  shows "keeps_sound d sy (fst (sighup_slice parse_file d sy)) (snd (sighup_slice parse_file d sy))"
proof -
  have "daemon_inv (d\<lparr>dm_sys := sy\<rparr>)" using assms by (simp add: daemon_inv_def mgr_inv_def)
  from on_sighup_sound[OF this, of parse_file False] assms show ?thesis
    by (cases "dm_hup_wait d") (auto simp: sighup_slice_def keeps_sound_def daemon_inv_def Let_def)
qed

interpretation hangup_while_waiting: reentrant_loop "sighup_slice parse_file" for parse_file
  by (rule reentrant_loopI) (rule sighup_slice_sound)

text \<open>
  Such a slice takes back a shutdown that is being carried out: SIGHUP sets the state to RUNNING, whether the
  new configuration is accepted or not.
\<close>

lemma hangup_takes_back_shutdown:
  assumes "mgr_inv d sy" "clock_runs (sy_steady sy)" "dm_hup_wait d" "cf_config_file (dm_config d) \<noteq> []"
    and "dm_state d = DaemonShutdown"
  shows "dm_state (fst (sighup_slice parse_file d sy)) = DaemonRunning"
proof -
  let ?d = "d\<lparr>dm_sys := sy, dm_hup_wait := False\<rparr>"
  have "daemon_inv ?d" using assms(1,2) by (simp add: daemon_inv_def)
  from reload_config_reloads[OF own_handlers.event_loop_axioms this, of parse_file] obtain d1 where
    r: "reload_config manager_slice parse_file ?d = Some d1" "reloaded parse_file ?d d1" by blast
  have "dm_state d1 = DaemonRunning"
    using r(2) assms(4,5) by (cases "parse_file (cf_config_file (dm_config d))") (simp_all add: reloaded_def)
  with r(1) assms(3) show ?thesis by (simp add: sighup_slice_def on_sighup_def Let_def)
qed

text \<open>Stopping everything, for handlers that do anything sound and for handlers that also leave the state alone.\<close>

lemma stop_all_on_daemon:
  fixes run_for :: daemon_slice
  assumes "reentrant_loop run_for" "mgr_inv d sy" "clock_runs (sy_steady sy)"
  obtains d' sy' where "stop_all run_for d sy = Some (d', sy')" "\<not> has_running_processes d'" "mgr_inv d' sy'"
    "clock_runs (sy_steady sy')" "(\<forall>x s. dm_state (fst (run_for x s)) = dm_state x) \<Longrightarrow> dm_state d' = dm_state d"
proof -
  obtain d' sy' where r: "stop_all run_for d sy = Some (d', sy')" "keeps_sound d sy d' sy'" "\<not> has_running_processes d'"
    using reentrant_loop_stop_all[OF assms] by blast
  have "dm_state d' = dm_state d" if quiet: "\<forall>x s. dm_state (fst (run_for x s)) = dm_state x"
  proof -
    let ?keeps = "\<lambda>d sy (d' :: daemon) sy'. keeps_sound d sy d' sy' \<and> dm_state d' = dm_state d"
    have more: "dm_state d2 = dm_state d1" if "manager.more d2 = manager.more d1" for d1 d2 :: daemon
      using that by (cases d1; cases d2) simp
    have "waiting_loop run_for ?keeps"
      using reentrant_loop.axioms[OF assms(1)] quiet
      by (auto simp: waiting_loop_def keeps_own_def intro: more keeps_sound_trans)
    from waiting_loop.stop_all_returns[OF this assms(2,3)] r(1) show ?thesis by auto
  qed
  with r assms(3) that show thesis by (auto simp: keeps_sound_def)
qed

lemma posted_shutdown_stops:
  fixes run_for :: daemon_slice
  assumes "reentrant_loop run_for" "daemon_inv d"
  shows "\<exists>d'. on_posted_shutdown run_for d = Some d' \<and> dm_loop_stopped d' \<and> daemon_inv d' \<and>
    \<not> has_running_processes d' \<and> ((\<forall>x sy. dm_state (fst (run_for x sy)) = dm_state x) \<longrightarrow> dm_state d' = dm_state d)"
proof -
  let ?p = "d\<lparr>dm_posted := dm_posted d - 1\<rparr>"
  have inv: "mgr_inv ?p (dm_sys d)" "clock_runs (sy_steady (dm_sys d))" using assms(2) by (simp_all add: daemon_inv_def)
  show ?thesis
    by (rule stop_all_on_daemon[OF assms(1) inv])
      (simp add: on_posted_shutdown_def with_sys_def daemon_inv_def)
qed

text \<open>
  C17: After SIGTERM or SIGINT, and after a shutdown requested by RPC, every process has been
  stopped: no process has a pid and the event loop has been told to end, and the manager is consistent. Both
  ways return for any event loop whose handlers keep the manager consistent, whatever else of the daemon they
  change while the processes are being stopped: one of them may reload the configuration, start its programs
  and set the state back to RUNNING. If no handler touches the state, it is SHUTDOWN at the end of the
  first way, and what it was before at the end of the second.
\<close>

theorem shutdown_stops_everything:
  assumes "reentrant_loop run_for" "daemon_inv d"
  shows "\<exists>d' d''. on_terminate run_for False d = Some d' \<and> on_posted_shutdown run_for d = Some d'' \<and>
    dm_loop_stopped d' \<and> dm_loop_stopped d'' \<and> daemon_inv d' \<and> daemon_inv d'' \<and>
    \<not> has_running_processes d' \<and> \<not> has_running_processes d'' \<and>
    ((\<forall>x sy. dm_state (fst (run_for x sy)) = dm_state x) \<longrightarrow> dm_state d' = DaemonShutdown \<and> dm_state d'' = dm_state d)"
proof -
  let ?t = "d\<lparr>dm_term_wait := False, dm_state := DaemonShutdown\<rparr>"
  have inv: "mgr_inv ?t (dm_sys d)" "clock_runs (sy_steady (dm_sys d))" using assms(2) by (simp_all add: daemon_inv_def)
  obtain t sy' where t: "stop_all run_for ?t (dm_sys d) = Some (t, sy')" "\<not> has_running_processes t" "mgr_inv t sy'"
    "clock_runs (sy_steady sy')" "(\<forall>x s. dm_state (fst (run_for x s)) = dm_state x) \<longrightarrow> dm_state t = DaemonShutdown"
    by (rule stop_all_on_daemon[OF assms(1) inv]) simp
  let ?d = "t\<lparr>dm_sys := sy', dm_loop_stopped := True\<rparr>"
  have "on_terminate run_for False d = Some ?d" using t(1) by (simp add: on_terminate_def with_sys_def)
  moreover have "daemon_inv ?d" "\<not> has_running_processes ?d" "dm_loop_stopped ?d" "dm_state ?d = dm_state t"
    using t(2-4) by (simp_all add: daemon_inv_def)
  ultimately show ?thesis using t(5) posted_shutdown_stops[OF assms] by metis
qed

theorem shutdown_stops_everything_witness:
  "\<exists>d'. on_terminate (sighup_slice (\<lambda>_. Inr default_configuration)) False reloadable_daemon = Some d' \<and>
     \<not> has_running_processes d'"
proof -
  from shutdown_stops_everything[OF hangup_while_waiting.reentrant_loop_axioms reloadable_daemon_ok] show ?thesis by blast
qed

text \<open>The methods a client can call.\<close>

lemma registered_methods:
  "map fst (rs_handlers (register_rpc_handlers run_for parse_file (mk_rpc_server path))) =
     [''supervisor.getAPIVersion'', ''supervisor.getAllProcessInfo'', ''supervisor.getIdentification'',
      ''supervisor.getPID'', ''supervisor.getProcessInfo'', ''supervisor.getState'',
      ''supervisor.getSupervisorVersion'', ''supervisor.getVersion'', ''supervisor.reloadConfig'',
      ''supervisor.shutdown'', ''supervisor.startAllProcesses'', ''supervisor.startProcess'',
      ''supervisor.stopAllProcesses'', ''supervisor.stopProcess'']"
  by (simp add: register_rpc_handlers_def register_process_handlers_def register_handler_def mk_rpc_server_def
      less_char_def)

end
