(* ===== verification/Supervisorctl.thy ===== *)
theory Supervisorctl
  imports Rpc_Connection
begin

text \<open>
  \<^verbatim>\<open>supervisor-app/src/ctl/supervisorctl.h\<close>: the command line client. It builds an XML-RPC
  request, sends it over the control socket, reads the response, turns faults into exceptions
  and prints results. The socket is Boost.Asio's: its operations are a record of functions on a
  world of any type; the XML reader, \<open>trim\<close> and \<open>split\<close> are parameters too.
\<close>

section \<open>The socket\<close>

datatype net_error = ConnectionRefused | SystemCategory string | OtherCategory string

datatype op_result = OpOk | OpInterrupted | OpFailed net_error

text \<open>
  \<open>read_until\<close> gives what it has buffered, which may go beyond the delimiter; \<open>read\<close> of
  \<open>n\<close> bytes gives at most \<open>n\<close>.
\<close>

record 'w socket_api =
  so_connect :: "string \<Rightarrow> 'w \<Rightarrow> op_result \<times> 'w"
  so_write :: "string \<Rightarrow> 'w \<Rightarrow> op_result \<times> 'w"
  so_read_until :: "'w \<Rightarrow> string \<times> op_result \<times> 'w"
  so_read :: "nat \<Rightarrow> 'w \<Rightarrow> string \<times> op_result \<times> 'w"

text \<open>
  \<open>continue\<close> in a \<open>do \<dots> while (false)\<close> leaves the loop: an interrupted operation
  counts as done.
\<close>

fun retry_eintr :: "op_result \<Rightarrow> net_error option" where
  "retry_eintr OpOk = None"
| "retry_eintr OpInterrupted = None"
| "retry_eintr (OpFailed e) = Some e"

section \<open>Requests\<close>

definition build_xmlrpc_request :: "string \<Rightarrow> string list \<Rightarrow> string" where
  "build_xmlrpc_request method_name params =
     ''<?xml version='' @ [DQUOTE] @ ''1.0'' @ [DQUOTE] @ ''?>'' @ [NL] @
     ''<methodCall>'' @ [NL] @
     ''  <methodName>'' @ escape_xml method_name @ ''</methodName>'' @ [NL] @
     ''  <params>'' @
     concat (map (\<lambda>param. ''<param><value>'' @ show_value (VString param) @ ''</value></param>'') params) @
     ''  </params>'' @ [NL] @
     ''</methodCall>'' @ [NL]"

definition build_http_request :: "string \<Rightarrow> string" where
  "build_http_request body =
     ''POST /RPC2 HTTP/1.1'' @ CRLF @
     ''Content-Type: text/xml'' @ CRLF @
     ''Content-Length: '' @ show_nat (length body) @ CRLF @
     ''Connection: close'' @ CRLF @
     CRLF @
     body"

section \<open>Responses\<close>

text \<open>
  \<open>getline\<close> until a line that is a single carriage return; the last Content-Length counts.
  The rest of the buffer is returned with it.
\<close>

function read_headers :: "string \<Rightarrow> nat \<Rightarrow> (nat \<times> string) res" where
  "read_headers [] cl = Inr (cl, [])"
| "read_headers (c # cs) cl =
     (let line = takeWhile (\<lambda>x. x \<noteq> NL) (c # cs);
          rest = drop (Suc (length line)) (c # cs)
      in if line = [CR] then Inr (cl, rest)
         else if prefix ''Content-Length:'' line
         then bind_res (stoull (drop 15 line)) (\<lambda>n. read_headers rest n)
         else read_headers rest cl)"
  by pat_completeness auto
termination
  by (relation "measure (\<lambda>(s, cl). length s)") auto

text \<open>The body: what the buffer holds of it and then the socket; a short read leaves null bytes.\<close>

definition read_body :: "'w socket_api \<Rightarrow> nat \<Rightarrow> string \<Rightarrow> 'w \<Rightarrow> (net_error + string) \<times> 'w" where
  "read_body so n buffered w =
     (let have_bytes = take n buffered in
      if length have_bytes < n
      then let (got, r, w) = so_read so (n - length have_bytes) w;
               response = take n (have_bytes @ got @ replicate n NUL)
           in (case retry_eintr r of Some e \<Rightarrow> Inl e | None \<Rightarrow> Inr response, w)
      else (Inr have_bytes, w))"

datatype call_failure = NetFailure net_error | Thrown exn

definition fault_translations :: "(string \<times> string) list" where
  "fault_translations =
     [(''BAD_NAME'', ''no such process''), (''NOT_RUNNING'', ''not running''),
      (''ALREADY_STARTED'', ''already running''), (''SPAWN_ERROR'', ''spawn error'')]"

fun translate_fault :: "(string \<times> string) list \<Rightarrow> string \<Rightarrow> exn" where
  "translate_fault [] fault = RuntimeError fault"
| "translate_fault ((code, friendly) # ts) fault =
     (let sep = code @ '': '' in
      if starts_with fault sep
      then let name = drop (length sep) fault in XmlRpcError code name (name @ '' - '' @ friendly)
      else translate_fault ts fault)"

fun find_fault_string :: "'pt ptree_api \<Rightarrow> (string \<times> 'pt) list \<Rightarrow> string" where
  "find_fault_string api [] = []"
| "find_fault_string api ((tag, t) # ms) =
     (if tag \<noteq> ''member'' then find_fault_string api ms
      else if get_str api t ''name'' \<noteq> Some ''faultString'' then find_fault_string api ms
      else (case get_str api t ''value.string'' of Some s \<Rightarrow> s | None \<Rightarrow> []))"

definition check_fault :: "'pt ptree_api \<Rightarrow> 'pt \<Rightarrow> unit res" where
  "check_fault api tree =
     (case get_child api tree ''methodResponse.fault.value.struct'' of
        None \<Rightarrow> Inr ()
      | Some st \<Rightarrow>
          let fault = find_fault_string api (children api st);
              fault = (if fault = [] then ''Unknown RPC fault'' else fault)
          in Inl (translate_fault fault_translations fault))"

fun translate_failure :: "string \<Rightarrow> call_failure \<Rightarrow> exn" where
  "translate_failure path (Thrown (XmlRpcError c n m)) = XmlRpcError c n m"
| "translate_failure path (NetFailure ConnectionRefused) =
     RuntimeError (''Connection refused '' @ [CHR 0xE2, CHR 0x80, CHR 0x94] @ '' is supervisord running?'')"
| "translate_failure path (NetFailure (SystemCategory m)) =
     RuntimeError (''Connection failed: '' @ m @ '' ('' @ path @ '')'')"
| "translate_failure path (NetFailure (OtherCategory m)) = RuntimeError (''RPC error: '' @ m)"
| "translate_failure path (Thrown e) = RuntimeError (''RPC error: '' @ what e)"

text \<open>The exchange on a fresh socket, before errors are translated.\<close>

definition exchange :: "'w socket_api \<Rightarrow> string \<Rightarrow> string \<Rightarrow> 'w \<Rightarrow> (call_failure + string) \<times> 'w" where
  "exchange so path http_request w =
     (let (r, w) = so_connect so path w in
      case retry_eintr r of
        Some e \<Rightarrow> (Inl (NetFailure e), w)
      | None \<Rightarrow>
          (let (r, w) = so_write so http_request w in
           case retry_eintr r of
             Some e \<Rightarrow> (Inl (NetFailure e), w)
           | None \<Rightarrow>
               (let (buf, r, w) = so_read_until so w in
                case retry_eintr r of
                  Some e \<Rightarrow> (Inl (NetFailure e), w)
                | None \<Rightarrow>
                    (case read_headers buf 0 of
                       Inl e \<Rightarrow> (Inl (Thrown e), w)
                     | Inr (n, buffered) \<Rightarrow>
                         (case read_body so n buffered w of
                            (Inl e, w) \<Rightarrow> (Inl (NetFailure e), w)
                          | (Inr body, w) \<Rightarrow> (Inr body, w))))))"

definition call_method ::
  "'pt ptree_api \<Rightarrow> 'w socket_api \<Rightarrow> string \<Rightarrow> string \<Rightarrow> string list \<Rightarrow> 'w \<Rightarrow> 'pt res \<times> 'w" where
  "call_method api so path method_name params w =
     (let (r, w) = exchange so path (build_http_request (build_xmlrpc_request method_name params)) w
      in (case r of
            Inl f \<Rightarrow> Inl (translate_failure path f)
          | Inr body \<Rightarrow>
              (case bind_res (read_xml api body) (\<lambda>tree. bind_res (check_fault api tree) (\<lambda>_. Inr tree)) of
                 Inl e \<Rightarrow> Inl (translate_failure path (Thrown e))
               | Inr tree \<Rightarrow> Inr tree),
          w))"

section \<open>Process information\<close>

record ctl_info =
  ci_name :: string
  ci_statename :: string
  ci_pid :: "int option"
  ci_description :: string

definition info_member :: "'pt ptree_api \<Rightarrow> 'pt \<Rightarrow> ctl_info \<Rightarrow> ctl_info res" where
  "info_member api t i =
     bind_res (require ''name'' (get_str api t ''name''))
       (\<lambda>name. let text = (\<lambda>d. case get_str api t ''value.string'' of Some s \<Rightarrow> s | None \<Rightarrow> d) in
          Inr (if name = ''name'' then i\<lparr>ci_name := text []\<rparr>
               else if name = ''statename'' then i\<lparr>ci_statename := text ''UNKNOWN''\<rparr>
               else if name = ''pid'' then i\<lparr>ci_pid := Some (case get_int api t ''value.int'' of Some n \<Rightarrow> n | None \<Rightarrow> -1)\<rparr>
               else if name = ''description'' then i\<lparr>ci_description := text []\<rparr>
               else i))"

definition info_from :: "'pt ptree_api \<Rightarrow> 'pt \<Rightarrow> ctl_info res" where
  "info_from api t =
     (case get_child api t ''struct'' of
        None \<Rightarrow> Inl (RuntimeError ''ProcessInfo expected struct'')
      | Some st \<Rightarrow>
          fold_res (\<lambda>(tag, m) i. if tag = ''member'' then info_member api m i else Inr i) (children api st)
            \<lparr>ci_name = [], ci_statename = [], ci_pid = None, ci_description = []\<rparr>)"

definition failed_parse :: "'a res \<Rightarrow> 'a res" where
  "failed_parse r = (case r of Inl e \<Rightarrow> Inl (RuntimeError (''Failed to parse response: '' @ what e)) | Inr v \<Rightarrow> Inr v)"

definition parse_process_info :: "'pt ptree_api \<Rightarrow> 'pt \<Rightarrow> ctl_info res" where
  "parse_process_info api tree =
     failed_parse (bind_res (require ''methodResponse.params.param.value''
       (get_child api tree ''methodResponse.params.param.value'')) (info_from api))"

definition parse_process_info_array :: "'pt ptree_api \<Rightarrow> 'pt \<Rightarrow> ctl_info list res" where
  "parse_process_info_array api tree =
     failed_parse (bind_res (require ''methodResponse.params.param.value''
       (get_child api tree ''methodResponse.params.param.value''))
       (\<lambda>v. case get_child api v ''array.data'' of
              None \<Rightarrow> Inr []
            | Some arr \<Rightarrow>
                fold_res (\<lambda>(tag, t) acc. if tag = ''value'' then bind_res (info_from api t) (\<lambda>i. Inr (acc @ [i])) else Inr acc)
                  (children api arr) []))"

section \<open>Commands\<close>

record 'w ctl =
  ct_out :: string
  ct_err :: string
  ct_world :: 'w

text \<open>What a command needs: the parser, the socket and the socket's path.\<close>

record ('pt, 'w) client =
  cl_api :: "'pt ptree_api"
  cl_so :: "'w socket_api"
  cl_socket_path :: string

definition out :: "string \<Rightarrow> 'w ctl \<Rightarrow> 'w ctl" where
  "out s k = k\<lparr>ct_out := ct_out k @ s\<rparr>"

definition err :: "string \<Rightarrow> 'w ctl \<Rightarrow> 'w ctl" where
  "err s k = k\<lparr>ct_err := ct_err k @ s\<rparr>"

definition call :: "('pt, 'w) client \<Rightarrow> string \<Rightarrow> string list \<Rightarrow> 'w ctl \<Rightarrow> 'pt res \<times> 'w ctl" where
  "call cl method params k =
     (let (r, w) = call_method (cl_api cl) (cl_so cl) (cl_socket_path cl) method params (ct_world k)
      in (r, k\<lparr>ct_world := w\<rparr>))"

text \<open>A call followed by more work, which is skipped when the call throws.\<close>

definition then_do :: "('a res \<times> 'w ctl) \<Rightarrow> ('a \<Rightarrow> 'w ctl \<Rightarrow> int res \<times> 'w ctl) \<Rightarrow> int res \<times> 'w ctl" where
  "then_do rk f = (case rk of (Inl e, k) \<Rightarrow> (Inl e, k) | (Inr v, k) \<Rightarrow> f v k)"

definition pad_right :: "nat \<Rightarrow> string \<Rightarrow> string" where
  "pad_right n s = s @ replicate (n - length s) (CHR '' '')"

definition print_process_info :: "ctl_info \<Rightarrow> 'w ctl \<Rightarrow> 'w ctl" where
  "print_process_info i k =
     out (pad_right 20 (ci_name i) @ pad_right 15 (ci_statename i) @ ci_description i @ [NL]) k"

definition print_process_infos :: "ctl_info list \<Rightarrow> 'w ctl \<Rightarrow> 'w ctl" where
  "print_process_infos is k = fold print_process_info is k"

definition cmdExit :: "string list \<Rightarrow> 'w ctl \<Rightarrow> int res \<times> 'w ctl" where
  "cmdExit args k = (Inr (-1), k)"

definition cmdReload :: "('pt, 'w) client \<Rightarrow> string list \<Rightarrow> 'w ctl \<Rightarrow> int res \<times> 'w ctl" where
  "cmdReload cl args k =
     then_do (call cl ''supervisor.reloadConfig'' [] (out (''Reloading supervisord configuration...'' @ [NL]) k))
       (\<lambda>_ k. (Inr 0, out (''Configuration reloaded'' @ [NL]) k))"

definition name_required :: "'w ctl \<Rightarrow> int res \<times> 'w ctl" where
  "name_required k = (Inr 1, err (''Error: process name required'' @ [NL]) k)"

definition cmdRestart :: "('pt, 'w) client \<Rightarrow> string list \<Rightarrow> 'w ctl \<Rightarrow> int res \<times> 'w ctl" where
  "cmdRestart cl args k =
     (case args of
        [] \<Rightarrow> name_required k
      | name # _ \<Rightarrow>
          if name = ''all''
          then then_do (call cl ''supervisor.stopAllProcesses'' [] k)
                 (\<lambda>_ k. then_do (call cl ''supervisor.startAllProcesses'' [] k)
                    (\<lambda>_ k. (Inr 0, out (''All processes restarted'' @ [NL]) k)))
          else let (r, k) = call cl ''supervisor.stopProcess'' [name] k;
                   tolerated = (case r of Inl (XmlRpcError code n m) \<Rightarrow> code = ''NOT_RUNNING'' | Inl e \<Rightarrow> False | Inr _ \<Rightarrow> True)
               in case r of
                    Inl e \<Rightarrow>
                      if \<not> tolerated then (Inl e, k)
                      else then_do (call cl ''supervisor.startProcess'' [name] k)
                             (\<lambda>_ k. (Inr 0, out (name @ '': restarted'' @ [NL]) k))
                  | Inr _ \<Rightarrow>
                      then_do (call cl ''supervisor.startProcess'' [name] k)
                        (\<lambda>_ k. (Inr 0, out (name @ '': restarted'' @ [NL]) k)))"

definition cmdShutdown :: "('pt, 'w) client \<Rightarrow> string list \<Rightarrow> 'w ctl \<Rightarrow> int res \<times> 'w ctl" where
  "cmdShutdown cl args k =
     then_do (call cl ''supervisor.shutdown'' [] (out (''Shutting down supervisord'' @ [NL]) k)) (\<lambda>_ k. (Inr 0, k))"

definition cmdStart :: "('pt, 'w) client \<Rightarrow> string list \<Rightarrow> 'w ctl \<Rightarrow> int res \<times> 'w ctl" where
  "cmdStart cl args k =
     (case args of
        [] \<Rightarrow> name_required k
      | name # _ \<Rightarrow>
          if name = ''all''
          then then_do (call cl ''supervisor.startAllProcesses'' [] k)
                 (\<lambda>_ k. (Inr 0, out (''All processes started'' @ [NL]) k))
          else then_do (call cl ''supervisor.startProcess'' [name] k)
                 (\<lambda>_ k. (Inr 0, out (name @ '': started'' @ [NL]) k)))"

definition cmdStop :: "('pt, 'w) client \<Rightarrow> string list \<Rightarrow> 'w ctl \<Rightarrow> int res \<times> 'w ctl" where
  "cmdStop cl args k =
     (case args of
        [] \<Rightarrow> name_required k
      | name # _ \<Rightarrow>
          if name = ''all''
          then then_do (call cl ''supervisor.stopAllProcesses'' [] k)
                 (\<lambda>_ k. (Inr 0, out (''All processes stopped'' @ [NL]) k))
          else then_do (call cl ''supervisor.stopProcess'' [name] k)
                 (\<lambda>_ k. (Inr 0, out (name @ '': stopped'' @ [NL]) k)))"

definition cmdStatus :: "('pt, 'w) client \<Rightarrow> string list \<Rightarrow> 'w ctl \<Rightarrow> int res \<times> 'w ctl" where
  "cmdStatus cl args k =
     (if args = [] \<or> hd args = ''all''
      then then_do (call cl ''supervisor.getAllProcessInfo'' [] k)
             (\<lambda>t k. case parse_process_info_array (cl_api cl) t of
                      Inl e \<Rightarrow> (Inl e, k)
                    | Inr is \<Rightarrow> (Inr 0, print_process_infos is k))
      else then_do (call cl ''supervisor.getProcessInfo'' [hd args] k)
             (\<lambda>t k. case parse_process_info (cl_api cl) t of
                      Inl e \<Rightarrow> (Inl e, k)
                    | Inr i \<Rightarrow> (Inr 0, print_process_info i k)))"

text \<open>The command table: name, description of the arguments, description.\<close>

definition command_table :: "(string \<times> string \<times> string) list" where
  "command_table =
     [(''status'', ''[name]'', ''Show process status''), (''start'', ''<name|all>'', ''Start process(es)''),
      (''stop'', ''<name|all>'', ''Stop process(es)''), (''restart'', ''<name|all>'', ''Restart process(es)''),
      (''shutdown'', [], ''Shutdown supervisord''), (''reload'', [], ''Reload configuration''),
      (''help'', [], ''Show this help''), (''exit'', [], ''Exit supervisorctl''), (''quit'', [], [])]"

definition help_line :: "string \<times> string \<times> string \<Rightarrow> string" where
  "help_line cmd =
     (case cmd of (method, desc_args, desc) \<Rightarrow>
        if desc = [] then []
        else let w = length method + length desc_args;
                 w = (if w < 22 then 22 - length method - 1 else w)
             in ''  '' @ method @ '' '' @ pad_right w desc_args @ desc @ [NL])"

definition cmdHelp :: "string list \<Rightarrow> 'w ctl \<Rightarrow> int res \<times> 'w ctl" where
  "cmdHelp args k = (Inr 0, out (''Commands:'' @ [NL] @ concat (map help_line command_table)) k)"

definition run_command :: "('pt, 'w) client \<Rightarrow> string \<Rightarrow> (string list \<Rightarrow> 'w ctl \<Rightarrow> int res \<times> 'w ctl) option" where
  "run_command cl method =
     map_of [(''status'', cmdStatus cl), (''start'', cmdStart cl), (''stop'', cmdStop cl), (''restart'', cmdRestart cl),
       (''shutdown'', cmdShutdown cl), (''reload'', cmdReload cl), (''help'', cmdHelp), (''exit'', cmdExit),
       (''quit'', cmdExit)] method"

definition execute_command :: "('pt, 'w) client \<Rightarrow> string \<Rightarrow> string list \<Rightarrow> 'w ctl \<Rightarrow> int \<times> 'w ctl" where
  "execute_command cl method args k =
     (if method = [] then (0, k)
      else case run_command cl method of
             None \<Rightarrow> (1, err (''Use '' @ [SQUOTE] @ ''help'' @ [SQUOTE] @ '' for available commands'' @ [NL]) (err (''Error: unknown command '' @ [SQUOTE] @ method @ [SQUOTE] @ [NL]) k))
           | Some f \<Rightarrow>
               (case f args k of
                  (Inr rc, k) \<Rightarrow> (rc, k)
                | (Inl e, k) \<Rightarrow> (1, err (''Error: '' @ what e @ [NL]) k)))"

text \<open>The interactive loop reads the lines of standard input.\<close>

fun interactive_mode ::
  "boost_algo \<Rightarrow> (string \<Rightarrow> string list) \<Rightarrow> ('pt, 'w) client \<Rightarrow> string list \<Rightarrow> 'w ctl \<Rightarrow> 'w ctl" where
  "interactive_mode B split cl [] k = out [NL] (out ''supervisor> '' k)"
| "interactive_mode B split cl (l # lines) k =
     (let k = out ''supervisor> '' k; line = trim_copy B l in
      if line = [] then interactive_mode B split cl lines k
      else case split line of
             [] \<Rightarrow> interactive_mode B split cl lines k
           | method # args \<Rightarrow>
               let (rc, k) = execute_command cl method args k in
               if rc = -1 then out [NL] k else interactive_mode B split cl lines k)"

section \<open>A request arrives as it was sent\<close>

definition request_prefix :: string where
  "request_prefix = ''POST /RPC2 HTTP/1.1'' @ CRLF @ ''Content-Type: text/xml'' @ CRLF @ ''Content-Length: ''"

definition http_headers :: "nat \<Rightarrow> string" where
  "http_headers n = request_prefix @ show_nat n @ CRLF @ ''Connection: close''"

lemma build_http_request_text: "build_http_request body = request_text (http_headers (length body)) body"
  by (simp add: build_http_request_def request_text_def http_headers_def request_prefix_def)

lemma find_str_skip:
  assumes "\<forall>c\<in>set ds. c \<noteq> p"
  shows "find_str (p # ps) (ds @ t) = map_option ((+) (length ds)) (find_str (p # ps) t)"
  using assms by (induction ds; cases "find_str (p # ps) t") auto

lemma digits_no_line_end: "\<forall>c\<in>set (show_nat n). c \<noteq> CR" "\<forall>c\<in>set (show_nat n). c \<noteq> NL"
  using show_nat_digits[of n] by (auto simp: charclass)

lemma http_header_ends:
  "find_str (CRLF @ CRLF) (http_headers n @ CRLF @ CRLF) = Some (length (http_headers n))"
  "find_str [NL, NL] (http_headers n @ CRLF @ CRLF) = None"
proof -
  let ?t = "CRLF @ ''Connection: close'' @ CRLF @ CRLF"
  have t: "find_str (CRLF @ CRLF) ?t = Some 19" "find_str [NL, NL] ?t = None" by code_simp+
  have d: "find_str (CRLF @ CRLF) (show_nat n @ ?t) = Some (length (show_nat n) + 19)"
    "find_str [NL, NL] (show_nat n @ ?t) = None"
    using find_str_skip[OF digits_no_line_end(1)[of n], of "[NL, CR, NL]" ?t]
      find_str_skip[OF digits_no_line_end(2)[of n], of "[NL]" ?t] t by (simp_all add: CRLF_def)
  obtain c cs where s: "show_nat n = c # cs" by (meson neq_Nil_conv show_nat_nonempty)
  have h: "http_headers n @ CRLF @ CRLF = request_prefix @ (show_nat n @ ?t)" by (simp add: http_headers_def)
  have len: "length (http_headers n) = length request_prefix + (length (show_nat n) + 19)"
    by (simp add: http_headers_def)
  show "find_str (CRLF @ CRLF) (http_headers n @ CRLF @ CRLF) = Some (length (http_headers n))"
    unfolding h len using d(1) by (simp add: request_prefix_def CRLF_def s)
  show "find_str [NL, NL] (http_headers n @ CRLF @ CRLF) = None"
    unfolding h using d(2) by (simp add: request_prefix_def CRLF_def s)
qed

lemma http_content_length:
  assumes "boost_ok B" "n < 2 ^ 64"
  shows "content_length B (http_headers n) = Inr (Some n)"
proof -
  let ?h = "http_headers n"
  have len: "length request_prefix = 61" by (simp add: request_prefix_def)
  have "find_str (lower ''content-length:'') (lower request_prefix) = Some 45" by code_simp
  then have "find_str (lower ''content-length:'') (lower ?h) = Some 45"
    unfolding http_headers_def lower_append by (rule find_str_append)
  then have cl: "ifind_first B ?h ''content-length:'' = Some (45, 60)"
    by (simp add: boost_okD(4)[OF assms(1)])
  obtain c cs where s: "show_nat n = c # cs" by (meson neq_Nil_conv show_nat_nonempty)
  then have c: "isdigit c" using show_nat_digits[of n] by simp
  have d60: "drop 60 ?h = CHR '' '' # show_nat n @ CRLF @ ''Connection: close''"
    by (simp add: http_headers_def request_prefix_def CRLF_def)
  have d61: "drop 61 ?h = show_nat n @ CRLF @ ''Connection: close''"
    by (simp add: http_headers_def request_prefix_def CRLF_def)
  have vs: "find_char_from (\<lambda>c. c \<noteq> CHR '' '' \<and> c \<noteq> TAB) ?h 60 = Some 61"
    using c by (auto simp: find_char_from_def d60 s charclass)
  have "find_char (\<lambda>c. c = CR \<or> c = NL) (show_nat n @ CRLF @ ''Connection: close'') = Some (length (show_nat n))"
    using find_char_skip[of "show_nat n" "\<lambda>c. c = CR \<or> c = NL"] digits_no_line_end[of n] by (auto simp: CRLF_def)
  then have ve: "find_char_from (\<lambda>c. c = CR \<or> c = NL) ?h 61 = Some (61 + length (show_nat n))"
    by (simp add: find_char_from_def d61)
  have "substr ?h 61 (length (show_nat n)) = show_nat n" by (simp add: substr_def d61)
  moreover have "stoull (show_nat n) = Inr n" using stoull_show_nat[OF assms(2), of "[]"] by simp
  ultimately show ?thesis by (simp add: content_length_def cl vs ve)
qed

lemma http_request_framed:
  assumes "boost_ok B" "length body < 2 ^ 64"
  shows "framed B (http_headers (length body)) body"
  unfolding framed_def using http_header_ends http_content_length[OF assms] by blast

text \<open>The body of the answer to a call, and a connection that has received a request and answered it.\<close>

definition answer :: "string res \<Rightarrow> string" where
  "answer r = (case r of Inr v \<Rightarrow> generate_xmlrpc_response v | Inl e \<Rightarrow> generate_xmlrpc_fault 1 (what e))"

definition answered :: "string \<Rightarrow> string res \<Rightarrow> connection" where
  "answered request r =
     send_response (answer r) ((start_connection new_connection)\<lparr>cn_reading := False, cn_request_data := request\<rparr>)"

lemma answered_fields:
  "cn_written (answered q r) = [generate_http_response (answer r)]" "\<not> cn_reading (answered q r)"
  by (simp_all add: answered_def send_response_def start_connection_def begin_read_def new_connection_def)

lemma request_fed:
  assumes "boost_ok B" "concat ds = build_http_request body" "list_all (\<lambda>d. d \<noteq> []) ds"
    and "length (build_http_request body) \<le> 1024 * 1024"
    and "parse_xmlrpc_request api body = Inr (method, params)"
  shows "feed B api (Some d) ds (start_connection new_connection, s) =
    map_option (\<lambda>(r, s'). Inr (answered (build_http_request body) r, s')) (d method params s)"
proof -
  let ?h = "http_headers (length body)"
  have len: "length body < 2 ^ 64" using assms(4) by (simp add: build_http_request_def)
  note fr = http_request_framed[OF assms(1) len]
  have bt: "build_http_request body = request_text ?h body" by (rule build_http_request_text)
  have ne: "ds \<noteq> []" using assms(2) by (auto simp: build_http_request_def)
  let ?c = "start_connection new_connection"
  have f: "feed B api (Some d) ds (?c, s) = map_option Inr (process_request api (Some d) (request_text ?h body)
      (?c\<lparr>cn_reading := False, cn_request_data := request_text ?h body\<rparr>) s)"
    using assms(2-4) ne bt
    by (intro feed_from[OF fr]) (simp_all add: MAX_REQUEST_SIZE_def start_connection_def begin_read_def new_connection_def)
  have he: "find_header_end (request_text ?h body) = Some (length ?h, length ?h + 4)"
    using header_end_of_part[OF fr, of "length (request_text ?h body)"] by (simp add: request_text_def)
  have "drop (length ?h + 4) (request_text ?h body) = body" by (simp add: request_text_def)
  then have "run_request api (Some d) (request_text ?h body) s = d method params s"
    using assms(5) by (simp add: run_request_def he)
  with f bt show ?thesis
    by (cases "d method params s") (auto simp: process_request_def answered_def answer_def)
qed

text \<open>
  Auxiliary property: A request built by the client arrives whole and is answered once, however the socket cuts
  it into pieces: for every division of its bytes into non-empty reads, of at most one megabyte
  in all, the server calls the handler of the named method exactly once with the parameters that
  the body stands for, and, if that returns, writes one HTTP response whose body is the handler's
  result or the fault for its exception.
\<close>

theorem request_arrives_intact:
  assumes "boost_ok B" "concat ds = build_http_request body" "list_all (\<lambda>d. d \<noteq> []) ds"
    and "length (build_http_request body) \<le> 1024 * 1024"
    and "parse_xmlrpc_request api body = Inr (method, params)" "d method params s = Some (r, s')"
  shows "\<exists>c. feed B api (Some d) ds (start_connection new_connection, s) = Some (Inr (c, s')) \<and>
    cn_written c = [generate_http_response
      (case r of Inr v \<Rightarrow> generate_xmlrpc_response v | Inl e \<Rightarrow> generate_xmlrpc_fault 1 (what e))] \<and>
    \<not> cn_reading c"
  using request_fed[OF assms(1-5), of d s] assms(6) answered_fields[of "build_http_request body" r]
  by (simp add: answer_def)

text \<open>A parser that finds one method name in every document, at which the theorem is instantiated.\<close>

definition one_method_api :: "unit ptree_api" where
  "one_method_api = null_api\<lparr>read_xml := (\<lambda>_. Inr ()),
     get_str := (\<lambda>_ p. if p = ''methodCall.methodName'' then Some ''m'' else None)\<rparr>"

theorem request_arrives_intact_witness:
  "\<exists>c. feed classic_boost one_method_api (Some (\<lambda>m ps s. Some (Inr m, Suc s))) [build_http_request ''x'']
       (start_connection new_connection, 0) = Some (Inr (c, 1)) \<and>
     cn_written c = [generate_http_response (generate_xmlrpc_response ''m'')]"
proof -
  have "parse_xmlrpc_request one_method_api ''x'' = Inr (''m'', [])"
    by (simp add: parse_xmlrpc_request_def one_method_api_def null_api_def parse_params_def)
  moreover have "length (build_http_request ''x'') \<le> 1024 * 1024"
    by (simp add: build_http_request_def show_nat.simps[of "Suc 0"])
  moreover have "list_all (\<lambda>d. d \<noteq> []) [build_http_request ''x'']" by (simp add: build_http_request_def)
  ultimately show ?thesis
    using request_arrives_intact[OF boost_ok_classic, of "[build_http_request ''x'']" "''x''" one_method_api "''m''" "[]"
        "\<lambda>m ps s. Some (Inr m, Suc s)" 0 "Inr ''m''" 1] by auto
qed

section \<open>A response is read back as it was written\<close>

text \<open>
  What a socket promises that delivers a message: \<open>read_until\<close> returns some of it that
  contains the end of the headers, and a read of no more bytes than are left then fills its buffer with the
  following ones. Nothing is said of a read of more, which fails at the end of the stream.
\<close>

definition delivers :: "'w socket_api \<Rightarrow> 'w \<Rightarrow> string \<Rightarrow> bool" where
  "delivers so w msg \<longleftrightarrow>
     (\<exists>buf rest w'. so_read_until so w = (buf, OpOk, w') \<and> buf @ rest = msg \<and>
        find_str (CRLF @ CRLF) buf \<noteq> None \<and> (\<forall>n\<le>length rest. \<exists>w''. so_read so n w' = (take n rest, OpOk, w'')))"

lemma read_headers_line:
  assumes "\<forall>c\<in>set l. c \<noteq> NL" "l \<noteq> [CR]"
  shows "read_headers (l @ NL # t) cl =
    (if prefix ''Content-Length:'' l then bind_res (stoull (drop 15 l)) (\<lambda>n. read_headers t n) else read_headers t cl)"
proof -
  have tw: "takeWhile (\<lambda>x. x \<noteq> NL) (l @ NL # t) = l" using assms(1) by (simp add: takeWhile_append2)
  obtain c cs where cc: "l @ NL # t = c # cs" by (cases l) auto
  have "drop (Suc (length l)) (l @ NL # t) = t" by simp
  then show ?thesis using tw assms(2) unfolding cc by (simp add: Let_def)
qed

lemma read_headers_end: "read_headers (CR # NL # t) cl = Inr (cl, t)"
  by (simp add: Let_def)

definition response_prefix :: string where
  "response_prefix = ''HTTP/1.1 200 OK'' @ CRLF @ ''Content-Type: text/xml'' @ CRLF @ ''Content-Length: ''"

definition response_headers :: "nat \<Rightarrow> string" where
  "response_headers n = response_prefix @ show_nat n @ CRLF @ ''Connection: close''"

lemma response_header_end:
  "find_str (CRLF @ CRLF) (response_headers n @ CRLF @ CRLF) = Some (length (response_headers n))"
proof -
  let ?t = "CRLF @ ''Connection: close'' @ CRLF @ CRLF"
  have t: "find_str (CRLF @ CRLF) ?t = Some 19" by code_simp
  have d: "find_str (CRLF @ CRLF) (show_nat n @ ?t) = Some (length (show_nat n) + 19)"
    using find_str_skip[OF digits_no_line_end(1)[of n], of "[NL, CR, NL]" ?t] t by (simp add: CRLF_def)
  obtain c cs where s: "show_nat n = c # cs" by (meson neq_Nil_conv show_nat_nonempty)
  have h: "response_headers n @ CRLF @ CRLF = response_prefix @ (show_nat n @ ?t)" by (simp add: response_headers_def)
  have len: "length (response_headers n) = length response_prefix + (length (show_nat n) + 19)"
    by (simp add: response_headers_def)
  show ?thesis unfolding h len using d by (simp add: response_prefix_def CRLF_def s)
qed

lemma http_response_text: "generate_http_response body = request_text (response_headers (length body)) body"
  by (simp add: generate_http_response_def request_text_def response_headers_def response_prefix_def)

lemma stoull_space: "stoull (CHR '' '' # s) = stoull s"
  by (simp add: stoull_def sto_unsigned_def isspace_def ccode_def)

lemma read_response_headers:
  assumes "n < 2 ^ 64"
  shows "read_headers (response_headers n @ CRLF @ CRLF @ t) 0 = Inr (n, t)"
proof -
  let ?l1 = "''HTTP/1.1 200 OK'' @ [CR]" and ?l2 = "''Content-Type: text/xml'' @ [CR]"
  let ?l3 = "''Content-Length: '' @ show_nat n @ [CR]" and ?l4 = "''Connection: close'' @ [CR]"
  have eq: "response_headers n @ CRLF @ CRLF @ t = ?l1 @ NL # ?l2 @ NL # ?l3 @ NL # ?l4 @ NL # CR # NL # t"
    by (simp add: response_headers_def response_prefix_def CRLF_def)
  have r1: "read_headers (?l1 @ NL # x) cl = read_headers x cl" for x cl
    by (subst read_headers_line) auto
  have r2: "read_headers (?l2 @ NL # x) cl = read_headers x cl" for x cl
    by (subst read_headers_line) auto
  have v: "stoull (drop 15 ?l3) = Inr n"
    using stoull_show_nat[OF assms, of "[CR]"] by (simp add: stoull_space charclass)
  have r3: "read_headers (?l3 @ NL # x) cl = read_headers x n" for x cl
  proof -
    have a: "\<forall>c\<in>set ?l3. c \<noteq> NL" using digits_no_line_end(2)[of n] by auto
    have b: "?l3 \<noteq> [CR]" and p: "prefix ''Content-Length:'' ?l3" by simp_all
    have "read_headers (?l3 @ NL # x) cl = bind_res (stoull (drop 15 ?l3)) (\<lambda>m. read_headers x m)"
      using read_headers_line[OF a b, of x cl] p by (simp only: if_True)
    then show ?thesis unfolding v by (simp only: bind_res_simps)
  qed
  have r4: "read_headers (?l4 @ NL # x) cl = read_headers x cl" for x cl
    by (subst read_headers_line) auto
  show ?thesis unfolding eq r1 r2 r3 r4 by (rule read_headers_end)
qed

lemma delivered_response:
  assumes "buf @ rest = generate_http_response body" "find_str (CRLF @ CRLF) buf \<noteq> None"
  obtains b where "buf = response_headers (length body) @ CRLF @ CRLF @ b" "b @ rest = body"
proof -
  let ?h = "response_headers (length body) @ CRLF @ CRLF"
  obtain k where k: "find_str (CRLF @ CRLF) buf = Some k" using assms(2) by blast
  have whole: "generate_http_response body = ?h @ body" by (simp add: http_response_text request_text_def)
  have "find_str (CRLF @ CRLF) (?h @ body) = Some (length (response_headers (length body)))"
    by (rule find_str_append[OF response_header_end])
  moreover have "find_str (CRLF @ CRLF) (?h @ body) = Some k"
    using find_str_append[OF k, of rest] assms(1) whole by simp
  ultimately have "k = length (response_headers (length body))" by simp
  then have "length ?h \<le> length buf" using find_str_le[OF k] by simp
  then obtain b where "buf = ?h @ b" using assms(1) whole
    by (metis append_eq_append_conv_if append_eq_conv_conj)
  with assms(1) whole that show thesis by auto
qed

lemma exchange_read_back:
  assumes "so_connect so path w = (OpOk, w1)" "so_write so request w1 = (OpOk, w2)"
    and "delivers so w2 (generate_http_response body)" "length body < 2 ^ 64"
  shows "fst (exchange so path request w) = Inr body"
proof -
  obtain buf rest w3 where d: "so_read_until so w2 = (buf, OpOk, w3)" "buf @ rest = generate_http_response body"
    "find_str (CRLF @ CRLF) buf \<noteq> None" "\<forall>n\<le>length rest. \<exists>w4. so_read so n w3 = (take n rest, OpOk, w4)"
    using assms(3) by (auto simp: delivers_def)
  obtain b where b: "buf = response_headers (length body) @ CRLF @ CRLF @ b" "b @ rest = body"
    using delivered_response[OF d(2,3)] .
  have h: "read_headers buf 0 = Inr (length body, b)" unfolding b(1) by (rule read_response_headers[OF assms(4)])
  have lb: "length b + length rest = length body" using b(2) by (metis length_append)
  then obtain w4 where r: "so_read so (length body - length b) w3 = (take (length body - length b) rest, OpOk, w4)"
    using d(4) by (metis add_diff_cancel_left' order_refl)
  have "fst (read_body so (length body) b w3) = Inr body"
  proof (cases "rest = []")
    case True
    with b(2) show ?thesis by (simp add: read_body_def)
  next
    case False
    then have lt: "length b < length body" using lb by (metis length_greater_0_conv less_add_same_cancel1)
    have "take (length body - length b) rest = rest" using lb by (intro take_all) simp
    moreover have "take (length body) (b @ rest @ replicate (length body) NUL) = body"
      using b(2) by (metis append_assoc append_eq_conv_conj)
    ultimately show ?thesis using r lt by (simp add: read_body_def Let_def del: take_append)
  qed
  then show ?thesis
    by (cases "read_body so (length body) b w3") (simp add: exchange_def assms(1,2) d(1) h)
qed

text \<open>
  Auxiliary property: The client reads back exactly the body the server sent: over a connection that delivers
  the server's HTTP response, however it splits the bytes between the header read and the
  following ones, the exchange returns that body, and what \<open>call_method\<close> then returns or
  throws is determined by the XML in it.
\<close>

theorem response_read_back:
  assumes "so_connect so path w = (OpOk, w1)" "so_write so request w1 = (OpOk, w2)"
    and "delivers so w2 (generate_http_response body)" "length body < 2 ^ 64"
  shows "fst (exchange so path request w) = Inr body"
  using assms by (rule exchange_read_back)

text \<open>A socket on which everything arrives at once, and then the end of the stream.\<close>

definition instant_socket :: "string \<Rightarrow> unit socket_api" where
  "instant_socket msg =
     \<lparr>so_connect = (\<lambda>_ w. (OpOk, w)), so_write = (\<lambda>_ w. (OpOk, w)), so_read_until = (\<lambda>w. (msg, OpOk, w)),
      so_read = (\<lambda>n w. ([], if n = 0 then OpOk else OpFailed (OtherCategory ''End of file''), w))\<rparr>"

lemma instant_response: "find_str (CRLF @ CRLF) (generate_http_response body) \<noteq> None"
proof -
  have "generate_http_response body = (response_headers (length body) @ CRLF @ CRLF) @ body"
    by (simp add: http_response_text request_text_def)
  then show ?thesis using find_str_append[OF response_header_end[of "length body"], of body] by simp
qed

theorem response_read_back_witness:
  "fst (exchange (instant_socket (generate_http_response ''ok'')) ''/s'' ''r'' ()) = Inr ''ok''"
proof -
  let ?m = "generate_http_response ''ok''"
  have "find_str (CRLF @ CRLF) ?m \<noteq> None" by (rule instant_response)
  then have "delivers (instant_socket ?m) () ?m" by (simp add: delivers_def instant_socket_def)
  then show ?thesis
    using response_read_back[of "instant_socket ?m" "''/s''" "()" "()" "''r''" "()" "''ok''"] by (simp add: instant_socket_def)
qed

section \<open>Faults\<close>

lemma translate_known_fault:
  assumes "(code, friendly) \<in> set fault_translations"
  shows "translate_fault fault_translations (code @ '': '' @ name) =
    XmlRpcError code name (name @ '' - '' @ friendly)"
proof -
  have "\<forall>t\<in>set fault_translations. translate_fault fault_translations (fst t @ '': '' @ name) =
      XmlRpcError (fst t) name (name @ '' - '' @ snd t)"
    by (simp add: fault_translations_def starts_with_def)
  from bspec[OF this assms] show ?thesis by simp
qed

text \<open>
  Auxiliary property: A fault the daemon's handlers raise as \<open>CODE: name\<close> reaches the user of the client as an
  exception with that code and that name and a readable message, for each of the codes BAD_NAME,
  NOT_RUNNING, ALREADY_STARTED and SPAWN_ERROR and any process name, even one that itself looks
  like a code.
\<close>

theorem fault_codes_survive:
  assumes "(code, friendly) \<in> set fault_translations"
    and "read_xml api body = Inr tree"
    and "get_child api tree ''methodResponse.fault.value.struct'' = Some st"
    and "children api st = [(''member'', a), (''member'', b)]"
    and "get_str api a ''name'' = Some ''faultCode''" "get_str api b ''name'' = Some ''faultString''"
    and "get_str api b ''value.string'' = Some (code @ '': '' @ name)"
    and "exchange so path (build_http_request (build_xmlrpc_request m ps)) w = (Inr body, w')"
  shows "call_method api so path m ps w = (Inl (XmlRpcError code name (name @ '' - '' @ friendly)), w')"
proof -
  have "check_fault api tree = Inl (XmlRpcError code name (name @ '' - '' @ friendly))"
    using translate_known_fault[OF assms(1), of name] by (simp add: check_fault_def assms(3-7) Let_def)
  with assms(2,8) show ?thesis by (simp add: call_method_def)
qed

text \<open>A parser that finds a fault in every document.\<close>

definition fault_api :: "string \<Rightarrow> string ptree_api" where
  "fault_api fault =
     \<lparr>read_xml = (\<lambda>_. Inr ''root''), read_ini = (\<lambda>_. Inl (RuntimeError ''ini'')),
      get_str = (\<lambda>t p. if p = ''name'' then Some t else Some fault), get_int = (\<lambda>_ _. None),
      get_child = (\<lambda>_ _. Some ''struct''),
      children = (\<lambda>_. [(''member'', ''faultCode''), (''member'', ''faultString'')])\<rparr>"

theorem fault_codes_survive_witness:
  "fst (call_method (fault_api ''NOT_RUNNING: web'') (instant_socket (generate_http_response ''ok'')) ''/s'' ''m'' [] ()) =
     Inl (XmlRpcError ''NOT_RUNNING'' ''web'' ''web - not running'')"
proof -
  let ?so = "instant_socket (generate_http_response ''ok'')"
  let ?req = "build_http_request (build_xmlrpc_request ''m'' [])"
  have "read_headers (response_headers (length ''ok'') @ CRLF @ CRLF @ ''ok'') 0 = Inr (length ''ok'', ''ok'')"
    by (rule read_response_headers) simp
  then have "exchange ?so ''/s'' ?req () = (Inr ''ok'', ())"
    by (simp add: exchange_def instant_socket_def http_response_text request_text_def read_body_def Let_def)
  then show ?thesis
    using fault_codes_survive[of "''NOT_RUNNING''" "''not running''" "fault_api ''NOT_RUNNING: web''" "''ok''" "''root''"
        "''struct''" "''faultCode''" "''faultString''" "''web''" ?so "''/s''" "''m''" "[]" "()" "()"]
    by (simp add: fault_translations_def fault_api_def)
qed

end
