(* ===== verification/Environment_Grammar.thy ===== *)
theory Environment_Grammar
  imports Prelude
begin

text \<open>
  The grammar of the \<open>environment\<close> setting of \<^verbatim>\<open>config_parser.cpp\<close>
  (\<open>parse_environment_\<close>), as the expression the code hands to Boost.Spirit. Spirit itself is
  code outside this repository: \<open>spirit_ok\<close> states what its manual promises of the operators
  the grammar uses, and an executable parser shows that the promise can be kept. The lemmas
  show what the grammar makes of a written environment.
\<close>

section \<open>Grammar expressions\<close>

text \<open>
  The operators of \<open>qi\<close> that build a rule with a string as its attribute: \<open>lit(c)\<close>,
  \<open>char_\<close>, \<open>char_(c)\<close>, \<open>alnum\<close>, difference, sequence, alternative, star, plus and
  \<open>raw[]\<close>; then the rule of one pair, and of a list of pairs between separators.
\<close>

datatype qi_rule =
    QLit char
  | QChar
  | QCharIs char
  | QAlnum
  | QDiff qi_rule qi_rule
  | QSeq qi_rule qi_rule
  | QAlt qi_rule qi_rule
  | QStar qi_rule
  | QPlus qi_rule
  | QRaw qi_rule

datatype qi_pair_rule = QPair qi_rule char qi_rule

datatype qi_list_rule = QList qi_pair_rule char

definition key_rule :: qi_rule where
  "key_rule = QPlus (QAlt QAlnum (QCharIs CHR ''_''))"

definition double_quoted :: qi_rule where
  "double_quoted =
     QSeq (QSeq (QLit DQUOTE) (QStar (QAlt (QSeq (QLit BACKSLASH) QChar) (QDiff QChar (QLit DQUOTE))))) (QLit DQUOTE)"

definition single_quoted :: qi_rule where
  "single_quoted =
     QSeq (QSeq (QLit SQUOTE) (QStar (QAlt (QSeq (QLit BACKSLASH) QChar) (QDiff QChar (QLit SQUOTE))))) (QLit SQUOTE)"

definition raw_value :: qi_rule where
  "raw_value = QRaw (QStar (QDiff QChar (QLit CHR '','')))"

definition value_rule :: qi_rule where
  "value_rule = QAlt (QAlt double_quoted single_quoted) raw_value"

definition pair_rule :: qi_pair_rule where
  "pair_rule = QPair key_rule CHR ''='' value_rule"

definition env_list :: qi_list_rule where
  "env_list = QList pair_rule CHR '',''"

section \<open>What the operators promise\<close>

text \<open>
  A rule matches a prefix of its input, giving the attribute and the input left, or fails. Spirit
  does not take back what an abandoned branch has added to an attribute, so failure is only
  claimed here of rules that fail before they have consumed anything that counts; of the rest
  nothing is assumed.
\<close>

inductive qi_match :: "qi_rule \<Rightarrow> string \<Rightarrow> string \<Rightarrow> string \<Rightarrow> bool"
  and qi_fail :: "qi_rule \<Rightarrow> string \<Rightarrow> bool" where
  lit: "qi_match (QLit c) (c # s) [] s"
| lit_fail: "s = [] \<or> hd s \<noteq> c \<Longrightarrow> qi_fail (QLit c) s"
| any: "qi_match QChar (c # s) [c] s"
| any_fail: "qi_fail QChar []"
| char_is: "qi_match (QCharIs c) (c # s) [c] s"
| char_is_fail: "s = [] \<or> hd s \<noteq> c \<Longrightarrow> qi_fail (QCharIs c) s"
| alnum: "isalnum c \<Longrightarrow> qi_match QAlnum (c # s) [c] s"
| alnum_fail: "s = [] \<or> \<not> isalnum (hd s) \<Longrightarrow> qi_fail QAlnum s"
| diff: "qi_fail b s \<Longrightarrow> qi_match a s x r \<Longrightarrow> qi_match (QDiff a b) s x r"
| diff_fail_right: "qi_match b s x r \<Longrightarrow> qi_fail (QDiff a b) s"
| diff_fail_left: "qi_fail b s \<Longrightarrow> qi_fail a s \<Longrightarrow> qi_fail (QDiff a b) s"
| sequence: "qi_match a s x r \<Longrightarrow> qi_match b r y t \<Longrightarrow> qi_match (QSeq a b) s (x @ y) t"
| sequence_fail: "qi_fail a s \<Longrightarrow> qi_fail (QSeq a b) s"
| alt_left: "qi_match a s x r \<Longrightarrow> qi_match (QAlt a b) s x r"
| alt_right: "qi_fail a s \<Longrightarrow> qi_match b s x r \<Longrightarrow> qi_match (QAlt a b) s x r"
| alt_fail: "qi_fail a s \<Longrightarrow> qi_fail b s \<Longrightarrow> qi_fail (QAlt a b) s"
| star_end: "qi_fail a s \<Longrightarrow> qi_match (QStar a) s [] s"
| star_more: "qi_match a s x r \<Longrightarrow> length r < length s \<Longrightarrow> qi_match (QStar a) r y t \<Longrightarrow>
    qi_match (QStar a) s (x @ y) t"
| plus: "qi_match a s x r \<Longrightarrow> qi_match (QStar a) r y t \<Longrightarrow> qi_match (QPlus a) s (x @ y) t"
| plus_fail: "qi_fail a s \<Longrightarrow> qi_fail (QPlus a) s"
| raw: "qi_match a (u @ r) x r \<Longrightarrow> qi_match (QRaw a) (u @ r) u r"

text \<open>
  The rules of pairs and lists run with the skipper \<open>space\<close>: blanks are passed over before
  each of their parts, never inside a key or a value. A list goes on for as long as separators
  follow.
\<close>

abbreviation skip_space :: "string \<Rightarrow> string" where
  "skip_space \<equiv> dropWhile isspace"

inductive pair_match :: "qi_pair_rule \<Rightarrow> string \<Rightarrow> string \<times> string \<Rightarrow> string \<Rightarrow> bool" where
  pair: "qi_match k (skip_space s) x r \<Longrightarrow> skip_space r = c # t \<Longrightarrow> qi_match v (skip_space t) y u \<Longrightarrow>
    pair_match (QPair k c v) s (x, y) u"

inductive list_match :: "qi_list_rule \<Rightarrow> string \<Rightarrow> (string \<times> string) list \<Rightarrow> string \<Rightarrow> bool" where
  one: "pair_match p s kv r \<Longrightarrow> skip_space r = [] \<or> hd (skip_space r) \<noteq> c \<Longrightarrow> list_match (QList p c) s [kv] r"
| more: "pair_match p s kv r \<Longrightarrow> skip_space r = c # t \<Longrightarrow> list_match (QList p c) t kvs u \<Longrightarrow>
    list_match (QList p c) s (kv # kvs) u"

text \<open>
  \<open>phrase_parse\<close> with a map as attribute: distinct keys become the entries of the map, and
  blanks after the match are passed over.
\<close>

definition spirit_ok :: "(qi_list_rule \<Rightarrow> string \<Rightarrow> (string smap \<times> string) option) \<Rightarrow> bool" where
  "spirit_ok pp \<longleftrightarrow> (\<forall>l s kvs r. list_match l s kvs r \<longrightarrow> distinct (map fst kvs) \<longrightarrow>
     pp l s = Some (fold (\<lambda>(k, v). map_put k v) kvs [], skip_space r))"

section \<open>Written environments\<close>

text \<open>An entry is written with blanks before it and its value in one of the three forms.\<close>

datatype quoting = DoubleQuotes | SingleQuotes | NoQuotes

fun quote_of :: "quoting \<Rightarrow> char option" where
  "quote_of DoubleQuotes = Some DQUOTE"
| "quote_of SingleQuotes = Some SQUOTE"
| "quote_of NoQuotes = None"

definition escaped :: "char \<Rightarrow> char \<Rightarrow> string" where
  "escaped q c = (if c = q \<or> c = BACKSLASH then [BACKSLASH, c] else [c])"

fun write_value :: "quoting \<Rightarrow> string \<Rightarrow> string" where
  "write_value f v =
     (case quote_of f of Some q \<Rightarrow> q # concat (map (escaped q) v) @ [q] | None \<Rightarrow> v)"

type_synonym env_entry = "string \<times> string \<times> quoting \<times> string"

fun write_entry :: "env_entry \<Rightarrow> string" where
  "write_entry (blanks, k, f, v) = blanks @ k @ ''='' @ write_value f v"

fun write_environment :: "env_entry list \<Rightarrow> string" where
  "write_environment [] = []"
| "write_environment [e] = write_entry e"
| "write_environment (e # es) = write_entry e @ '','' @ write_environment es"

fun binding :: "env_entry \<Rightarrow> string \<times> string" where
  "binding (blanks, k, f, v) = (k, v)"

definition key_char :: "char \<Rightarrow> bool" where
  [charclass]: "key_char c \<longleftrightarrow> isalnum c \<or> c = CHR ''_''"

definition plain_value :: "string \<Rightarrow> bool" where
  "plain_value v \<longleftrightarrow> CHR '','' \<notin> set v \<and> (v = [] \<or> \<not> isspace (hd v) \<and> hd v \<noteq> DQUOTE \<and> hd v \<noteq> SQUOTE)"

fun entry_written :: "env_entry \<Rightarrow> bool" where
  "entry_written (blanks, k, f, v) \<longleftrightarrow>
     list_all isspace blanks \<and> k \<noteq> [] \<and> list_all key_char k \<and> (f = NoQuotes \<longrightarrow> plain_value v)"

section \<open>The grammar reads what is written\<close>

lemma star_reads:
  assumes "\<forall>c\<in>set v. enc c \<noteq> [] \<and> (\<forall>s. qi_match a (enc c @ s) [c] s)" "qi_fail a r"
  shows "qi_match (QStar a) (concat (map enc v) @ r) v r"
  using assms(1)
proof (induction v)
  case Nil
  then show ?case by (simp add: star_end assms(2))
next
  case (Cons c v)
  let ?t = "concat (map enc v) @ r"
  have "qi_match a (enc c @ ?t) [c] ?t" "length ?t < length (enc c @ ?t)" using Cons.prems by simp_all
  from star_more[OF this] Cons show ?case by simp
qed

lemma star_reads_chars:
  assumes "\<forall>c\<in>set v. \<forall>s. qi_match a (c # s) [c] s" "qi_fail a r"
  shows "qi_match (QStar a) (v @ r) v r"
  using star_reads[of v "\<lambda>c. [c]" a r] assms by simp

lemma key_char_read: "key_char c \<Longrightarrow> qi_match (QAlt QAlnum (QCharIs CHR ''_'')) (c # s) [c] s"
proof (cases "isalnum c")
  case False
  assume "key_char c"
  with False have "c = CHR ''_''" by (simp add: key_char_def)
  with False show ?thesis by (intro alt_right alnum_fail) (simp_all add: char_is)
qed (simp add: alt_left alnum)

lemma key_read:
  assumes "k \<noteq> []" "list_all key_char k"
  shows "qi_match key_rule (k @ CHR ''='' # s) k (CHR ''='' # s)"
proof -
  obtain c k' where k: "k = c # k'" using assms(1) by (cases k) auto
  have "\<not> isalnum CHR ''=''" by (simp add: charclass)
  then have "qi_fail (QAlt QAlnum (QCharIs CHR ''_'')) (CHR ''='' # s)"
    by (intro alt_fail alnum_fail char_is_fail) simp_all
  then have "qi_match (QStar (QAlt QAlnum (QCharIs CHR ''_''))) (k' @ CHR ''='' # s) k' (CHR ''='' # s)"
    using assms(2) by (intro star_reads_chars) (auto simp: k list_all_iff intro: key_char_read)
  from plus[OF key_char_read this] show ?thesis using assms(2) by (simp add: key_rule_def k)
qed

lemma quoted_char_read:
  assumes "q \<noteq> BACKSLASH"
  shows "qi_match (QAlt (QSeq (QLit BACKSLASH) QChar) (QDiff QChar (QLit q))) (escaped q c @ s) [c] s"
proof (cases "c = q \<or> c = BACKSLASH")
  case True
  have "qi_match (QSeq (QLit BACKSLASH) QChar) (BACKSLASH # c # s) ([] @ [c]) s" by (rule sequence[OF lit any])
  with True show ?thesis by (simp add: escaped_def alt_left)
next
  case False
  then show ?thesis by (auto simp: escaped_def intro!: alt_right sequence_fail lit_fail diff any)
qed

lemma quoted_read:
  assumes "q \<noteq> BACKSLASH"
  shows "qi_match (QSeq (QSeq (QLit q) (QStar (QAlt (QSeq (QLit BACKSLASH) QChar) (QDiff QChar (QLit q))))) (QLit q))
           (q # concat (map (escaped q) v) @ q # s) v s"
proof -
  let ?a = "QAlt (QSeq (QLit BACKSLASH) QChar) (QDiff QChar (QLit q))"
  have "qi_fail ?a (q # s)" using assms by (auto intro!: alt_fail sequence_fail lit_fail diff_fail_right[OF lit])
  then have "qi_match (QStar ?a) (concat (map (escaped q) v) @ q # s) v (q # s)"
    using quoted_char_read[OF assms] by (intro star_reads) (auto simp: escaped_def)
  from sequence[OF sequence[OF lit this] lit] show ?thesis by simp
qed

lemma raw_read:
  assumes "CHR '','' \<notin> set v" "r = [] \<or> hd r = CHR '',''"
  shows "qi_match raw_value (v @ r) v r"
proof -
  have "qi_fail (QDiff QChar (QLit CHR '','')) r"
    using assms(2) diff_fail_right[OF lit] by (cases r) (auto intro: diff_fail_left any_fail lit_fail)
  then have "qi_match (QStar (QDiff QChar (QLit CHR '',''))) (v @ r) v r"
    using assms(1) by (intro star_reads_chars) (auto intro!: diff any lit_fail)
  then show ?thesis by (simp add: raw_value_def raw)
qed

lemma value_read:
  assumes "f = NoQuotes \<longrightarrow> plain_value v" "r = [] \<or> hd r = CHR '',''"
  shows "qi_match value_rule (skip_space (write_value f v @ r)) v r"
proof (cases f)
  case DoubleQuotes
  with quoted_read[of DQUOTE v r] show ?thesis
    by (simp add: value_rule_def double_quoted_def alt_left charclass)
next
  case SingleQuotes
  have "qi_fail double_quoted (SQUOTE # t)" for t by (simp add: double_quoted_def sequence_fail lit_fail)
  with SingleQuotes quoted_read[of SQUOTE v r] show ?thesis
    by (simp add: value_rule_def single_quoted_def alt_left alt_right charclass)
next
  case NoQuotes
  then have p: "plain_value v" using assms(1) by simp
  then have "v @ r = [] \<or> \<not> isspace (hd (v @ r)) \<and> hd (v @ r) \<noteq> DQUOTE \<and> hd (v @ r) \<noteq> SQUOTE"
    using assms(2) by (cases v) (auto simp: plain_value_def charclass hd_append)
  then have "skip_space (v @ r) = v @ r" "qi_fail double_quoted (v @ r)" "qi_fail single_quoted (v @ r)"
    by (cases "v @ r"; auto simp: double_quoted_def single_quoted_def intro!: sequence_fail lit_fail)+
  with raw_read[OF _ assms(2), of v] p NoQuotes show ?thesis
    by (simp add: value_rule_def plain_value_def alt_right alt_fail)
qed

lemma skip_blanks: "list_all isspace w \<Longrightarrow> skip_space (w @ s) = skip_space s"
  by (simp add: list_all_iff dropWhile_append2)

lemma entry_read:
  assumes "entry_written e" "r = [] \<or> hd r = CHR '',''"
  shows "pair_match pair_rule (write_entry e @ r) (binding e) r"
proof -
  obtain w k f v where e: "e = (w, k, f, v)" by (cases e)
  have k: "k \<noteq> []" "list_all key_char k" and w: "list_all isspace w" using assms(1) by (simp_all add: e)
  then have "\<not> isspace (hd k)" by (cases k) (auto simp: charclass)
  with k have "skip_space (k @ s) = k @ s" for s by (cases k) auto
  then have "skip_space (write_entry e @ r) = k @ CHR ''='' # write_value f v @ r"
    by (simp add: e skip_blanks[OF w])
  moreover have "skip_space (CHR ''='' # s) = CHR ''='' # s" for s by (simp add: charclass)
  moreover have "qi_match value_rule (skip_space (write_value f v @ r)) v r"
    using assms by (intro value_read) (simp_all add: e)
  ultimately show ?thesis
    unfolding pair_rule_def e binding.simps by (metis pair key_read[OF k])
qed

lemma environment_read:
  "list_all entry_written es \<Longrightarrow> es \<noteq> [] \<Longrightarrow> list_match env_list (write_environment es) (map binding es) []"
proof (induction es rule: write_environment.induct)
  case (2 e)
  then show ?case using entry_read[of e "[]"] by (auto simp: env_list_def intro: one)
next
  case (3 e e' es)
  let ?r = "CHR '','' # write_environment (e' # es)"
  have "pair_match pair_rule (write_entry e @ ?r) (binding e) ?r" using 3 by (intro entry_read) simp_all
  moreover have "skip_space ?r = ?r" by (simp add: charclass)
  ultimately show ?case using 3 by (simp add: env_list_def more)
qed simp

lemma spirit_reads:
  assumes "spirit_ok pp" "list_all entry_written es" "es \<noteq> []" "distinct (map fst (map binding es))"
  shows "pp env_list (write_environment es) = Some (fold (\<lambda>(k, v). map_put k v) (map binding es) [], [])"
  using assms environment_read[of es] unfolding spirit_ok_def by force

lemma fold_put_of:
  "distinct (map fst kvs) \<Longrightarrow> map_wf m \<Longrightarrow> map_wf (fold (\<lambda>(k, v). map_put k v) kvs m) \<and>
     map_of (fold (\<lambda>(k, v). map_put k v) kvs m) = map_of m ++ map_of kvs"
proof (induction kvs arbitrary: m)
  case (Cons kv kvs)
  obtain k v where kv: "kv = (k, v)" by fastforce
  have "map_of kvs k = None" using Cons.prems(1) by (simp add: kv map_of_eq_None_iff)
  with Cons kv show ?case
    by (auto simp: map_wf_put map_of_put map_add_def fun_eq_iff split: option.splits)
qed simp

section \<open>A parser that keeps the promise\<close>

fun star_run :: "(string \<Rightarrow> (string \<times> string) option) \<Rightarrow> nat \<Rightarrow> string \<Rightarrow> string \<times> string" where
  "star_run f 0 s = ([], s)"
| "star_run f (Suc n) s =
     (case f s of None \<Rightarrow> ([], s) | Some (x, r) \<Rightarrow> let (y, t) = star_run f n r in (x @ y, t))"

definition char_run :: "(char \<Rightarrow> bool) \<Rightarrow> string \<Rightarrow> (string \<times> string) option" where
  "char_run P s = (case s of c # r \<Rightarrow> if P c then Some ([c], r) else None | [] \<Rightarrow> None)"

definition then_run :: "(string \<times> string) option \<Rightarrow> (string \<Rightarrow> (string \<times> string) option) \<Rightarrow> (string \<times> string) option" where
  "then_run a f = (case a of None \<Rightarrow> None | Some (x, r) \<Rightarrow> map_option (\<lambda>(y, t). (x @ y, t)) (f r))"

primrec peg :: "qi_rule \<Rightarrow> string \<Rightarrow> (string \<times> string) option" where
  "peg (QLit c) s = map_option (\<lambda>(x, r). ([], r)) (char_run ((=) c) s)"
| "peg QChar s = char_run (\<lambda>_. True) s"
| "peg (QCharIs c) s = char_run ((=) c) s"
| "peg QAlnum s = char_run isalnum s"
| "peg (QDiff a b) s = (case peg b s of None \<Rightarrow> peg a s | Some _ \<Rightarrow> None)"
| "peg (QSeq a b) s = then_run (peg a s) (peg b)"
| "peg (QAlt a b) s = (case peg a s of None \<Rightarrow> peg b s | Some r \<Rightarrow> Some r)"
| "peg (QStar a) s = Some (star_run (peg a) (length s) s)"
| "peg (QPlus a) s = then_run (peg a s) (\<lambda>r. Some (star_run (peg a) (length r) r))"
| "peg (QRaw a) s = map_option (\<lambda>(x, r). (take (length s - length r) s, r)) (peg a s)"

fun peg_pair :: "qi_pair_rule \<Rightarrow> string \<Rightarrow> ((string \<times> string) \<times> string) option" where
  "peg_pair (QPair k c v) s =
     (case peg k (skip_space s) of None \<Rightarrow> None
      | Some (x, r) \<Rightarrow>
          (case skip_space r of [] \<Rightarrow> None
           | d # t \<Rightarrow> if d \<noteq> c then None
                     else map_option (\<lambda>(y, u). ((x, y), u)) (peg v (skip_space t))))"

fun peg_list :: "qi_pair_rule \<Rightarrow> char \<Rightarrow> nat \<Rightarrow> string \<Rightarrow> ((string \<times> string) list \<times> string) option" where
  "peg_list p c 0 s = None"
| "peg_list p c (Suc n) s =
     (case peg_pair p s of None \<Rightarrow> None
      | Some (kv, r) \<Rightarrow>
          (case skip_space r of [] \<Rightarrow> Some ([kv], r)
           | d # t \<Rightarrow> if d \<noteq> c then Some ([kv], r)
                     else (case peg_list p c n t of None \<Rightarrow> Some ([kv], r) | Some (kvs, u) \<Rightarrow> Some (kv # kvs, u))))"

fun peg_phrase :: "qi_list_rule \<Rightarrow> string \<Rightarrow> (string smap \<times> string) option" where
  "peg_phrase (QList p c) s =
     map_option (\<lambda>(kvs, r). (fold (\<lambda>(k, v). map_put k v) kvs [], skip_space r)) (peg_list p c (Suc (length s)) s)"

lemma qi_match_shrinks: "qi_match a s x r \<Longrightarrow> length r \<le> length s"
  by (induction rule: qi_match_qi_fail.inducts(1)[where ?P2.0 = "\<lambda>_ _. True"]) auto

lemma star_run_stops: "f s = None \<Longrightarrow> star_run f n s = ([], s)"
  by (cases n) simp_all

text \<open>
  The run of a rule agrees with what the operators promise; for a star, with any number of
  rounds that is at least the length of the input.
\<close>

fun keeps_star :: "qi_rule \<Rightarrow> string \<Rightarrow> string \<Rightarrow> string \<Rightarrow> bool" where
  "keeps_star (QStar a) s x r \<longleftrightarrow> (\<forall>n\<ge>length s. star_run (peg a) n s = (x, r))"
| "keeps_star g s x r \<longleftrightarrow> True"

lemma peg_keeps:
  "qi_match a s x r \<Longrightarrow> peg a s = Some (x, r) \<and> keeps_star a s x r"
  "qi_fail a s \<Longrightarrow> peg a s = None"
proof (induction rule: qi_match_qi_fail.inducts)
  case (star_more a s x r y t)
  have "star_run (peg a) n s = (x @ y, t)" if "length s \<le> n" for n
    using that star_more by (cases n) auto
  then show ?case by simp
qed (auto simp: char_run_def then_run_def star_run_stops split: list.splits option.splits)

lemma peg_pair_keeps: "pair_match p s kv r \<Longrightarrow> peg_pair p s = Some (kv, r)"
  by (induction rule: pair_match.induct) (auto dest!: peg_keeps(1))

lemma pair_match_shrinks: "pair_match p s kv r \<Longrightarrow> length r < length s"
proof (induction rule: pair_match.induct)
  case (pair k s x r c t v y u)
  have "length u \<le> length (skip_space t)" "length r \<le> length (skip_space s)"
    using pair qi_match_shrinks by blast+
  then show ?case
    using pair(2) length_dropWhile_le[of isspace r] length_dropWhile_le[of isspace s] length_dropWhile_le[of isspace t] by simp
qed

lemma peg_list_keeps:
  "list_match l s kvs r \<Longrightarrow> length s < n \<Longrightarrow> (case l of QList p c \<Rightarrow> peg_list p c n s) = Some (kvs, r)"
proof (induction arbitrary: n rule: list_match.induct)
  case (one p s kv r c)
  then show ?case by (cases n; cases "skip_space r") (auto simp: peg_pair_keeps simp del: dropWhile_eq_Nil_conv)
next
  case (more p s kv r c t kvs u)
  have "length (c # t) \<le> length r" using more(2) length_dropWhile_le[of isspace r] by simp
  with more.prems pair_match_shrinks[OF more(1)] obtain m where "n = Suc m" "length t < m" by (cases n) auto
  with more show ?case by (simp add: peg_pair_keeps)
qed

lemma spirit_ok_peg: "spirit_ok peg_phrase"
proof -
  have "peg_phrase l s = Some (fold (\<lambda>(k, v). map_put k v) kvs [], skip_space r)" if "list_match l s kvs r" for l s kvs r
    using peg_list_keeps[OF that, of "Suc (length s)"] by (cases l) simp
  then show ?thesis by (simp add: spirit_ok_def)
qed

end
