(* ===== verification/Config_Parser.thy ===== *)
theory Config_Parser
  imports Config_Types Secure Property_Tree Util_String Environment_Grammar
begin

text \<open>
  \<^verbatim>\<open>supervisor-lib/src/config\<close>: \<^verbatim>\<open>ini_reader.h\<close> (removal of inline comments),
  \<^verbatim>\<open>ptree_ext.h\<close> (typed access to the values of a section) and
  \<^verbatim>\<open>config_parser.cpp\<close> (sections to structures, the security checks, includes and the
  final validation). Boost.PropertyTree's INI reader, Boost.Spirit's run of the environment
  grammar (\<^verbatim>\<open>Environment_Grammar\<close>) and the files are parameters; parsing stops with the exception the code throws.
\<close>

section \<open>What the parser is given\<close>

text \<open>
  \<open>ce_exists\<close>, \<open>ce_is_directory\<close> and \<open>ce_canonical\<close> (\<open>fs::weakly_canonical\<close>)
  are the throwing queries of the file system, two of them those the security checks make too, \<open>ce_read\<close> opens a file and gives its text, \<open>ce_list\<close> gives the names in a directory
  and whether each is a regular file, \<open>ce_phrase_parse\<close> is \<open>qi::phrase_parse\<close> with the
  skipper \<open>space\<close> and a map for the pairs: the pairs a grammar recognised and the input it left, or failure.
\<close>

record 'pt conf_env =
  ce_os :: os_env
  ce_is_directory :: "string \<Rightarrow> bool res"
  ce_read :: "string \<Rightarrow> string option"
  ce_list :: "string \<Rightarrow> (string \<times> bool) list res"
  ce_boost :: boost_algo
  ce_pt :: "'pt ptree_api"
  ce_phrase_parse :: "qi_list_rule \<Rightarrow> string \<Rightarrow> (string smap \<times> string) option"

abbreviation ce_exists :: "'pt conf_env \<Rightarrow> string \<Rightarrow> bool res" where
  "ce_exists ce \<equiv> oe_exists (ce_os ce)"

abbreviation ce_canonical :: "'pt conf_env \<Rightarrow> string \<Rightarrow> string res" where
  "ce_canonical ce \<equiv> oe_weakly_canonical (ce_os ce)"

section \<open>Inline comments\<close>

abbreviation blank :: "char \<Rightarrow> bool" where
  "blank c \<equiv> c = CHR '' '' \<or> c = TAB"

text \<open>\<open>find_last_not_of(" \t", pos)\<close>: the last position up to \<open>pos\<close> that is not blank.\<close>

fun find_last_not_blank :: "string \<Rightarrow> nat \<Rightarrow> nat option" where
  "find_last_not_blank line 0 = (if line \<noteq> [] \<and> \<not> blank (line ! 0) then Some 0 else None)"
| "find_last_not_blank line (Suc pos) =
     (if Suc pos < length line \<and> \<not> blank (line ! Suc pos) then Some (Suc pos)
      else find_last_not_blank line pos)"

function strip_loop :: "string \<Rightarrow> nat \<Rightarrow> string" where
  "strip_loop line i =
     (if i < length line then
        if line ! i = CHR '';'' \<and> blank (line ! (i - 1)) then
          (case find_last_not_blank line (i - 1) of Some e \<Rightarrow> take (e + 1) line | None \<Rightarrow> [])
        else strip_loop line (i + 1)
      else line)"
  by pat_completeness auto
termination
  by (relation "measure (\<lambda>(line, i). length line - i)") auto

declare strip_loop.simps [simp del]

definition strip_inline_comment :: "string \<Rightarrow> string" where
  "strip_inline_comment line = strip_loop line 1"

text \<open>The buffer is refilled line by line; a last line without a line feed is given one.\<close>

function filtered :: "string \<Rightarrow> string" where
  "filtered s =
     (if s = [] then []
      else strip_inline_comment (takeWhile (\<lambda>c. c \<noteq> NL) s) @ [NL] @
           filtered (tl (dropWhile (\<lambda>c. c \<noteq> NL) s)))"
  by pat_completeness auto
termination
proof (relation "measure length")
  fix s :: string
  assume "s \<noteq> []"
  then show "(tl (dropWhile (\<lambda>c. c \<noteq> NL) s), s) \<in> measure length"
    using length_dropWhile_le[of "\<lambda>c. c \<noteq> NL" s]
    by (simp only: in_measure length_tl) (cases "length s"; simp only: length_0_conv; linarith)
qed simp

declare filtered.simps [simp del]

section \<open>Typed values\<close>

text \<open>Each overload of \<open>pt_get\<close>: an absent key leaves the value as it is.\<close>

definition pt_get_str :: "'pt ptree_api \<Rightarrow> 'pt \<Rightarrow> string \<Rightarrow> string \<Rightarrow> string" where
  "pt_get_str P tree name value = (case get_str P tree name of None \<Rightarrow> value | Some s \<Rightarrow> s)"

definition pt_get_path :: "'pt ptree_api \<Rightarrow> 'pt \<Rightarrow> string \<Rightarrow> string option \<Rightarrow> string option" where
  "pt_get_path P tree name value = (case get_str P tree name of None \<Rightarrow> value | Some s \<Rightarrow> Some s)"

definition invalid_value :: "string \<Rightarrow> string \<Rightarrow> exn" where
  "invalid_value name s = InvalidArgument (''Invalid value for '' @ [SQUOTE] @ name @ [SQUOTE] @ '': '' @ s)"

definition pt_get_bool :: "boost_algo \<Rightarrow> 'pt ptree_api \<Rightarrow> 'pt \<Rightarrow> string \<Rightarrow> bool \<Rightarrow> bool res" where
  "pt_get_bool B P tree name value =
     (case get_str P tree name of
        None \<Rightarrow> Inr value
      | Some s \<Rightarrow>
          let val = to_lower_copy B s in
          if val = ''true'' \<or> val = ''yes'' \<or> val = ''1'' then Inr True
          else if val = ''false'' \<or> val = ''no'' \<or> val = ''0'' then Inr False
          else Inl (invalid_value name s))"

definition pt_get_int :: "'pt ptree_api \<Rightarrow> 'pt \<Rightarrow> string \<Rightarrow> int \<Rightarrow> int res" where
  "pt_get_int P tree name value =
     (case get_str P tree name of
        None \<Rightarrow> Inr value
      | Some s \<Rightarrow> (case from_chars_int s of Some v \<Rightarrow> Inr v | None \<Rightarrow> Inl (invalid_value name s)))"

definition pt_get_with :: "'pt ptree_api \<Rightarrow> 'pt \<Rightarrow> string \<Rightarrow> 'v \<Rightarrow> (string \<Rightarrow> 'v res) \<Rightarrow> 'v res" where
  "pt_get_with P tree name value func =
     (case get_str P tree name of None \<Rightarrow> Inr value | Some s \<Rightarrow> func s)"

text \<open>\<open>parse_config\<close> turns \<open>std::invalid_argument\<close>, and nothing else, into a parse error.\<close>

definition parse_config :: "(string \<Rightarrow> 'a res) \<Rightarrow> string \<Rightarrow> string \<Rightarrow> 'a res" where
  "parse_config parser context s =
     (case parser s of
        Inl (InvalidArgument m) \<Rightarrow> Inl (ConfigParseError (context @ '': '' @ m))
      | r \<Rightarrow> r)"

text \<open>The void validator returns the string it was given; the cast to \<open>mode_t\<close> keeps 32 bits.\<close>

definition parse_signal :: "string \<Rightarrow> string res" where
  "parse_signal s = bind_res (validate_signal s) (\<lambda>_. Inr s)"

definition parse_umask :: "string \<Rightarrow> nat res" where
  "parse_umask s = bind_res (stoul_octal s) (\<lambda>v. Inr (v mod 2 ^ 32))"

definition parse_environment :: "'pt conf_env \<Rightarrow> string \<Rightarrow> string smap res" where
  "parse_environment ce env_str =
     (case ce_phrase_parse ce env_list env_str of
        Some (env_map, rest) \<Rightarrow>
          if rest \<noteq> [] then Inl (ConfigParseError (''Invalid environment variable format: '' @ env_str))
          else Inr env_map
      | None \<Rightarrow> Inl (ConfigParseError (''Invalid environment variable format: '' @ env_str)))"

section \<open>Sections\<close>

definition http_section :: "'pt ptree_api \<Rightarrow> 'pt \<Rightarrow> configuration \<Rightarrow> configuration" where
  "http_section P tree config =
     (case get_child P tree ''unix_http_server'' of
        None \<Rightarrow> config
      | Some section \<Rightarrow>
          (case get_str P section ''file'' of
             None \<Rightarrow> config
           | Some file \<Rightarrow> config\<lparr>cf_socket_file := file\<rparr>))"

text \<open>The assignments of the \<open>[supervisord]\<close> section, in the order of the code.\<close>

definition supervisord_fields ::
  "'pt conf_env \<Rightarrow> 'pt \<Rightarrow> (supervisord_config \<Rightarrow> supervisord_config res) list" where
  "supervisord_fields ce section =
     (let P = ce_pt ce; B = ce_boost ce in
      [\<lambda>c. Inr (c\<lparr>sc_childlogdir := pt_get_str P section ''childlogdir'' (sc_childlogdir c)\<rparr>),
       \<lambda>c. Inr (c\<lparr>sc_logfile := pt_get_str P section ''logfile'' (sc_logfile c)\<rparr>),
       \<lambda>c. bind_res (pt_get_with P section ''logfile_maxbytes'' (sc_logfile_maxbytes c)
              (parse_config (parse_size B) ''[supervisord] logfile_maxbytes''))
            (\<lambda>v. Inr (c\<lparr>sc_logfile_maxbytes := v\<rparr>)),
       \<lambda>c. bind_res (pt_get_int P section ''logfile_backups'' (sc_logfile_backups c))
            (\<lambda>v. Inr (c\<lparr>sc_logfile_backups := v\<rparr>)),
       \<lambda>c. bind_res (pt_get_with P section ''loglevel'' (sc_loglevel c)
              (parse_config (parse_log_level B) ''[supervisord] loglevel''))
            (\<lambda>v. Inr (c\<lparr>sc_loglevel := v\<rparr>)),
       \<lambda>c. Inr (c\<lparr>sc_pidfile := pt_get_str P section ''pidfile'' (sc_pidfile c)\<rparr>),
       \<lambda>c. bind_res (pt_get_with P section ''umask'' (sc_umask c) parse_umask)
            (\<lambda>v. Inr (c\<lparr>sc_umask := v\<rparr>)),
       \<lambda>c. Inr (c\<lparr>sc_user := pt_get_str P section ''user'' (sc_user c)\<rparr>)])"

definition supervisord_section :: "'pt conf_env \<Rightarrow> 'pt \<Rightarrow> configuration \<Rightarrow> configuration res" where
  "supervisord_section ce tree config =
     (case get_child (ce_pt ce) tree ''supervisord'' of
        None \<Rightarrow> Inr config
      | Some section \<Rightarrow>
          bind_res (fold_res (\<lambda>f. f) (supervisord_fields ce section) (cf_supervisord config))
            (\<lambda>c. Inr (config\<lparr>cf_supervisord := c\<rparr>)))"

text \<open>Words separated by white space, as \<open>iss >> pattern\<close> reads them.\<close>

function split_words :: "string \<Rightarrow> string list" where
  "split_words s =
     (let t = dropWhile isspace s in
      if t = [] then []
      else takeWhile (\<lambda>c. \<not> isspace c) t # split_words (dropWhile (\<lambda>c. \<not> isspace c) t))"
  by pat_completeness auto
termination
proof (relation "measure length")
  fix s t
  assume t: "t = dropWhile isspace s" "t \<noteq> []"
  then have "\<not> isspace (hd t)" using hd_dropWhile by blast
  with t(2) have "length (dropWhile (\<lambda>c. \<not> isspace c) t) < length t"
    by (cases t) (auto intro: le_imp_less_Suc length_dropWhile_le)
  with t(1) length_dropWhile_le[of isspace s]
  show "(dropWhile (\<lambda>c. \<not> isspace c) t, s) \<in> measure length" by simp
qed simp

declare split_words.simps [simp del]

definition include_patterns :: "'pt ptree_api \<Rightarrow> 'pt \<Rightarrow> string list" where
  "include_patterns P tree =
     (case get_child P tree ''include'' of
        None \<Rightarrow> []
      | Some section \<Rightarrow>
          concat (map (\<lambda>(key, value).
                    if key = ''files''
                    then split_words (case get_str P value [] of Some s \<Rightarrow> s | None \<Rightarrow> []) else [])
                 (children P section)))"

section \<open>Programs\<close>

definition substituted :: "program_config \<Rightarrow> string \<Rightarrow> string option res" where
  "substituted prog s = Inr (Some (substitute_variables prog s))"

definition set_stderr_log :: "(log_config \<Rightarrow> log_config) \<Rightarrow> program_config \<Rightarrow> program_config" where
  "set_stderr_log f p = p\<lparr>pc_stderr_log := f (pc_stderr_log p)\<rparr>"

definition set_stdout_log :: "(log_config \<Rightarrow> log_config) \<Rightarrow> program_config \<Rightarrow> program_config" where
  "set_stdout_log f p = p\<lparr>pc_stdout_log := f (pc_stdout_log p)\<rparr>"

text \<open>The optional values of a program section, in the order of the code.\<close>

definition program_fields ::
  "'pt conf_env \<Rightarrow> string \<Rightarrow> 'pt \<Rightarrow> (program_config \<Rightarrow> program_config res) list" where
  "program_fields ce key value =
     (let P = ce_pt ce; B = ce_boost ce; ctx = (\<lambda>f. ''Program ['' @ key @ ''] '' @ f) in
      [\<lambda>p. bind_res (pt_get_with P value ''environment'' (pc_environment p)
              (\<lambda>s. bind_res (parse_environment ce s) (\<lambda>e. Inr (sanitize_environment e))))
            (\<lambda>v. Inr (p\<lparr>pc_environment := v\<rparr>)),
       \<lambda>p. bind_res (pt_get_bool B P value ''autorestart'' (pc_autorestart p))
            (\<lambda>v. Inr (p\<lparr>pc_autorestart := v\<rparr>)),
       \<lambda>p. Inr (p\<lparr>pc_directory := pt_get_path P value ''directory'' (pc_directory p)\<rparr>),
       \<lambda>p. bind_res (pt_get_bool B P value ''redirect_stderr'' (pc_redirect_stderr p))
            (\<lambda>v. Inr (p\<lparr>pc_redirect_stderr := v\<rparr>)),
       \<lambda>p. bind_res (pt_get_int P value ''startretries'' (pc_startretries p))
            (\<lambda>v. Inr (p\<lparr>pc_startretries := v\<rparr>)),
       \<lambda>p. bind_res (pt_get_int P value ''startsecs'' (pc_startsecs p))
            (\<lambda>v. Inr (p\<lparr>pc_startsecs := v\<rparr>)),
       \<lambda>p. bind_res (pt_get_with P value ''stderr_logfile'' (lc_file (pc_stderr_log p)) (substituted p))
            (\<lambda>v. Inr (set_stderr_log (lc_file_update (\<lambda>_. v)) p)),
       \<lambda>p. bind_res (pt_get_with P value ''stderr_logfile_maxbytes'' (lc_file_maxbytes (pc_stderr_log p))
              (parse_config (parse_size B) (ctx ''stderr_logfile_maxbytes'')))
            (\<lambda>v. Inr (set_stderr_log (lc_file_maxbytes_update (\<lambda>_. v)) p)),
       \<lambda>p. bind_res (pt_get_int P value ''stderr_logfile_backups'' (lc_file_backups (pc_stderr_log p)))
            (\<lambda>v. Inr (set_stderr_log (lc_file_backups_update (\<lambda>_. v)) p)),
       \<lambda>p. bind_res (pt_get_with P value ''stdout_logfile'' (lc_file (pc_stdout_log p)) (substituted p))
            (\<lambda>v. Inr (set_stdout_log (lc_file_update (\<lambda>_. v)) p)),
       \<lambda>p. bind_res (pt_get_with P value ''stdout_logfile_maxbytes'' (lc_file_maxbytes (pc_stdout_log p))
              (parse_config (parse_size B) (ctx ''stdout_logfile_maxbytes'')))
            (\<lambda>v. Inr (set_stdout_log (lc_file_maxbytes_update (\<lambda>_. v)) p)),
       \<lambda>p. bind_res (pt_get_int P value ''stdout_logfile_backups'' (lc_file_backups (pc_stdout_log p)))
            (\<lambda>v. Inr (set_stdout_log (lc_file_backups_update (\<lambda>_. v)) p)),
       \<lambda>p. bind_res (pt_get_with P value ''stopsignal'' (pc_stopsignal p)
              (parse_config parse_signal (ctx ''stopsignal'')))
            (\<lambda>v. Inr (p\<lparr>pc_stopsignal := v\<rparr>)),
       \<lambda>p. bind_res (pt_get_int P value ''stopwaitsecs'' (pc_stopwaitsecs p))
            (\<lambda>v. Inr (p\<lparr>pc_stopwaitsecs := v\<rparr>)),
       \<lambda>p. bind_res (pt_get_with P value ''umask'' (pc_umask p) (\<lambda>s. map_sum id Some (parse_umask s)))
            (\<lambda>v. Inr (p\<lparr>pc_umask := v\<rparr>)),
       \<lambda>p. Inr (p\<lparr>pc_user := pt_get_str P value ''user'' (pc_user p)\<rparr>)])"

text \<open>A security error becomes a parse error that names the program.\<close>

definition checked :: "string \<Rightarrow> 'a res \<Rightarrow> 'a res" where
  "checked context r =
     (case r of Inl (SecurityError m) \<Rightarrow> Inl (ConfigParseError (context @ '': '' @ m)) | _ \<Rightarrow> r)"

definition check_log :: "os_env \<Rightarrow> string \<Rightarrow> log_config \<Rightarrow> log_config res" where
  "check_log oe context l =
     (case lc_file l of
        None \<Rightarrow> Inr l
      | Some f \<Rightarrow> bind_res (checked context (validate_log_path oe f)) (\<lambda>g. Inr (l\<lparr>lc_file := Some g\<rparr>)))"

definition parse_program :: "'pt conf_env \<Rightarrow> string \<Rightarrow> 'pt \<Rightarrow> program_config res" where
  "parse_program ce key value =
     (let oe = ce_os ce; context = ''Program ['' @ key @ '']'';
          prog = default_program_config\<lparr>pc_name := drop 8 key\<rparr>
      in case get_str (ce_pt ce) value ''command'' of
           None \<Rightarrow> Inl (ConfigParseError (context @ '' missing required '' @ [SQUOTE] @ ''command'' @ [SQUOTE]))
         | Some command \<Rightarrow>
             if command = []
             then Inl (ConfigParseError (context @ '' missing required '' @ [SQUOTE] @ ''command'' @ [SQUOTE]))
             else
               bind_res (fold_res (\<lambda>f. f) (program_fields ce key value) (prog\<lparr>pc_command := command\<rparr>))
               (\<lambda>prog. let prog = prog\<lparr>pc_command := substitute_variables prog (pc_command prog)\<rparr> in
               bind_res (checked context (validate_command_path oe (pc_command prog)))
               (\<lambda>_. bind_res (check_log oe (context @ '' stdout_logfile'') (pc_stdout_log prog))
               (\<lambda>out. bind_res (check_log oe (context @ '' stderr_logfile'') (pc_stderr_log prog))
               (\<lambda>err. Inr (prog\<lparr>pc_stdout_log := out, pc_stderr_log := err\<rparr>))))))"

definition program_section :: "'pt conf_env \<Rightarrow> string \<times> 'pt \<Rightarrow> configuration \<Rightarrow> configuration res" where
  "program_section ce = (\<lambda>(key, value) config.
     if starts_with key ''program:''
     then bind_res (parse_program ce key value) (\<lambda>prog. Inr (config\<lparr>cf_programs := cf_programs config @ [prog]\<rparr>))
     else Inr config)"

section \<open>Files and includes\<close>

abbreviation MAX_DEPTH :: nat where "MAX_DEPTH \<equiv> 10"

text \<open>
  Matching a directory's regular files against a glob. The paths found share their directory, so
  the order of \<open>std::sort\<close> on paths is the order of their last components.
\<close>

definition expand_glob :: "'pt conf_env \<Rightarrow> string \<Rightarrow> string \<Rightarrow> string list res" where
  "expand_glob ce base_dir pattern =
     (let search_path = (if hd pattern = SLASH then pattern else path_append base_dir pattern);
          dir = parent_path search_path
      in case parse_regex (glob_to_regex (filename search_path)) of
           None \<Rightarrow> Inl (RuntimeError ''regex_error'')
         | Some file_regex \<Rightarrow>
             bind_res (ce_exists ce dir) (\<lambda>ex.
             if \<not> ex then Inr []
             else bind_res (ce_is_directory ce dir) (\<lambda>is_dir.
             if \<not> is_dir then Inr []
             else bind_res (ce_list ce dir) (\<lambda>entries.
             Inr (sort_key filename
                   (map (\<lambda>(f, _). path_append dir f)
                     (filter (\<lambda>(f, regular). regular \<and> re_match file_regex f) entries)))))))"

definition wrap_file_errors :: "string \<Rightarrow> 'a res \<Rightarrow> 'a res" where
  "wrap_file_errors config_file r =
     (case r of
        Inr v \<Rightarrow> Inr v
      | Inl (ConfigParseError m) \<Rightarrow> Inl (ConfigParseError m)
      | Inl (FileParserError m line) \<Rightarrow>
          Inl (ConfigParseError (config_file @ (if line > 0 then ''('' @ show_nat line @ '')'' else []) @ '': '' @ m))
      | Inl e \<Rightarrow> Inl (ConfigParseError (config_file @ '': '' @ what e)))"

function (sequential) parse_single_file ::
    "'pt conf_env \<Rightarrow> string \<Rightarrow> configuration \<Rightarrow> nat \<Rightarrow> configuration res"
  and parse_stream ::
    "'pt conf_env \<Rightarrow> string option \<Rightarrow> configuration \<Rightarrow> string \<Rightarrow> nat \<Rightarrow> configuration res"
  and parse_includes ::
    "'pt conf_env \<Rightarrow> string \<Rightarrow> string list \<Rightarrow> configuration \<Rightarrow> nat \<Rightarrow> configuration res"
  and parse_files ::
    "'pt conf_env \<Rightarrow> string list \<Rightarrow> configuration \<Rightarrow> nat \<Rightarrow> configuration res"
where
  "parse_single_file ce config_file config depth =
     bind_res (ce_canonical ce config_file) (\<lambda>canonical.
      if canonical \<in> set (cf_included config)
      then Inl (ConfigParseError (''Configuration file '' @ config_file @ '' has already been included!''))
      else bind_res (checked ''Security validation failed'' (validate_config_file_security (ce_os ce) config_file))
             (\<lambda>_. wrap_file_errors config_file
                 (parse_stream ce (ce_read ce config_file)
                    (config\<lparr>cf_included := insort canonical (cf_included config)\<rparr>)
                    (parent_path config_file) depth)))"
| "parse_stream ce None config base_dir depth = Inl (ConfigParseError ''Invalid stream'')"
| "parse_stream ce (Some input) config base_dir depth =
     (if depth \<ge> MAX_DEPTH
      then Inl (ConfigParseError (''Include depth limit of '' @ show_nat MAX_DEPTH @ '' hit''))
      else
        bind_res (read_ini (ce_pt ce) (filtered input)) (\<lambda>tree.
        bind_res (supervisord_section ce tree (http_section (ce_pt ce) tree config)) (\<lambda>config.
        bind_res (let patterns = include_patterns (ce_pt ce) tree in
                  if patterns \<noteq> [] \<and> base_dir \<noteq> []
                  then parse_includes ce base_dir patterns config (depth + 1) else Inr config) (\<lambda>config.
        fold_res (program_section ce) (children (ce_pt ce) tree) config))))"
| "parse_includes ce base_dir [] config depth = Inr config"
| "parse_includes ce base_dir (pattern # patterns) config depth =
     bind_res (expand_glob ce base_dir pattern) (\<lambda>files.
     bind_res (parse_files ce files config depth) (\<lambda>config.
     parse_includes ce base_dir patterns config depth))"
| "parse_files ce [] config depth = Inr config"
| "parse_files ce (file # files) config depth =
     bind_res (parse_single_file ce file config depth) (\<lambda>config.
     parse_files ce files config depth)"
  by pat_completeness auto
termination
  by (relation "inv_image (less_than <*lex*> less_than <*lex*> less_than)
       (\<lambda>x. case x of
          Inl (Inl (ce, f, c, d)) \<Rightarrow> (11 - d, 1, 0)
        | Inl (Inr (ce, i, c, b, d)) \<Rightarrow> (11 - d, 0, 0)
        | Inr (Inl (ce, b, ps, c, d)) \<Rightarrow> (11 - d, 3, length ps)
        | Inr (Inr (ce, fs, c, d)) \<Rightarrow> (11 - d, 2, length fs))") auto

definition validate_config :: "configuration \<Rightarrow> unit res" where
  "validate_config config =
     (if cf_socket_file config = []
      then Inl (ConfigParseError (''Missing [unix_http_server] section or '' @ [SQUOTE] @ ''file'' @ [SQUOTE] @ '' parameter''))
      else if sc_logfile (cf_supervisord config) = []
      then Inl (ConfigParseError (''Missing [supervisord] section or '' @ [SQUOTE] @ ''logfile'' @ [SQUOTE] @ '' parameter''))
      else case find (\<lambda>prog. pc_command prog = []) (cf_programs config) of
             Some prog \<Rightarrow> Inl (ConfigParseError (''Program '' @ [SQUOTE] @ pc_name prog @ [SQUOTE] @
                           '' missing required '' @ [SQUOTE] @ ''command'' @ [SQUOTE]))
           | None \<Rightarrow> Inr ())"

definition parse_file :: "'pt conf_env \<Rightarrow> string \<Rightarrow> configuration res" where
  "parse_file ce config_file =
     bind_res (ce_exists ce config_file) (\<lambda>ex.
     if \<not> ex then Inl (ConfigParseError (''Configuration file not found: '' @ config_file))
     else bind_res (ce_canonical ce config_file) (\<lambda>canonical.
          bind_res (parse_single_file ce config_file (default_configuration\<lparr>cf_config_file := canonical\<rparr>) 0) (\<lambda>config.
          bind_res (validate_config config) (\<lambda>_. Inr config))))"

definition wrap_string_errors :: "'a res \<Rightarrow> 'a res" where
  "wrap_string_errors r =
     (case r of
        Inr v \<Rightarrow> Inr v
      | Inl (ConfigParseError m) \<Rightarrow> Inl (ConfigParseError m)
      | Inl (FileParserError m line) \<Rightarrow>
          Inl (ConfigParseError (''INI parsing error'' @ (if line > 0 then '' line '' @ show_nat line else []) @ '': '' @ m))
      | Inl e \<Rightarrow> Inl (ConfigParseError (''Unexpected error: '' @ what e)))"

definition parse_string :: "'pt conf_env \<Rightarrow> string \<Rightarrow> configuration res" where
  "parse_string ce config_str =
     wrap_string_errors
       (bind_res (parse_stream ce (Some config_str) default_configuration [] 0)
          (\<lambda>config. bind_res (validate_config config) (\<lambda>_. Inr config)))"

section \<open>Comments\<close>

definition comment_at :: "string \<Rightarrow> nat \<Rightarrow> bool" where
  "comment_at line i \<longleftrightarrow> 0 < i \<and> i < length line \<and> line ! i = CHR '';'' \<and> blank (line ! (i - 1))"

definition strip_right :: "string \<Rightarrow> string" where
  "strip_right s = rev (dropWhile blank (rev s))"

text \<open>A line up to its first comment, without the blanks before it.\<close>

definition before_comment :: "string \<Rightarrow> string" where
  "before_comment line =
     (case find (comment_at line) [0..<length line] of None \<Rightarrow> line | Some i \<Rightarrow> strip_right (take i line))"

lemma find_last_not_blank_strip:
  "pos < length line \<Longrightarrow>
     (case find_last_not_blank line pos of Some e \<Rightarrow> take (e + 1) line | None \<Rightarrow> []) =
     strip_right (take (Suc pos) line)"
proof (induction pos)
  case 0
  then show ?case by (cases line) (auto simp: strip_right_def)
next
  case (Suc pos)
  then have "take (Suc (Suc pos)) line = take (Suc pos) line @ [line ! Suc pos]"
    by (simp add: take_Suc_conv_app_nth)
  with Suc show ?case by (auto simp: strip_right_def)
qed

lemma strip_loop_find:
  "0 < i \<Longrightarrow> strip_loop line i =
     (case find (comment_at line) [i..<length line] of None \<Rightarrow> line | Some k \<Rightarrow> strip_right (take k line))"
proof (induction line i rule: strip_loop.induct)
  case (1 line i)
  show ?case
  proof (cases "i < length line")
    case True
    then have u: "[i..<length line] = i # [i + 1..<length line]" by (simp add: upt_conv_Cons)
    have c: "comment_at line i \<longleftrightarrow> line ! i = CHR '';'' \<and> blank (line ! (i - 1))"
      using True 1(2) by (auto simp: comment_at_def)
    show ?thesis
      using 1 True find_last_not_blank_strip[of "i - 1" line]
      by (subst strip_loop.simps) (auto simp: u c)
  qed (simp add: strip_loop.simps)
qed

lemma strip_inline_comment_before: "strip_inline_comment line = before_comment line"
proof -
  have "find (comment_at line) [0..<length line] = find (comment_at line) [1..<length line]"
  proof (cases "length line")
    case (Suc n)
    then have "[0..<length line] = 0 # [1..<length line]" by (simp only: upt_conv_Cons zero_less_Suc) simp
    then show ?thesis by (simp add: comment_at_def)
  qed simp
  then show ?thesis by (simp add: strip_inline_comment_def strip_loop_find before_comment_def)
qed

lemma strip_right_prefix: "prefix (strip_right s) s"
  using suffix_dropWhile[of blank "rev s"] by (simp add: strip_right_def suffix_to_prefix)

lemma comment_at_prefix: "comment_at r j \<Longrightarrow> prefix r line \<Longrightarrow> comment_at line j"
  by (auto simp: comment_at_def prefix_def nth_append)

lemma before_comment_no_comment: "\<not> comment_at (before_comment line) j"
proof (cases "find (comment_at line) [0..<length line]")
  case None
  then have "before_comment line = line" by (simp add: before_comment_def)
  moreover have "\<forall>j<length line. \<not> comment_at line j" using None by (simp add: find_None_iff)
  ultimately show ?thesis by (metis comment_at_def)
next
  case (Some i)
  let ?r = "strip_right (take i line)"
  have i: "i < length line" "\<forall>k<i. \<not> comment_at line k"
    using Some by (auto simp: find_Some_iff)
  have pre: "prefix ?r line" using strip_right_prefix take_is_prefix prefix_order.trans by blast
  have len: "length ?r \<le> i" using prefix_length_le[OF strip_right_prefix, of "take i line"] i(1) by simp
  have "\<not> comment_at ?r j"
  proof
    assume c: "comment_at ?r j"
    then have "j < length ?r" by (simp add: comment_at_def)
    with i(2) len comment_at_prefix[OF c pre] show False by auto
  qed
  with Some show ?thesis by (simp add: before_comment_def)
qed

lemma before_comment_idem: "before_comment (before_comment line) = before_comment line"
proof -
  have "find (comment_at (before_comment line)) [0..<length (before_comment line)] = None"
    by (simp add: find_None_iff before_comment_no_comment)
  then show ?thesis unfolding before_comment_def[of "before_comment line"] by (simp only: option.case)
qed

lemma filtered_line:
  "NL \<notin> set l \<Longrightarrow> filtered (l @ NL # s) = strip_inline_comment l @ NL # filtered s"
  by (subst filtered.simps) (simp add: takeWhile_append dropWhile_append takeWhile_eq_all_conv)

lemma filtered_last_line: "NL \<notin> set l \<Longrightarrow> l \<noteq> [] \<Longrightarrow> filtered l = strip_inline_comment l @ [NL]"
proof -
  assume a: "NL \<notin> set l" "l \<noteq> []"
  then have "takeWhile (\<lambda>c. c \<noteq> NL) l = l" "dropWhile (\<lambda>c. c \<noteq> NL) l = []"
    by (auto simp: takeWhile_eq_all_conv dropWhile_eq_Nil_conv)
  with a(2) show ?thesis by (subst filtered.simps) (simp only: if_False list.sel filtered.simps[of "[]"] append_Nil2 simp_thms if_True)
qed

lemma filtered_lines:
  "list_all (\<lambda>l. NL \<notin> set l) ls \<Longrightarrow>
     filtered (concat (map (\<lambda>l. l @ [NL]) ls)) = concat (map (\<lambda>l. before_comment l @ [NL]) ls)"
  by (induction ls) (simp_all add: filtered_line strip_inline_comment_before filtered.simps[of "[]"])

text \<open>
  Auxiliary property: What the INI reader sees is the file line by line, each line cut at its first semicolon
  that follows a space or a tab and without the blanks before it; a semicolon elsewhere is part
  of the value, a last line without a line feed is read like the others, and reading the result
  again changes nothing.
\<close>

theorem comments_removed:
  assumes "list_all (\<lambda>l. NL \<notin> set l) ls" "NL \<notin> set l" "l \<noteq> []"
  shows "filtered (concat (map (\<lambda>l. l @ [NL]) ls)) = concat (map (\<lambda>l. before_comment l @ [NL]) ls) \<and>
    filtered l = before_comment l @ [NL] \<and>
    strip_inline_comment (strip_inline_comment l) = strip_inline_comment l"
  using filtered_lines[OF assms(1)] filtered_last_line[OF assms(2,3)]
  by (simp add: strip_inline_comment_before before_comment_idem)

theorem comments_removed_witness:
  "filtered (concat (map (\<lambda>l. l @ [NL]) [''a=b ; c'', ''d=e;f''])) =
     concat (map (\<lambda>l. before_comment l @ [NL]) [''a=b ; c'', ''d=e;f'']) \<and>
   before_comment ''a=b ; c'' = ''a=b'' \<and> before_comment ''d=e;f'' = ''d=e;f'' \<and>
   filtered ''x=1'' = ''x=1'' @ [NL]"
proof -
  have b: "before_comment ''a=b ; c'' = ''a=b''" "before_comment ''d=e;f'' = ''d=e;f''" "before_comment ''x=1'' = ''x=1''"
    by code_simp+
  show ?thesis
    using comments_removed[of "[''a=b ; c'', ''d=e;f'']" "''x=1''"] by (simp add: b)
qed

end
