(* ===== verification/Config_Behaviour.thy ===== *)
theory Config_Behaviour
  imports Config_Parser
begin

text \<open>
  What the configuration parser of \<^verbatim>\<open>config_parser.cpp\<close> guarantees: the values of a
  program section, the safety of everything it accepts, the order of programs, the exceptions
  that can leave it, and the shape of the include graph.
\<close>

section \<open>What an accepted program is\<close>

text \<open>The values a section can set, kept to their C++ types and to what the checks allow.\<close>

definition int32 :: "int \<Rightarrow> bool" where
  "int32 i \<longleftrightarrow> - (2 ^ 31) \<le> i \<and> i < 2 ^ 31"

definition uint64 :: "nat \<Rightarrow> bool" where
  "uint64 n \<longleftrightarrow> n < 2 ^ 64"

definition uint32 :: "nat \<Rightarrow> bool" where
  "uint32 n \<longleftrightarrow> n < 2 ^ 32"

definition log_bounded :: "log_config \<Rightarrow> bool" where
  "log_bounded l \<longleftrightarrow> uint64 (lc_file_maxbytes l) \<and> int32 (lc_file_backups l)"

definition fields_ok :: "program_config \<Rightarrow> bool" where
  "fields_ok p \<longleftrightarrow>
     list_all clean_entry (pc_environment p) \<and> pc_stopsignal p \<in> set valid_signals \<and>
     int32 (pc_startsecs p) \<and> int32 (pc_startretries p) \<and> int32 (pc_stopwaitsecs p) \<and>
     log_bounded (pc_stdout_log p) \<and> log_bounded (pc_stderr_log p) \<and>
     pred_option uint32 (pc_umask p)"

definition log_allowed :: "os_env \<Rightarrow> log_config \<Rightarrow> bool" where
  "log_allowed oe l \<longleftrightarrow> pred_option (\<lambda>f. \<exists>ds. log_dirs oe = Inr ds \<and> list_ex (\<lambda>d. prefix d f) ds) (lc_file l)"

definition program_safe :: "os_env \<Rightarrow> program_config \<Rightarrow> bool" where
  "program_safe oe p \<longleftrightarrow>
     validate_command_path oe (pc_command p) = Inr () \<and>
     log_allowed oe (pc_stdout_log p) \<and> log_allowed oe (pc_stderr_log p) \<and> fields_ok p"

lemma pt_get_int_bounded: "pt_get_int P t n v = Inr w \<Longrightarrow> int32 v \<Longrightarrow> int32 w"
  using from_chars_int_bounds by (auto simp: pt_get_int_def int32_def split: option.splits)

lemma pt_get_with_ok:
  "pt_get_with P t n v f = Inr w \<Longrightarrow> Q v \<Longrightarrow> (\<And>s x. f s = Inr x \<Longrightarrow> Q x) \<Longrightarrow> Q w"
  by (auto simp: pt_get_with_def split: option.splits)

lemma parse_config_Inr [simp]: "parse_config f ctx s = Inr v \<longleftrightarrow> f s = Inr v"
  by (auto simp: parse_config_def split: sum.splits exn.splits)

lemma parse_size_bounded: "parse_size B s = Inr v \<Longrightarrow> uint64 v"
  by (auto simp: uint64_def parse_size_def Let_def split: if_splits sum.splits exn.splits)

lemma parse_umask_bounded: "parse_umask s = Inr v \<Longrightarrow> uint32 v"
  by (auto simp: uint32_def parse_umask_def)

lemma parse_signal_valid: "parse_signal s = Inr v \<Longrightarrow> v \<in> set valid_signals"
  by (auto simp: parse_signal_def validate_signal_def split: if_splits)

lemma sanitize_loop_clean: "list_all clean_entry acc \<Longrightarrow> list_all clean_entry (sanitize_loop env acc)"
proof (induction env acc rule: sanitize_loop.induct)
  case (2 k v env acc)
  have "list_all clean_entry (map_put k v acc)" if "valid_key k" "NUL \<notin> set v"
    using that 2(4) set_map_put_sub[of k v acc] by (auto simp: list_all_iff clean_entry_def)
  with 2 show ?case by auto
qed simp

lemma sanitize_environment_clean: "list_all clean_entry (sanitize_environment env)"
  by (simp add: sanitize_environment_def sanitize_loop_clean)

lemma maxbytes_bounded:
  "pt_get_with P t n v (parse_config (parse_size B) ctx) = Inr w \<Longrightarrow> uint64 v \<Longrightarrow> uint64 w"
  by (erule pt_get_with_ok) (auto dest: parse_size_bounded)

lemma signal_valid:
  "pt_get_with P t n v (parse_config parse_signal ctx) = Inr w \<Longrightarrow> v \<in> set valid_signals \<Longrightarrow> w \<in> set valid_signals"
  by (erule pt_get_with_ok) (auto dest: parse_signal_valid)

lemma environment_clean:
  "pt_get_with P t n v (\<lambda>s. bind_res (parse_environment ce s) (\<lambda>e. Inr (sanitize_environment e))) = Inr w \<Longrightarrow>
     list_all clean_entry v \<Longrightarrow> list_all clean_entry w"
  by (erule pt_get_with_ok) (auto simp: sanitize_environment_clean)

lemma umask_bounded:
  assumes "pt_get_with P t n v (\<lambda>s. map_sum id Some (parse_umask s)) = Inr w" "pred_option uint32 v"
  shows "pred_option uint32 w"
proof (rule pt_get_with_ok[where Q = "pred_option uint32", OF assms])
  fix s x
  assume "map_sum id Some (parse_umask s) = Inr x"
  then show "pred_option uint32 x" by (cases "parse_umask s") (auto dest: parse_umask_bounded)
qed

lemmas field_bounds = pt_get_int_bounded maxbytes_bounded signal_valid environment_clean umask_bounded

lemma program_field_step:
  "f \<in> set (program_fields ce key val) \<Longrightarrow> fields_ok p \<Longrightarrow> f p = Inr q \<Longrightarrow> fields_ok q"
  unfolding program_fields_def Let_def list.set insert_iff empty_iff
  by (elim disjE FalseE; clarsimp simp: fields_ok_def log_bounded_def set_stderr_log_def set_stdout_log_def)
    (auto intro: field_bounds)

lemma program_fields_ok:
  "fold_res (\<lambda>f. f) (program_fields ce key val) p = Inr q \<Longrightarrow> fields_ok p \<Longrightarrow> fields_ok q"
  by (erule fold_res_invariant) (auto dest: program_field_step)

lemma fields_ok_default: "fields_ok (default_program_config\<lparr>pc_name := n, pc_command := c\<rparr>)"
  by (simp add: fields_ok_def default_program_config_def default_log_config_def log_bounded_def int32_def uint64_def valid_signals_def)

lemma checked_Inr [simp]: "checked ctx r = Inr v \<longleftrightarrow> r = Inr v"
  by (auto simp: checked_def split: sum.splits exn.splits)

lemma check_log_allowed:
  assumes "check_log oe ctx l = Inr m"
  shows "log_allowed oe m \<and> (log_bounded l \<longrightarrow> log_bounded m)"
  using assms
  by (auto simp: check_log_def log_allowed_def log_bounded_def validate_log_path_characterised split: option.splits)

lemma parse_program_cases:
  assumes "parse_program ce key val = Inr p"
  obtains command q out err where
    "get_str (ce_pt ce) val ''command'' = Some command" "command \<noteq> []"
    "fold_res (\<lambda>f. f) (program_fields ce key val)
       (default_program_config\<lparr>pc_name := drop 8 key, pc_command := command\<rparr>) = Inr q"
    "validate_command_path (ce_os ce) (substitute_variables q (pc_command q)) = Inr ()"
    "check_log (ce_os ce) (''Program ['' @ key @ '']'' @ '' stdout_logfile'') (pc_stdout_log q) = Inr out"
    "check_log (ce_os ce) (''Program ['' @ key @ '']'' @ '' stderr_logfile'') (pc_stderr_log q) = Inr err"
    "p = q\<lparr>pc_command := substitute_variables q (pc_command q), pc_stdout_log := out, pc_stderr_log := err\<rparr>"
  using assms by (auto simp: parse_program_def Let_def split: option.splits if_splits)

lemma parse_program_safe: "parse_program ce key val = Inr p \<Longrightarrow> program_safe (ce_os ce) p"
proof (erule parse_program_cases)
  fix command q out err
  assume f: "fold_res (\<lambda>f. f) (program_fields ce key val)
      (default_program_config\<lparr>pc_name := drop 8 key, pc_command := command\<rparr>) = Inr q"
    and c: "validate_command_path (ce_os ce) (substitute_variables q (pc_command q)) = Inr ()"
    and o: "check_log (ce_os ce) (''Program ['' @ key @ '']'' @ '' stdout_logfile'') (pc_stdout_log q) = Inr out"
    and e: "check_log (ce_os ce) (''Program ['' @ key @ '']'' @ '' stderr_logfile'') (pc_stderr_log q) = Inr err"
    and p: "p = q\<lparr>pc_command := substitute_variables q (pc_command q), pc_stdout_log := out, pc_stderr_log := err\<rparr>"
  have "fields_ok q" using program_fields_ok[OF f fields_ok_default] .
  with c p check_log_allowed[OF o] check_log_allowed[OF e] show ?thesis
    by (simp add: program_safe_def fields_ok_def)
qed

section \<open>What an accepted configuration is\<close>

definition checked_file :: "'pt conf_env \<Rightarrow> string \<Rightarrow> bool" where
  "checked_file ce g \<longleftrightarrow> (\<exists>f. ce_canonical ce f = Inr g \<and> validate_config_file_security (ce_os ce) f = Inr ())"

text \<open>The numbers of the daemon's own section within their types: 64 bits, \<open>int\<close> and \<open>mode_t\<close>.\<close>

definition supervisord_fits :: "supervisord_config \<Rightarrow> bool" where
  "supervisord_fits c \<longleftrightarrow> uint64 (sc_logfile_maxbytes c) \<and> int32 (sc_logfile_backups c) \<and> uint32 (sc_umask c)"

definition config_ok :: "'pt conf_env \<Rightarrow> configuration \<Rightarrow> bool" where
  "config_ok ce c \<longleftrightarrow>
     supervisord_fits (cf_supervisord c) \<and> list_all (program_safe (ce_os ce)) (cf_programs c) \<and> list_all (checked_file ce) (cf_included c) \<and>
     sorted (cf_included c) \<and> distinct (cf_included c)"

text \<open>What one parsing step may do to the configuration under construction.\<close>

definition extends :: "'pt conf_env \<Rightarrow> configuration \<Rightarrow> configuration \<Rightarrow> bool" where
  "extends ce c c' \<longleftrightarrow>
     (config_ok ce c \<longrightarrow> config_ok ce c') \<and> cf_config_file c' = cf_config_file c \<and>
     set (cf_included c) \<subseteq> set (cf_included c') \<and> prefix (cf_programs c) (cf_programs c')"

lemma extends_refl [simp]: "extends ce c c"
  by (simp add: extends_def)

lemma extends_trans [trans]: "extends ce a b \<Longrightarrow> extends ce b c \<Longrightarrow> extends ce a c"
  by (auto simp: extends_def prefix_def)

lemma http_section_extends: "extends ce c (http_section P tree c)"
  by (auto simp: http_section_def extends_def config_ok_def split: option.splits)

lemma supervisord_field_step:
  "f \<in> set (supervisord_fields ce sec) \<Longrightarrow> supervisord_fits c \<Longrightarrow> f c = Inr c' \<Longrightarrow> supervisord_fits c'"
  unfolding supervisord_fields_def Let_def list.set insert_iff empty_iff
  by (elim disjE FalseE; clarsimp simp: supervisord_fits_def)
    (auto intro: field_bounds elim: pt_get_with_ok dest: parse_umask_bounded)

lemma supervisord_fields_fit:
  "fold_res (\<lambda>f. f) (supervisord_fields ce sec) c = Inr c' \<Longrightarrow> supervisord_fits c \<Longrightarrow> supervisord_fits c'"
  by (erule fold_res_invariant) (auto dest: supervisord_field_step)

lemma supervisord_section_extends: "supervisord_section ce tree c = Inr c' \<Longrightarrow> extends ce c c'"
  by (auto simp: supervisord_section_def extends_def config_ok_def dest: supervisord_fields_fit split: option.splits)

lemma program_section_extends: "program_section ce kv c = Inr c' \<Longrightarrow> extends ce c c'"
  by (auto simp: program_section_def extends_def config_ok_def dest: parse_program_safe
      split: if_splits prod.splits)

lemma program_sections_extend:
  "fold_res (program_section ce) kvs c = Inr c' \<Longrightarrow> extends ce c c'"
  by (erule fold_res_invariant) (auto intro: extends_trans program_section_extends)

lemma include_file_extends:
  assumes "g \<notin> set (cf_included c)" "checked_file ce g"
  shows "extends ce c (c\<lparr>cf_included := insort g (cf_included c)\<rparr>)"
  using assms by (auto simp: extends_def config_ok_def list_all_iff sorted_insort set_insort_key distinct_insort)

lemma wrap_file_errors_Inr [simp]: "wrap_file_errors f r = Inr v \<longleftrightarrow> r = Inr v"
  by (auto simp: wrap_file_errors_def split: sum.splits exn.splits)

lemma parse_single_file_cases:
  assumes "parse_single_file ce f c d = Inr c'"
  obtains g where "ce_canonical ce f = Inr g" "g \<notin> set (cf_included c)"
    "validate_config_file_security (ce_os ce) f = Inr ()"
    "parse_stream ce (ce_read ce f)
       (c\<lparr>cf_included := insort g (cf_included c)\<rparr>) (parent_path f) d = Inr c'"
  using assms by (auto split: if_splits sum.splits)

lemma parse_stream_cases:
  assumes "parse_stream ce i c b d = Inr c'"
  obtains input tree c1 c2 where "i = Some input" "d < MAX_DEPTH" "read_ini (ce_pt ce) (filtered input) = Inr tree"
    "supervisord_section ce tree (http_section (ce_pt ce) tree c) = Inr c1"
    "(if include_patterns (ce_pt ce) tree \<noteq> [] \<and> b \<noteq> []
      then parse_includes ce b (include_patterns (ce_pt ce) tree) c1 (d + 1) else Inr c1) = Inr c2"
    "fold_res (program_section ce) (children (ce_pt ce) tree) c2 = Inr c'"
proof (cases i)
  case (Some input)
  with assms have d: "d < MAX_DEPTH" "\<not> MAX_DEPTH \<le> d" by (auto split: if_splits)
  obtain tree c1 c2 where "read_ini (ce_pt ce) (filtered input) = Inr tree"
    "supervisord_section ce tree (http_section (ce_pt ce) tree c) = Inr c1"
    "(if include_patterns (ce_pt ce) tree \<noteq> [] \<and> b \<noteq> []
      then parse_includes ce b (include_patterns (ce_pt ce) tree) c1 (d + 1) else Inr c1) = Inr c2"
    "fold_res (program_section ce) (children (ce_pt ce) tree) c2 = Inr c'"
    using assms d unfolding Some parse_stream.simps(2) Let_def bind_res_eq_Inr if_not_P[OF d(2)] by blast
  then show ?thesis by (rule that[OF Some d(1)])
qed (use assms in simp)

lemma parse_extends:
  "parse_single_file ce f c d = Inr c1 \<Longrightarrow>
     extends ce c c1 \<and> (\<exists>g\<in>set (cf_included c1). ce_canonical ce f = Inr g)"
  "parse_stream ce i c b d = Inr c2 \<Longrightarrow> extends ce c c2"
  "parse_includes ce b ps c d = Inr c3 \<Longrightarrow> extends ce c c3"
  "parse_files ce fs c d = Inr c4 \<Longrightarrow> extends ce c c4"
proof (induction ce f c d and ce i c b d and ce b ps c d and ce fs c d arbitrary: c1 and c2 and c3 and c4
    rule: parse_single_file_parse_stream_parse_includes_parse_files.induct)
  case (1 ce f c d)
  from 1(2) show ?case
  proof (rule parse_single_file_cases)
    fix g
    let ?c = "c\<lparr>cf_included := insort g (cf_included c)\<rparr>"
    assume g: "ce_canonical ce f = Inr g" and new: "g \<notin> set (cf_included c)"
      and sec: "validate_config_file_security (ce_os ce) f = Inr ()"
      and s: "parse_stream ce (ce_read ce f) ?c (parent_path f) d = Inr c1"
    have "extends ce c ?c" using g new sec by (intro include_file_extends) (auto simp: checked_file_def)
    moreover have "extends ce ?c c1" using 1(1)[OF g new _ s] sec by simp
    ultimately show ?thesis using g by (auto intro: extends_trans simp: extends_def set_insort_key)
  qed
next
  case (3 ce input c b d)
  from 3(2) show ?case
  proof (rule parse_stream_cases)
    fix input' tree c' c''
    assume a: "Some input = Some input'" "d < MAX_DEPTH" "read_ini (ce_pt ce) (filtered input') = Inr tree"
      "supervisord_section ce tree (http_section (ce_pt ce) tree c) = Inr c'"
      "(if include_patterns (ce_pt ce) tree \<noteq> [] \<and> b \<noteq> []
        then parse_includes ce b (include_patterns (ce_pt ce) tree) c' (d + 1) else Inr c') = Inr c''"
      "fold_res (program_section ce) (children (ce_pt ce) tree) c'' = Inr c2"
    have "extends ce c c'"
      using http_section_extends supervisord_section_extends[OF a(4)] by (rule extends_trans)
    also have "extends ce c' c''"
      using a(1-5) 3(1)[OF _ _ a(4) refl] by (auto split: if_splits)
    also have "extends ce c'' c2" using a(6) by (rule program_sections_extend)
    finally show ?thesis .
  qed
next
  case (5 ce b p ps c d)
  then show ?case by (simp del: not_None_eq) (metis extends_trans)
qed (auto intro: extends_trans)

section \<open>Properties of parsing\<close>

lemma initial_config_ok: "config_ok ce (default_configuration\<lparr>cf_config_file := g\<rparr>)"
  by (simp add: config_ok_def default_configuration_def supervisord_fits_def uint64_def int32_def uint32_def)

lemma validate_config_Inr:
  "validate_config c = Inr u \<Longrightarrow> cf_socket_file c \<noteq> [] \<and> sc_logfile (cf_supervisord c) \<noteq> []"
  by (auto simp: validate_config_def split: if_splits)

lemma parse_file_cases:
  assumes "parse_file ce f = Inr c"
  obtains g where "ce_canonical ce f = Inr g"
    "parse_single_file ce f (default_configuration\<lparr>cf_config_file := g\<rparr>) 0 = Inr c" "validate_config c = Inr ()"
  using assms unfolding parse_file_def by (auto simp del: parse_single_file.simps split: if_splits)

lemma parse_file_extends:
  assumes "parse_file ce f = Inr c"
  obtains g where "ce_canonical ce f = Inr g" "extends ce (default_configuration\<lparr>cf_config_file := g\<rparr>) c"
    "g \<in> set (cf_included c)" "cf_socket_file c \<noteq> []" "sc_logfile (cf_supervisord c) \<noteq> []"
  using assms
proof (rule parse_file_cases)
  fix g
  assume "ce_canonical ce f = Inr g" "parse_single_file ce f (default_configuration\<lparr>cf_config_file := g\<rparr>) 0 = Inr c"
    "validate_config c = Inr ()"
  then show thesis using that parse_extends(1) validate_config_Inr by fastforce
qed

lemma parse_file_config_ok: "parse_file ce f = Inr c \<Longrightarrow> config_ok ce c"
  using initial_config_ok by (elim parse_file_extends) (auto simp: extends_def)

text \<open>A reader for examples: every file reads as the same tree with one program.\<close>

definition ini_api :: "ptree \<Rightarrow> ptree ptree_api" where
  "ini_api t =
     \<lparr>read_xml = (\<lambda>_. Inr t), read_ini = (\<lambda>_. Inr t),
      get_str = (\<lambda>t path. if path = [] then Some (node_data t) else map_option node_data (map_of (node_children t) path)),
      get_int = (\<lambda>_ _. None), get_child = (\<lambda>t path. map_of (node_children t) path), children = node_children\<rparr>"

definition sample_program_tree :: ptree where
  "sample_program_tree =
     Node [] [(''command'', Node ''/bin/%(program_name)s -x'' []), (''stopsignal'', Node ''HUP'' []),
                 (''stdout_logfile'', Node ''/var/log/%(program_name)s.log'' [])]"

definition sample_conf :: "ptree conf_env" where
  "sample_conf =
     \<lparr>ce_os = plain_env, ce_is_directory = (\<lambda>_. Inr True),
      ce_read = (\<lambda>_. Some []), ce_list = (\<lambda>_. Inr []),
      ce_boost = classic_boost, ce_pt = ini_api (Node [] [(''program:web'', sample_program_tree)]),
      ce_phrase_parse = peg_phrase\<rparr>"

definition sample_web :: program_config where
  "sample_web = default_program_config\<lparr>pc_name := ''web'', pc_command := ''/bin/web -x'', pc_stopsignal := ''HUP'',
     pc_stdout_log := default_log_config\<lparr>lc_file := Some ''/var/log/web.log''\<rparr>\<rparr>"

lemma sample_web_checks:
  "substitute_loop ''web'' ''/bin/%(program_name)s -x'' 0 = ''/bin/web -x''"
  "substitute_loop ''web'' ''/var/log/%(program_name)s.log'' 0 = ''/var/log/web.log''"
  "validate_command_path plain_env ''/bin/web -x'' = Inr ()"
  "validate_log_path plain_env ''/var/log/web.log'' = Inr ''/var/log/web.log''"
proof -
  show "substitute_loop ''web'' ''/bin/%(program_name)s -x'' 0 = ''/bin/web -x''"
    "substitute_loop ''web'' ''/var/log/%(program_name)s.log'' 0 = ''/var/log/web.log''" by code_simp+
  show "validate_command_path plain_env ''/bin/web -x'' = Inr ()"
    by (simp add: validate_command_path_def command_path_def plain_env_def any_exec_bit_def Let_def)
  show "validate_log_path plain_env ''/var/log/web.log'' = Inr ''/var/log/web.log''"
    by (simp add: validate_log_path_characterised resolves_to_def log_dirs_def plain_env_def)
qed

lemma sample_web_parsed: "parse_program sample_conf ''program:web'' sample_program_tree = Inr sample_web"
  using sample_web_checks
  by (simp add: parse_program_def program_fields_def Let_def sample_conf_def ini_api_def sample_program_tree_def
      pt_get_str_def pt_get_path_def pt_get_bool_def pt_get_int_def pt_get_with_def substituted_def parse_config_def
      parse_signal_def validate_signal_def valid_signals_def set_stdout_log_def set_stderr_log_def
      check_log_def checked_def substitute_variables_def default_program_config_def default_log_config_def sample_web_def)

lemma sample_conf_parsed:
  "parse_file sample_conf ''/etc/s.conf'' =
     Inr (default_configuration\<lparr>cf_config_file := ''/etc/s.conf'', cf_included := [''/etc/s.conf''],
            cf_programs := [sample_web]\<rparr>)"
proof -
  let ?t = "Node [] [(''program:web'', sample_program_tree)]"
  have env: "ce_canonical sample_conf f = Inr f" "ce_exists sample_conf f = Inr True"
    "validate_config_file_security (ce_os sample_conf) f = Inr ()" "ce_read sample_conf f = Some []"
    "read_ini (ce_pt sample_conf) i = Inr ?t" "children (ce_pt sample_conf) ?t = [(''program:web'', sample_program_tree)]"
    "get_child (ce_pt sample_conf) ?t ''unix_http_server'' = None" "get_child (ce_pt sample_conf) ?t ''supervisord'' = None"
    "get_child (ce_pt sample_conf) ?t ''include'' = None" for f i
    by (simp_all add: sample_conf_def plain_env_def ini_api_def validate_config_file_security_def world_writable_def)
  have "validate_config (default_configuration\<lparr>cf_config_file := ''/etc/s.conf'', cf_included := [''/etc/s.conf''],
            cf_programs := [sample_web]\<rparr>) = Inr ()"
    by (simp add: validate_config_def default_configuration_def sample_web_def)
  then show ?thesis
    by (simp add: parse_file_def env Let_def supervisord_section_def http_section_def include_patterns_def
        program_section_def starts_with_def sample_web_parsed default_configuration_def)
qed

text \<open>
  C12: A configuration the parser accepts is safe: every program's command passed the command
  check after substitution, its log files have their canonical names under an allowed
  directory, its environment holds only clean entries, its stop signal is a known one and its
  numbers fit their C++ types; every file read passed the ownership and permission check and
  none was read twice; the main file is among them and is the one a reload reads again; socket
  and log file are named.
\<close>

theorem accepted_configuration_is_safe:
  assumes "parse_file ce f = Inr c"
  shows "list_all (program_safe (ce_os ce)) (cf_programs c) \<and> list_all (checked_file ce) (cf_included c) \<and>
    distinct (cf_included c) \<and> ce_canonical ce f = Inr (cf_config_file c) \<and> cf_config_file c \<in> set (cf_included c) \<and>
    cf_socket_file c \<noteq> [] \<and> sc_logfile (cf_supervisord c) \<noteq> []"
  using parse_file_config_ok[OF assms] by (rule_tac parse_file_extends[OF assms]) (simp add: extends_def config_ok_def)

theorem accepted_configuration_is_safe_witness:
  "\<exists>c. parse_file sample_conf ''/etc/s.conf'' = Inr c \<and> cf_programs c = [sample_web] \<and> program_safe plain_env sample_web"
  using accepted_configuration_is_safe[OF sample_conf_parsed] sample_conf_parsed by (simp add: sample_conf_def)

text \<open>The exceptions a step can end with.\<close>

definition raises_only :: "exn set \<Rightarrow> 'a res \<Rightarrow> bool" where
  "raises_only E r \<longleftrightarrow> (case r of Inr v \<Rightarrow> True | Inl e \<Rightarrow> e \<in> range ConfigParseError \<union> E)"

lemma raises_only_simps [simp]:
  "raises_only E (Inr v)" "raises_only E (Inl (ConfigParseError m))"
  "raises_only E (Inl e) \<longleftrightarrow> e \<in> range ConfigParseError \<union> E"
  by (auto simp: raises_only_def)

lemma raises_only_bind:
  "raises_only E r \<Longrightarrow> (\<And>v. r = Inr v \<Longrightarrow> raises_only E (g v)) \<Longrightarrow> raises_only E (bind_res r g)"
  by (cases r) auto

lemma raises_only_query: "raises_only {e. r = Inl e} r"
  by (cases r) auto

lemma raises_only_mono: "raises_only E r \<Longrightarrow> E \<subseteq> F \<Longrightarrow> raises_only F r"
  by (auto simp: raises_only_def split: sum.splits)

lemma raises_only_wrap: "raises_only E (wrap_file_errors f r)" "raises_only E (wrap_string_errors r)"
  by (auto simp: wrap_file_errors_def wrap_string_errors_def raises_only_def split: sum.splits exn.splits)

lemma checked_security_raises:
  "raises_only {e. ce_exists ce f = Inl e} (checked ctx (validate_config_file_security (ce_os ce) f))"
  by (auto simp: checked_def validate_config_file_security_def bind_res_def
      split: sum.splits exn.splits option.splits if_splits)

lemma parse_single_file_raises:
  "raises_only {e. ce_exists ce f = Inl e \<or> ce_canonical ce f = Inl e} (parse_single_file ce f c d)"
  using raises_only_query[of "ce_canonical ce f"] checked_security_raises[of ce f]
  by (simp del: raises_only_simps(3))
    (auto intro!: raises_only_bind raises_only_wrap elim!: raises_only_mono split: if_splits)

lemma validate_config_raises: "raises_only E (validate_config c)"
  by (auto simp: validate_config_def split: option.splits)

text \<open>
  C31: Whatever goes wrong while a configuration is read (a missing or refused file, the INI
  reader, a value that does not parse, a number out of range, a failed security check), the
  caller sees a \<open>ConfigParseError\<close>. The only other exceptions are those of the two
  file system queries made on the main file's name before anything is read; reading from a
  string has none.
\<close>

theorem parse_errors_are_uniform:
  "raises_only {e. ce_exists ce f = Inl e \<or> ce_canonical ce f = Inl e} (parse_file ce f) \<and>
   raises_only {} (parse_string ce s)"
proof
  let ?E = "{e. ce_exists ce f = Inl e \<or> ce_canonical ce f = Inl e}"
  have q: "raises_only ?E (ce_exists ce f)" "raises_only ?E (ce_canonical ce f)"
    using raises_only_query[of "ce_exists ce f"] raises_only_query[of "ce_canonical ce f"]
    by (blast intro: raises_only_mono)+
  have p: "raises_only ?E (parse_single_file ce f c 0)" for c
    by (rule parse_single_file_raises)
  show "raises_only ?E (parse_file ce f)"
    unfolding parse_file_def using q p validate_config_raises[of ?E]
    by (auto intro!: raises_only_bind simp del: parse_single_file.simps raises_only_simps(3))
  show "raises_only {} (parse_string ce s)"
    unfolding parse_string_def by (rule raises_only_wrap)
qed

section \<open>Values and order of programs\<close>

lemma substituted_eq: "substituted p = (\<lambda>s. Inr (Some (replace_all (pc_name p) s)))"
  by (simp add: fun_eq_iff substituted_def substitute_variables_def substitute_loop_eq)

lemma program_fields_values:
  assumes "fold_res (\<lambda>f. f) (program_fields ce key val) p = Inr q"
  shows "pc_name q = pc_name p \<and> pc_command q = pc_command p \<and>
    pt_get_bool (ce_boost ce) (ce_pt ce) val ''autorestart'' (pc_autorestart p) = Inr (pc_autorestart q) \<and>
    pt_get_bool (ce_boost ce) (ce_pt ce) val ''redirect_stderr'' (pc_redirect_stderr p) = Inr (pc_redirect_stderr q) \<and>
    pc_directory q = pt_get_path (ce_pt ce) val ''directory'' (pc_directory p) \<and>
    pc_user q = pt_get_str (ce_pt ce) val ''user'' (pc_user p) \<and>
    pt_get_int (ce_pt ce) val ''startsecs'' (pc_startsecs p) = Inr (pc_startsecs q) \<and>
    pt_get_int (ce_pt ce) val ''startretries'' (pc_startretries p) = Inr (pc_startretries q) \<and>
    pt_get_int (ce_pt ce) val ''stopwaitsecs'' (pc_stopwaitsecs p) = Inr (pc_stopwaitsecs q) \<and>
    pt_get_with (ce_pt ce) val ''stopsignal'' (pc_stopsignal p)
      (parse_config parse_signal (''Program ['' @ key @ ''] '' @ ''stopsignal'')) = Inr (pc_stopsignal q) \<and>
    pt_get_with (ce_pt ce) val ''stdout_logfile'' (lc_file (pc_stdout_log p)) (substituted p) =
      Inr (lc_file (pc_stdout_log q)) \<and>
    pt_get_with (ce_pt ce) val ''stderr_logfile'' (lc_file (pc_stderr_log p)) (substituted p) =
      Inr (lc_file (pc_stderr_log q))"
proof -
  note chain = assms[unfolded program_fields_def Let_def, simplified fold_res.simps bind_res_eq_Inr sum.inject
      set_stdout_log_def set_stderr_log_def ex_simps conj_assoc simp_thms bind_res_simps]
  from chain show ?thesis
    by (elim exE conjE, hypsubst_thin) (simp add: substituted_eq del: append.simps)
qed

lemma program_fields_rest:
  assumes "fold_res (\<lambda>f. f) (program_fields ce key val) p = Inr q"
  shows "pt_get_with (ce_pt ce) val ''environment'' (pc_environment p)
      (\<lambda>s. bind_res (parse_environment ce s) (\<lambda>e. Inr (sanitize_environment e))) = Inr (pc_environment q) \<and>
    pt_get_with (ce_pt ce) val ''umask'' (pc_umask p) (\<lambda>s. map_sum id Some (parse_umask s)) = Inr (pc_umask q) \<and>
    pt_get_with (ce_pt ce) val ''stdout_logfile_maxbytes'' (lc_file_maxbytes (pc_stdout_log p))
      (parse_config (parse_size (ce_boost ce)) (''Program ['' @ key @ ''] '' @ ''stdout_logfile_maxbytes'')) =
      Inr (lc_file_maxbytes (pc_stdout_log q)) \<and>
    pt_get_with (ce_pt ce) val ''stderr_logfile_maxbytes'' (lc_file_maxbytes (pc_stderr_log p))
      (parse_config (parse_size (ce_boost ce)) (''Program ['' @ key @ ''] '' @ ''stderr_logfile_maxbytes'')) =
      Inr (lc_file_maxbytes (pc_stderr_log q)) \<and>
    pt_get_int (ce_pt ce) val ''stdout_logfile_backups'' (lc_file_backups (pc_stdout_log p)) = Inr (lc_file_backups (pc_stdout_log q)) \<and>
    pt_get_int (ce_pt ce) val ''stderr_logfile_backups'' (lc_file_backups (pc_stderr_log p)) = Inr (lc_file_backups (pc_stderr_log q))"
proof -
  note chain = assms[unfolded program_fields_def Let_def, simplified fold_res.simps bind_res_eq_Inr sum.inject
      set_stdout_log_def set_stderr_log_def ex_simps conj_assoc simp_thms bind_res_simps]
  from chain show ?thesis
    by (elim exE conjE, hypsubst_thin) (simp del: append.simps)
qed

definition configured_int :: "'pt ptree_api \<Rightarrow> 'pt \<Rightarrow> string \<Rightarrow> int \<Rightarrow> int option" where
  "configured_int P val name dflt = (case get_str P val name of None \<Rightarrow> Some dflt | Some s \<Rightarrow> from_chars_int s)"

definition configured_bool :: "'pt ptree_api \<Rightarrow> 'pt \<Rightarrow> string \<Rightarrow> bool \<Rightarrow> bool" where
  "configured_bool P val name dflt =
     (case get_str P val name of None \<Rightarrow> dflt | Some s \<Rightarrow> lower s \<in> {''true'', ''yes'', ''1''})"

definition configured_log :: "os_env \<Rightarrow> 'pt ptree_api \<Rightarrow> 'pt \<Rightarrow> string \<Rightarrow> string \<Rightarrow> string option" where
  "configured_log oe P val name prog =
     Option.bind (get_str P val name) (\<lambda>s. resolves_to oe (replace_all prog s))"

lemma pt_get_int_configured: "pt_get_int P val n d = Inr v \<Longrightarrow> configured_int P val n d = Some v"
  by (auto simp: pt_get_int_def configured_int_def split: option.splits)

lemma pt_get_bool_configured: "boost_ok B \<Longrightarrow> pt_get_bool B P val n d = Inr v \<Longrightarrow> v = configured_bool P val n d"
  by (auto simp: pt_get_bool_def configured_bool_def boost_okD Let_def split: option.splits if_splits)

lemma check_log_file: "check_log oe ctx l = Inr m \<Longrightarrow> lc_file m = Option.bind (lc_file l) (resolves_to oe)"
  by (auto simp: check_log_def validate_log_path_characterised split: option.splits)

lemma check_log_configured:
  assumes "pt_get_with P val n None (substituted p) = Inr (lc_file l)" "check_log oe ctx l = Inr m"
  shows "lc_file m = configured_log oe P val n (pc_name p)"
  using assms(1) check_log_file[OF assms(2)]
  by (cases "get_str P val n") (auto simp: pt_get_with_def substituted_eq configured_log_def dest: sym)

lemma signal_configured:
  "pt_get_with P val n d (parse_config parse_signal ctx) = Inr v \<Longrightarrow>
     v = (case get_str P val n of None \<Rightarrow> d | Some s \<Rightarrow> s)"
  by (auto simp: pt_get_with_def parse_signal_def split: option.splits)

text \<open>
  C32: An environment that is written out is read back: entries between commas, each with blanks
  before it, a name of letters, digits and underscores, and a value in double quotes or single
  quotes (the quote and the backslash escaped by a backslash) or bare (no comma in it, not
  beginning with a blank or a quote). With distinct names the result is the map with exactly
  these bindings, whatever characters the quoted values hold, commas included. The only assumption on
  Boost.Spirit is the documented meaning of its operators.
\<close>

theorem environment_roundtrip:
  assumes "spirit_ok (ce_phrase_parse ce)" "list_all entry_written es" "es \<noteq> []" "distinct (map fst (map binding es))"
  shows "\<exists>m. parse_environment ce (write_environment es) = Inr m \<and> map_wf m \<and> map_of m = map_of (map binding es)"
  using spirit_reads[OF assms] fold_put_of[OF assms(4) map_wf_Nil] by (simp add: parse_environment_def)

theorem environment_roundtrip_witness:
  "\<exists>m. parse_environment sample_conf (''A=1, OPTS='' @ [DQUOTE] @ ''x,y'' @ [BACKSLASH, DQUOTE, DQUOTE]) = Inr m \<and> map_wf m \<and>
     map_of m = [''OPTS'' \<mapsto> ''x,y'' @ [DQUOTE], ''A'' \<mapsto> ''1'']"
proof -
  let ?es = "[([], ''A'', NoQuotes, ''1''), ('' '', ''OPTS'', DoubleQuotes, ''x,y'' @ [DQUOTE])]"
  have "spirit_ok (ce_phrase_parse sample_conf)" by (simp add: sample_conf_def spirit_ok_peg)
  moreover have "list_all entry_written ?es" by (simp add: charclass plain_value_def)
  ultimately show ?thesis using environment_roundtrip[of sample_conf ?es]
    by (simp add: escaped_def fun_upd_twist)
qed

text \<open>The size of a log file, a program's mask in octal, cut to the width of \<open>mode_t\<close>, and its environment.\<close>

definition configured_size :: "boost_algo \<Rightarrow> 'pt ptree_api \<Rightarrow> 'pt \<Rightarrow> string \<Rightarrow> nat \<Rightarrow> nat res" where
  "configured_size B P val name dflt = (case get_str P val name of None \<Rightarrow> Inr dflt | Some s \<Rightarrow> parse_size B s)"

definition configured_mask :: "'pt ptree_api \<Rightarrow> 'pt \<Rightarrow> nat option res" where
  "configured_mask P val =
     (case get_str P val ''umask'' of
        None \<Rightarrow> Inr None | Some s \<Rightarrow> map_sum id (\<lambda>v. Some (v mod 2 ^ 32)) (stoul_octal s))"

definition configured_environment :: "'pt conf_env \<Rightarrow> 'pt \<Rightarrow> string smap res" where
  "configured_environment ce val =
     (case get_str (ce_pt ce) val ''environment'' of
        None \<Rightarrow> Inr [] | Some s \<Rightarrow> map_sum id sanitize_environment (parse_environment ce s))"

lemma size_configured:
  "pt_get_with P val n d (parse_config (parse_size B) ctx) = Inr v \<Longrightarrow> configured_size B P val n d = Inr v"
  by (auto simp: pt_get_with_def parse_config_def configured_size_def split: option.splits sum.splits exn.splits)

lemma mask_configured:
  "pt_get_with P val ''umask'' None (\<lambda>s. map_sum id Some (parse_umask s)) = Inr v \<Longrightarrow> configured_mask P val = Inr v"
  by (auto simp: pt_get_with_def parse_umask_def configured_mask_def bind_res_def split: option.splits sum.splits)

lemma environment_configured:
  "pt_get_with (ce_pt ce) val ''environment'' [] (\<lambda>s. bind_res (parse_environment ce s) (\<lambda>e. Inr (sanitize_environment e))) = Inr v \<Longrightarrow>
     configured_environment ce val = Inr v"
  by (auto simp: pt_get_with_def configured_environment_def bind_res_def split: option.splits sum.splits)

lemma check_log_keeps:
  "check_log oe ctx l = Inr m \<Longrightarrow> lc_file_maxbytes m = lc_file_maxbytes l \<and> lc_file_backups m = lc_file_backups l"
  by (auto simp: check_log_def split: option.splits)

text \<open>
  C30: A program gets what its section says and the documented default for what it leaves out, in every
  field: the name after the colon, the command and the log files with the name substituted (the log
  files then resolved), three spellings of true in any case, decimal numbers, sizes with their suffix
  and numbers of backups for each of the two logs, the mask in octal, the parsed and sanitised
  environment, and user, directory and signal as written.
\<close>

theorem program_section_values:
  assumes "parse_program ce key val = Inr p" "boost_ok (ce_boost ce)"
  shows "pc_name p = drop 8 key \<and>
    (\<exists>cmd. get_str (ce_pt ce) val ''command'' = Some cmd \<and> cmd \<noteq> [] \<and> pc_command p = replace_all (drop 8 key) cmd) \<and>
    pc_autorestart p = configured_bool (ce_pt ce) val ''autorestart'' True \<and>
    pc_redirect_stderr p = configured_bool (ce_pt ce) val ''redirect_stderr'' False \<and>
    Some (pc_startsecs p) = configured_int (ce_pt ce) val ''startsecs'' 1 \<and>
    Some (pc_startretries p) = configured_int (ce_pt ce) val ''startretries'' 3 \<and>
    Some (pc_stopwaitsecs p) = configured_int (ce_pt ce) val ''stopwaitsecs'' 10 \<and>
    pc_stopsignal p = (case get_str (ce_pt ce) val ''stopsignal'' of None \<Rightarrow> ''TERM'' | Some s \<Rightarrow> s) \<and>
    pc_user p = (case get_str (ce_pt ce) val ''user'' of None \<Rightarrow> ''root'' | Some s \<Rightarrow> s) \<and>
    pc_directory p = get_str (ce_pt ce) val ''directory'' \<and>
    lc_file (pc_stdout_log p) = configured_log (ce_os ce) (ce_pt ce) val ''stdout_logfile'' (drop 8 key) \<and>
    lc_file (pc_stderr_log p) = configured_log (ce_os ce) (ce_pt ce) val ''stderr_logfile'' (drop 8 key) \<and>
    configured_size (ce_boost ce) (ce_pt ce) val ''stdout_logfile_maxbytes'' (50 * 1024 * 1024) = Inr (lc_file_maxbytes (pc_stdout_log p)) \<and>
    configured_size (ce_boost ce) (ce_pt ce) val ''stderr_logfile_maxbytes'' (50 * 1024 * 1024) = Inr (lc_file_maxbytes (pc_stderr_log p)) \<and>
    Some (lc_file_backups (pc_stdout_log p)) = configured_int (ce_pt ce) val ''stdout_logfile_backups'' 10 \<and>
    Some (lc_file_backups (pc_stderr_log p)) = configured_int (ce_pt ce) val ''stderr_logfile_backups'' 10 \<and>
    configured_mask (ce_pt ce) val = Inr (pc_umask p) \<and> configured_environment ce val = Inr (pc_environment p)"
  using assms(1)
proof (rule parse_program_cases)
  fix command q out err
  let ?d = "default_program_config\<lparr>pc_name := drop 8 key, pc_command := command\<rparr>"
  assume cmd: "get_str (ce_pt ce) val ''command'' = Some command" "command \<noteq> []"
    and f: "fold_res (\<lambda>f. f) (program_fields ce key val) ?d = Inr q"
    and o: "check_log (ce_os ce) (''Program ['' @ key @ '']'' @ '' stdout_logfile'') (pc_stdout_log q) = Inr out"
    and e: "check_log (ce_os ce) (''Program ['' @ key @ '']'' @ '' stderr_logfile'') (pc_stderr_log q) = Inr err"
    and p: "p = q\<lparr>pc_command := substitute_variables q (pc_command q), pc_stdout_log := out, pc_stderr_log := err\<rparr>"
  have d: "pc_autorestart ?d = True" "pc_redirect_stderr ?d = False" "pc_directory ?d = None" "pc_user ?d = ''root''"
    "pc_startsecs ?d = 1" "pc_startretries ?d = 3" "pc_stopwaitsecs ?d = 10" "pc_stopsignal ?d = ''TERM''"
    "lc_file (pc_stdout_log ?d) = None" "lc_file (pc_stderr_log ?d) = None" "pc_name ?d = drop 8 key" "pc_command ?d = command"
    "lc_file_maxbytes (pc_stdout_log ?d) = 50 * 1024 * 1024" "lc_file_maxbytes (pc_stderr_log ?d) = 50 * 1024 * 1024"
    "lc_file_backups (pc_stdout_log ?d) = 10" "lc_file_backups (pc_stderr_log ?d) = 10" "pc_umask ?d = None" "pc_environment ?d = []"
    by (simp_all add: default_program_config_def default_log_config_def)
  note v = program_fields_values[OF f, unfolded d]
  have s: "substitute_variables q (pc_command q) = replace_all (drop 8 key) command"
    using v by (simp add: substitute_variables_def substitute_loop_eq)
  have ints: "pt_get_int (ce_pt ce) val ''startsecs'' 1 = Inr (pc_startsecs q)"
    "pt_get_int (ce_pt ce) val ''startretries'' 3 = Inr (pc_startretries q)"
    "pt_get_int (ce_pt ce) val ''stopwaitsecs'' 10 = Inr (pc_stopwaitsecs q)"
    and flags: "pt_get_bool (ce_boost ce) (ce_pt ce) val ''autorestart'' True = Inr (pc_autorestart q)"
    "pt_get_bool (ce_boost ce) (ce_pt ce) val ''redirect_stderr'' False = Inr (pc_redirect_stderr q)"
    and files: "pt_get_with (ce_pt ce) val ''stdout_logfile'' None (substituted ?d) = Inr (lc_file (pc_stdout_log q))"
    "pt_get_with (ce_pt ce) val ''stderr_logfile'' None (substituted ?d) = Inr (lc_file (pc_stderr_log q))"
    and sig: "pt_get_with (ce_pt ce) val ''stopsignal'' ''TERM''
      (parse_config parse_signal (''Program ['' @ key @ ''] '' @ ''stopsignal'')) = Inr (pc_stopsignal q)"
    and rest: "pc_user q = pt_get_str (ce_pt ce) val ''user'' ''root''"
    "pc_directory q = pt_get_path (ce_pt ce) val ''directory'' None" "pc_name q = drop 8 key"
    and new: "pt_get_with (ce_pt ce) val ''stdout_logfile_maxbytes'' (50 * 1024 * 1024)
      (parse_config (parse_size (ce_boost ce)) (''Program ['' @ key @ ''] '' @ ''stdout_logfile_maxbytes'')) =
      Inr (lc_file_maxbytes (pc_stdout_log q))"
    "pt_get_with (ce_pt ce) val ''stderr_logfile_maxbytes'' (50 * 1024 * 1024)
      (parse_config (parse_size (ce_boost ce)) (''Program ['' @ key @ ''] '' @ ''stderr_logfile_maxbytes'')) =
      Inr (lc_file_maxbytes (pc_stderr_log q))"
    "pt_get_int (ce_pt ce) val ''stdout_logfile_backups'' 10 = Inr (lc_file_backups (pc_stdout_log q))"
    "pt_get_int (ce_pt ce) val ''stderr_logfile_backups'' 10 = Inr (lc_file_backups (pc_stderr_log q))"
    "pt_get_with (ce_pt ce) val ''umask'' None (\<lambda>s. map_sum id Some (parse_umask s)) = Inr (pc_umask q)"
    "pt_get_with (ce_pt ce) val ''environment'' [] (\<lambda>s. bind_res (parse_environment ce s) (\<lambda>e. Inr (sanitize_environment e))) =
      Inr (pc_environment q)"
    using v program_fields_rest[OF f, unfolded d] by blast+
  have nums: "Some (pc_startsecs q) = configured_int (ce_pt ce) val ''startsecs'' 1"
    "Some (pc_startretries q) = configured_int (ce_pt ce) val ''startretries'' 3"
    "Some (pc_stopwaitsecs q) = configured_int (ce_pt ce) val ''stopwaitsecs'' 10"
    using ints[THEN pt_get_int_configured] by simp_all
  note bools = flags[THEN pt_get_bool_configured[OF assms(2)]]
  note logs = check_log_configured[OF files(1) o, unfolded d] check_log_configured[OF files(2) e, unfolded d]
  have sizes: "configured_size (ce_boost ce) (ce_pt ce) val ''stdout_logfile_maxbytes'' (50 * 1024 * 1024) = Inr (lc_file_maxbytes out)"
    "configured_size (ce_boost ce) (ce_pt ce) val ''stderr_logfile_maxbytes'' (50 * 1024 * 1024) = Inr (lc_file_maxbytes err)"
    using new(1,2)[THEN size_configured] check_log_keeps[OF o] check_log_keeps[OF e] by simp_all
  have backups: "Some (lc_file_backups out) = configured_int (ce_pt ce) val ''stdout_logfile_backups'' 10"
    "Some (lc_file_backups err) = configured_int (ce_pt ce) val ''stderr_logfile_backups'' 10"
    using new(3,4)[THEN pt_get_int_configured] check_log_keeps[OF o] check_log_keeps[OF e] by simp_all
  have others: "configured_mask (ce_pt ce) val = Inr (pc_umask q)" "configured_environment ce val = Inr (pc_environment q)"
    by (rule mask_configured[OF new(5)], rule environment_configured[OF new(6)])
  have dir: "pc_directory q = get_str (ce_pt ce) val ''directory''"
    using rest(2) by (simp add: pt_get_path_def split: option.splits)
  show ?thesis
    unfolding p using cmd s nums bools logs signal_configured[OF sig] rest(1,3) dir sizes backups others
    by (simp add: pt_get_str_def)
qed

theorem program_section_values_witness:
  "pc_name sample_web = ''web'' \<and> pc_stopsignal sample_web = ''HUP'' \<and> pc_autorestart sample_web \<and>
   Some (pc_startretries sample_web) = configured_int (ce_pt sample_conf) sample_program_tree ''startretries'' 3 \<and>
   lc_file_backups (pc_stdout_log sample_web) = 10 \<and>
   configured_size classic_boost (ce_pt sample_conf) sample_program_tree ''stderr_logfile_maxbytes'' (50 * 1024 * 1024) =
     Inr (lc_file_maxbytes (pc_stderr_log sample_web)) \<and>
   configured_mask (ce_pt sample_conf) sample_program_tree = Inr None"
proof -
  have "boost_ok (ce_boost sample_conf)" by (simp add: sample_conf_def)
  note program_section_values[OF sample_web_parsed this]
  moreover have "ce_boost sample_conf = classic_boost" by (simp add: sample_conf_def)
  ultimately show ?thesis by (simp add: sample_web_def default_program_config_def default_log_config_def)
qed

lemma program_sections_order:
  "fold_res (program_section ce) kvs c = Inr c' \<Longrightarrow>
     \<exists>ps. cf_programs c' = cf_programs c @ ps \<and>
       list_all2 (\<lambda>(k, v) p. parse_program ce k v = Inr p) (filter (\<lambda>(k, _). starts_with k ''program:'') kvs) ps"
proof (induction kvs arbitrary: c)
  case (Cons kv kvs)
  obtain k v where kv: "kv = (k, v)" by fastforce
  obtain c1 where c1: "program_section ce kv c = Inr c1" "fold_res (program_section ce) kvs c1 = Inr c'"
    using Cons.prems by auto
  obtain ps where ps: "cf_programs c' = cf_programs c1 @ ps"
    "list_all2 (\<lambda>(k, v) p. parse_program ce k v = Inr p) (filter (\<lambda>(k, _). starts_with k ''program:'') kvs) ps"
    using Cons.IH[OF c1(2)] by blast
  show ?case
  proof (cases "starts_with k ''program:''")
    case True
    then obtain p where "parse_program ce k v = Inr p" "cf_programs c1 = cf_programs c @ [p]"
      using c1(1) by (auto simp: program_section_def kv)
    with ps True show ?thesis by (intro exI[of _ "p # ps"]) (simp add: kv)
  next
    case False
    with c1(1) ps show ?thesis by (auto simp: program_section_def kv)
  qed
qed simp

text \<open>
  Auxiliary property: The programs of a configuration text follow those read before it: first the ones of the
  files it includes, then its own sections in their order, each parsed on its own. Without an
  include section nothing else is added; neither is anything included when the text has no base
  directory, whatever its include section says.
\<close>

theorem programs_in_order:
  assumes "parse_stream ce (Some input) c b d = Inr c'" "read_ini (ce_pt ce) (filtered input) = Inr tree"
  shows "\<exists>incl own. cf_programs c' = cf_programs c @ incl @ own \<and>
    list_all2 (\<lambda>(k, v) p. parse_program ce k v = Inr p)
      (filter (\<lambda>(k, _). starts_with k ''program:'') (children (ce_pt ce) tree)) own \<and>
    (if include_patterns (ce_pt ce) tree = [] \<or> b = [] then incl = []
     else \<exists>c1 c2. parse_includes ce b (include_patterns (ce_pt ce) tree) c1 (d + 1) = Inr c2 \<and>
            cf_programs c1 = cf_programs c \<and> cf_programs c2 = cf_programs c @ incl)"
  using assms(1)
proof (rule parse_stream_cases)
  fix input' tree' c1 c2
  assume a: "Some input = Some input'" "d < MAX_DEPTH" "read_ini (ce_pt ce) (filtered input') = Inr tree'"
    "supervisord_section ce tree' (http_section (ce_pt ce) tree' c) = Inr c1"
    "(if include_patterns (ce_pt ce) tree' \<noteq> [] \<and> b \<noteq> []
      then parse_includes ce b (include_patterns (ce_pt ce) tree') c1 (d + 1) else Inr c1) = Inr c2"
    "fold_res (program_section ce) (children (ce_pt ce) tree') c2 = Inr c'"
  have t: "tree' = tree" using a(1,3) assms(2) by simp
  have c1: "cf_programs c1 = cf_programs c"
    using a(4) by (auto simp: supervisord_section_def http_section_def split: option.splits)
  obtain own where own: "cf_programs c' = cf_programs c2 @ own"
    "list_all2 (\<lambda>(k, v) p. parse_program ce k v = Inr p)
      (filter (\<lambda>(k, _). starts_with k ''program:'') (children (ce_pt ce) tree)) own"
    using program_sections_order[OF a(6)] unfolding t by blast
  show ?thesis
  proof (cases "include_patterns (ce_pt ce) tree = [] \<or> b = []")
    case True
    then have "c2 = c1" using a(5) by (auto simp: t)
    with own c1 True show ?thesis by (intro exI[of _ "[]"] exI[of _ own]) simp
  next
    case False
    then have i: "parse_includes ce b (include_patterns (ce_pt ce) tree) c1 (d + 1) = Inr c2" using a(5) by (simp add: t)
    then obtain incl where "cf_programs c2 = cf_programs c @ incl"
      using parse_extends(3)[OF i] c1 by (auto simp: extends_def prefix_def)
    with own c1 i False show ?thesis by (intro exI[of _ incl] exI[of _ own]) auto
  qed
qed

theorem programs_in_order_witness:
  "\<exists>c'. parse_stream sample_conf (Some []) default_configuration [] 0 = Inr c' \<and> cf_programs c' = [sample_web]"
proof -
  let ?t = "Node [] [(''program:web'', sample_program_tree)]"
  have r: "read_ini (ce_pt sample_conf) (filtered []) = Inr ?t" "children (ce_pt sample_conf) ?t = [(''program:web'', sample_program_tree)]"
    "get_child (ce_pt sample_conf) ?t x = None" if "x \<noteq> ''program:web''" for x
    using that by (simp_all add: sample_conf_def ini_api_def)
  have p: "\<exists>c'. parse_stream sample_conf (Some []) default_configuration [] 0 = Inr c'"
    using r[of "''supervisord''"] r(3)[of "''unix_http_server''"] r(3)[of "''include''"]
    by (simp add: supervisord_section_def http_section_def include_patterns_def program_section_def
        starts_with_def sample_web_parsed)
  then obtain c' where c': "parse_stream sample_conf (Some []) default_configuration [] 0 = Inr c'" by blast
  have "cf_programs c' = [sample_web]"
    using programs_in_order[OF c' r(1)] r(2)[of "[]"]
    by (auto simp: starts_with_def sample_web_parsed default_configuration_def list_all2_Cons1)
  with c' show ?thesis by blast
qed

section \<open>The include graph\<close>

text \<open>\<open>g\<close> is one of the files the include section of \<open>f\<close> names.\<close>

definition names_file :: "'pt conf_env \<Rightarrow> string \<Rightarrow> string \<Rightarrow> bool" where
  "names_file ce f g \<longleftrightarrow>
     (\<exists>input tree p files. ce_read ce f = Some input \<and> read_ini (ce_pt ce) (filtered input) = Inr tree \<and>
        p \<in> set (include_patterns (ce_pt ce) tree) \<and> parent_path f \<noteq> [] \<and>
        expand_glob ce (parent_path f) p = Inr files \<and> g \<in> set files)"

fun include_chain :: "'pt conf_env \<Rightarrow> string \<Rightarrow> string list \<Rightarrow> bool" where
  "include_chain ce f [] = True"
| "include_chain ce f (g # gs) = (names_file ce f g \<and> include_chain ce g gs)"

declare parse_single_file.simps [simp del]

text \<open>Every file an accepted include section names is parsed, in a configuration that extends the given one.\<close>

lemma parse_files_member:
  "parse_files ce fs c d = Inr c' \<Longrightarrow> g \<in> set fs \<Longrightarrow>
     \<exists>c1 c2. parse_single_file ce g c1 d = Inr c2 \<and> extends ce c c1"
proof (induction fs arbitrary: c)
  case (Cons f fs)
  then obtain c1 where c1: "parse_single_file ce f c d = Inr c1" "parse_files ce fs c1 d = Inr c'"
    by auto
  show ?case
  proof (cases "g = f")
    case True
    with c1(1) show ?thesis using extends_refl by blast
  next
    case False
    then have "g \<in> set fs" using Cons.prems(2) by simp
    then obtain c2 c3 where "parse_single_file ce g c2 d = Inr c3" "extends ce c1 c2" using Cons.IH[OF c1(2)] by blast
    then show ?thesis using parse_extends(1)[OF c1(1)] extends_trans by blast
  qed
qed simp

lemma parse_includes_member:
  "parse_includes ce b ps c d = Inr c' \<Longrightarrow> p \<in> set ps \<Longrightarrow> expand_glob ce b p = Inr files \<Longrightarrow> g \<in> set files \<Longrightarrow>
     \<exists>c1 c2. parse_single_file ce g c1 d = Inr c2 \<and> extends ce c c1"
proof (induction ps arbitrary: c)
  case (Cons q ps)
  then obtain fs c1 where c1: "expand_glob ce b q = Inr fs" "parse_files ce fs c d = Inr c1"
    "parse_includes ce b ps c1 d = Inr c'" by auto
  show ?case
  proof (cases "p = q")
    case True
    then show ?thesis using parse_files_member[OF c1(2)] c1(1) Cons.prems(3,4) by auto
  next
    case False
    then have "p \<in> set ps" using Cons.prems(2) by simp
    then obtain c2 c3 where "parse_single_file ce g c2 d = Inr c3" "extends ce c1 c2"
      using Cons.IH[OF c1(3) _ Cons.prems(3,4)] by blast
    then show ?thesis using parse_extends(4)[OF c1(2)] extends_trans by blast
  qed
qed simp

lemma parse_single_file_includes:
  assumes "parse_single_file ce f c d = Inr c'" "names_file ce f g" "ce_canonical ce f = Inr h"
  shows "\<exists>c1 c2. parse_single_file ce g c1 (d + 1) = Inr c2 \<and> insert h (set (cf_included c)) \<subseteq> set (cf_included c1)"
  using assms(1)
proof (rule parse_single_file_cases)
  fix h'
  assume h: "ce_canonical ce f = Inr h'"
    and s: "parse_stream ce (ce_read ce f) (c\<lparr>cf_included := insort h' (cf_included c)\<rparr>) (parent_path f) d = Inr c'"
  obtain input tree p files where i: "ce_read ce f = Some input" "read_ini (ce_pt ce) (filtered input) = Inr tree"
    "p \<in> set (include_patterns (ce_pt ce) tree)" "parent_path f \<noteq> []" "expand_glob ce (parent_path f) p = Inr files"
    "g \<in> set files" using assms(2) by (auto simp: names_file_def)
  let ?c = "c\<lparr>cf_included := insort h' (cf_included c)\<rparr>"
  from s show ?thesis
  proof (rule parse_stream_cases)
    fix input' tree' c1 c2
    assume a: "ce_read ce f = Some input'" "read_ini (ce_pt ce) (filtered input') = Inr tree'"
      "supervisord_section ce tree' (http_section (ce_pt ce) tree' ?c) = Inr c1"
      "(if include_patterns (ce_pt ce) tree' \<noteq> [] \<and> parent_path f \<noteq> []
        then parse_includes ce (parent_path f) (include_patterns (ce_pt ce) tree') c1 (d + 1) else Inr c1) = Inr c2"
    have "tree' = tree" using a(1,2) i(1,2) by simp
    with a(4) i(3,4) have "parse_includes ce (parent_path f) (include_patterns (ce_pt ce) tree) c1 (d + 1) = Inr c2"
      by (auto split: if_splits)
    then obtain c3 c4 where "parse_single_file ce g c3 (d + 1) = Inr c4" "extends ce c1 c3"
      using parse_includes_member i(3,5,6) by blast
    moreover have "extends ce ?c c1"
      using http_section_extends supervisord_section_extends[OF a(3)] by (rule extends_trans)
    ultimately show ?thesis using h assms(3) by (auto simp: extends_def set_insort_key)
  qed
qed

lemma parse_single_file_depth:
  "parse_single_file ce f c d = Inr c' \<Longrightarrow> d < MAX_DEPTH \<and> (\<exists>h. ce_canonical ce f = Inr h \<and> h \<notin> set (cf_included c))"
  by (erule parse_single_file_cases, erule parse_stream_cases) blast

lemma include_chain_bounded:
  "parse_single_file ce f c d = Inr c' \<Longrightarrow> include_chain ce f gs \<Longrightarrow>
     d + length gs < MAX_DEPTH \<and> distinct (map (ce_canonical ce) (f # gs)) \<and>
     Inr ` set (cf_included c) \<inter> ce_canonical ce ` set (f # gs) = {}"
proof (induction gs arbitrary: f c d c')
  case Nil
  then show ?case using parse_single_file_depth by fastforce
next
  case (Cons g gs)
  obtain h where h: "ce_canonical ce f = Inr h" "h \<notin> set (cf_included c)"
    using parse_single_file_depth[OF Cons.prems(1)] by blast
  have "names_file ce f g" using Cons.prems(2) by simp
  then obtain c1 c2 where c1: "parse_single_file ce g c1 (d + 1) = Inr c2"
    "insert h (set (cf_included c)) \<subseteq> set (cf_included c1)"
    using parse_single_file_includes[OF Cons.prems(1) _ h(1)] by blast
  have ih: "d + 1 + length gs < MAX_DEPTH" "distinct (map (ce_canonical ce) (g # gs))"
    "Inr ` set (cf_included c1) \<inter> ce_canonical ce ` set (g # gs) = {}"
    using Cons.IH[OF c1(1)] Cons.prems(2) by auto
  have "Inr h \<notin> ce_canonical ce ` set (g # gs)" "Inr ` set (cf_included c) \<inter> ce_canonical ce ` set (g # gs) = {}"
    using ih(3) c1(2) by blast+
  with ih(1,2) h show ?case by auto
qed

text \<open>
  C19: The include graph of an accepted configuration is finite and shallow: a chain of
  includes that starts at the main file has at most ten files and never meets a file twice, by
  whatever name it is reached. A configuration that includes itself, directly or through
  others, is therefore refused.
\<close>

theorem include_chains_are_bounded:
  assumes "parse_file ce f = Inr c" "include_chain ce f gs"
  shows "length (f # gs) \<le> 10 \<and> distinct (map (ce_canonical ce) (f # gs))"
  using assms(1)
proof (rule parse_file_cases)
  fix g
  assume "parse_single_file ce f (default_configuration\<lparr>cf_config_file := g\<rparr>) 0 = Inr c"
  from include_chain_bounded[OF this assms(2)] show ?thesis by simp
qed

text \<open>An example with two files: the main one includes \<^verbatim>\<open>d/*.conf\<close>.\<close>

definition sample_nested :: "ptree conf_env" where
  "sample_nested = sample_conf\<lparr>
     ce_read := (\<lambda>f. if f = ''/etc/s.conf'' then Some ''m'' else Some ''p''),
     ce_list := (\<lambda>d. Inr [(''a.conf'', True)]),
     ce_pt := (ini_api (Node [] []))\<lparr>read_ini := (\<lambda>s.
       if s = ''m'' @ [NL] then Inr (Node [] [(''include'', Node [] [(''files'', Node ''d/*.conf'' [])])])
       else Inr (Node [] []))\<rparr>\<rparr>"

lemma sample_nested_glob: "expand_glob sample_nested ''/etc'' ''d/*.conf'' = Inr [''/etc/d/a.conf'']"
  by code_simp

lemma sample_nested_files:
  "filtered ''m'' = [CHR ''m'', NL]" "filtered ''p'' = [CHR ''p'', NL]" "split_words ''d/*.conf'' = [''d/*.conf'']"
  "parent_path ''/etc/s.conf'' = ''/etc''" "parent_path ''/etc/d/a.conf'' = ''/etc/d''"
  by code_simp+

lemma sample_nested_env:
  "ce_canonical sample_nested f = Inr f" "ce_exists sample_nested f = Inr True"
  "validate_config_file_security (ce_os sample_nested) f = Inr ()"
  "ce_read sample_nested ''/etc/s.conf'' = Some ''m''" "ce_read sample_nested ''/etc/d/a.conf'' = Some ''p''"
  "read_ini (ce_pt sample_nested) [CHR ''m'', NL] =
     Inr (Node [] [(''include'', Node [] [(''files'', Node ''d/*.conf'' [])])])"
  "read_ini (ce_pt sample_nested) [CHR ''p'', NL] = Inr (Node [] [])"
  by (simp_all add: sample_nested_def sample_conf_def plain_env_def validate_config_file_security_def world_writable_def)

lemma sample_nested_trees:
  "include_patterns (ce_pt sample_nested) (Node [] [(''include'', Node [] [(''files'', Node ''d/*.conf'' [])])]) =
     [''d/*.conf'']"
  "include_patterns (ce_pt sample_nested) (Node [] []) = []"
  by (simp_all add: include_patterns_def sample_nested_def ini_api_def sample_nested_files)

lemma sample_nested_sections:
  "http_section (ce_pt sample_nested) (Node [] [(''include'', t)]) c = c"
  "http_section (ce_pt sample_nested) (Node [] []) c = c"
  "supervisord_section sample_nested (Node [] [(''include'', t)]) c = Inr c"
  "supervisord_section sample_nested (Node [] []) c = Inr c"
  "fold_res (program_section sample_nested) (children (ce_pt sample_nested) (Node [] [(''include'', t)])) c = Inr c"
  "fold_res (program_section sample_nested) (children (ce_pt sample_nested) (Node [] [])) c = Inr c"
  by (simp_all add: http_section_def supervisord_section_def program_section_def starts_with_def
      sample_nested_def ini_api_def)

lemma sample_nested_parsed: "\<exists>c. parse_file sample_nested ''/etc/s.conf'' = Inr c"
proof -
  note facts = sample_nested_env sample_nested_files sample_nested_trees sample_nested_sections sample_nested_glob checked_def
  let ?c = "\<lambda>fs. default_configuration\<lparr>cf_config_file := ''/etc/s.conf'', cf_included := fs\<rparr>"
  have a: "parse_single_file sample_nested ''/etc/d/a.conf'' (?c [''/etc/s.conf'']) 1 =
      Inr (?c (insort ''/etc/d/a.conf'' [''/etc/s.conf'']))"
    unfolding parse_single_file.simps by (simp add: facts wrap_file_errors_def del: bind_res_eq_Inr insort_key.simps)
  have "cf_included default_configuration = []" by (simp add: default_configuration_def)
  then have "parse_single_file sample_nested ''/etc/s.conf'' (default_configuration\<lparr>cf_config_file := ''/etc/s.conf''\<rparr>) 0 =
      Inr (?c (insort ''/etc/d/a.conf'' [''/etc/s.conf'']))"
    using a unfolding parse_single_file.simps[of _ "''/etc/s.conf''"]
    by (simp add: facts wrap_file_errors_def del: bind_res_eq_Inr insort_key.simps(2))
  moreover have "validate_config (?c fs) = Inr ()" for fs
    by (simp add: validate_config_def default_configuration_def)
  ultimately show ?thesis by (simp add: parse_file_def sample_nested_env del: bind_res_eq_Inr insort_key.simps)
qed

theorem include_chains_are_bounded_witness:
  "(\<exists>c. parse_file sample_nested ''/etc/s.conf'' = Inr c) \<and>
   include_chain sample_nested ''/etc/s.conf'' [''/etc/d/a.conf''] \<and>
   distinct (map (ce_canonical sample_nested) [''/etc/s.conf'', ''/etc/d/a.conf''])"
proof -
  have "names_file sample_nested ''/etc/s.conf'' ''/etc/d/a.conf''"
    unfolding names_file_def
    by (rule exI[of _ "''m''"], rule exI[of _ "Node [] [(''include'', Node [] [(''files'', Node ''d/*.conf'' [])])]"],
        rule exI[of _ "''d/*.conf''"], rule exI[of _ "[''/etc/d/a.conf'']"])
      (simp add: sample_nested_env sample_nested_files sample_nested_trees sample_nested_glob del: append.simps)
  then have chain: "include_chain sample_nested ''/etc/s.conf'' [''/etc/d/a.conf'']" by simp
  obtain c where "parse_file sample_nested ''/etc/s.conf'' = Inr c" using sample_nested_parsed by blast
  from include_chains_are_bounded[OF this chain] chain sample_nested_parsed show ?thesis by simp
qed

end
