(* ===== verification/Pidfile.thy ===== *)
theory Pidfile
  imports Secure
begin

text \<open>
  \<^verbatim>\<open>supervisor-lib/src/util/pidfile.h\<close>: the guard that creates, locks and writes the pid
  file and removes it when the daemon ends. Names refer to inodes, locks belong to inodes, and
  each system call is one step, so that several daemons starting and stopping at once can be
  interleaved. The guard's constructor and destructor are shown to be runs of these steps.
\<close>

section \<open>System calls\<close>

record pid_os =
  po_names :: "string \<Rightarrow> nat option"
  po_data :: "nat \<Rightarrow> string"
  po_lock :: "nat \<Rightarrow> int option"
  po_fresh :: nat
  po_open_ok :: "string \<Rightarrow> bool"
  po_accepts :: "nat \<Rightarrow> nat option"
  po_remove_ok :: "string \<Rightarrow> bool"
  po_strerror :: string

text \<open>\<open>open(O_WRONLY | O_CREAT | O_TRUNC)\<close>: an existing file is emptied, a missing one created.\<close>

definition pid_open :: "string \<Rightarrow> pid_os \<Rightarrow> (nat \<times> pid_os) option" where
  "pid_open path os =
     (if \<not> po_open_ok os path then None
      else case po_names os path of
             Some i \<Rightarrow> Some (i, os\<lparr>po_data := (po_data os)(i := [])\<rparr>)
           | None \<Rightarrow>
               let i = po_fresh os in
               Some (i, os\<lparr>po_names := (po_names os)(path \<mapsto> i), po_data := (po_data os)(i := []), po_fresh := Suc i\<rparr>))"

text \<open>\<open>flock(LOCK_EX | LOCK_NB)\<close> on a fresh descriptor: refused while anyone holds the lock.\<close>

definition pid_flock :: "nat \<Rightarrow> int \<Rightarrow> pid_os \<Rightarrow> bool \<times> pid_os" where
  "pid_flock i me os =
     (if po_lock os i \<noteq> None then (False, os) else (True, os\<lparr>po_lock := (po_lock os)(i \<mapsto> me)\<rparr>))"

text \<open>\<open>write\<close> at the start of the file: an error, or as many bytes as the system accepts.\<close>

definition pid_write :: "nat \<Rightarrow> string \<Rightarrow> pid_os \<Rightarrow> bool \<times> pid_os" where
  "pid_write i s os =
     (case po_accepts os i of
        None \<Rightarrow> (False, os)
      | Some n \<Rightarrow> (True, os\<lparr>po_data := (po_data os)(i := take n s @ drop (length (take n s)) (po_data os i))\<rparr>))"

definition pid_close :: "nat \<Rightarrow> int \<Rightarrow> pid_os \<Rightarrow> pid_os" where
  "pid_close i me os = (if po_lock os i = Some me then os\<lparr>po_lock := (po_lock os)(i := None)\<rparr> else os)"

definition pid_remove :: "string \<Rightarrow> pid_os \<Rightarrow> pid_os" where
  "pid_remove path os = (if po_remove_ok os path then os\<lparr>po_names := (po_names os)(path := None)\<rparr> else os)"

section \<open>The guard\<close>

text \<open>A descriptor of \<open>-1\<close> is \<open>None\<close>; otherwise it refers to the inode it was opened on.\<close>

record pid_file_guard =
  pg_path :: string
  pg_fd :: "nat option"

definition pid_text :: "int \<Rightarrow> string" where
  "pid_text me = show_int me @ [NL]"

definition mk_pid_file_guard :: "os_env \<Rightarrow> string \<Rightarrow> int \<Rightarrow> pid_os \<Rightarrow> pid_file_guard res \<times> pid_os" where
  "mk_pid_file_guard oe path me os =
     (case validate_pidfile_path oe path of
        Inl e \<Rightarrow> (Inl e, os)
      | Inr path \<Rightarrow>
          (case pid_open (c_str path) os of
             None \<Rightarrow> (Inl (RuntimeError (''Failed to open pidfile: '' @ path @ '' - '' @ po_strerror os)), os)
           | Some (fd, os) \<Rightarrow>
               (case pid_flock fd me os of
                  (False, os) \<Rightarrow>
                    (Inl (RuntimeError (''Another instance is already running (pidfile locked): '' @ path)),
                     pid_close fd me os)
                | (True, os) \<Rightarrow>
                    (case pid_write fd (pid_text me) os of
                       (False, os) \<Rightarrow>
                         (Inl (RuntimeError (''Failed to write pidfile: '' @ path @ '' - '' @ po_strerror os)),
                          pid_close fd me os)
                     | (True, os) \<Rightarrow> (Inr \<lparr>pg_path = path, pg_fd = Some fd\<rparr>, os)))))"

definition destroy_guard :: "pid_file_guard \<Rightarrow> int \<Rightarrow> pid_os \<Rightarrow> pid_os" where
  "destroy_guard g me os =
     (case pg_fd g of
        None \<Rightarrow> os
      | Some fd \<Rightarrow> pid_remove (c_str (pg_path g)) (pid_close fd me os))"

text \<open>
  Moving: the new guard and what is left of the old one. Assignment between two distinct guards
  closes what it replaces; a self-assignment does nothing.
\<close>

definition move_guard :: "pid_file_guard \<Rightarrow> pid_file_guard \<times> pid_file_guard" where
  "move_guard other = (\<lparr>pg_path = pg_path other, pg_fd = pg_fd other\<rparr>, other\<lparr>pg_fd := None\<rparr>)"

definition assign_guard ::
  "pid_file_guard \<Rightarrow> pid_file_guard \<Rightarrow> int \<Rightarrow> pid_os \<Rightarrow> pid_file_guard \<times> pid_file_guard \<times> pid_os" where
  "assign_guard this other me os =
     (let os = (case pg_fd this of Some fd \<Rightarrow> pid_close fd me os | None \<Rightarrow> os)
      in (this\<lparr>pg_path := pg_path other, pg_fd := pg_fd other\<rparr>, other\<lparr>pg_fd := None\<rparr>, os))"

section \<open>Several daemons at once\<close>

datatype inst_pc = Idle | Opened nat | Locked nat | Running nat | Closing | Gone | Failed

type_synonym instances = "(int \<Rightarrow> inst_pc) \<times> pid_os"

inductive inst_step :: "string \<Rightarrow> instances \<Rightarrow> instances \<Rightarrow> bool" for path where
  open_ok: "pcs me = Idle \<Longrightarrow> pid_open path os = Some (i, os') \<Longrightarrow> inst_step path (pcs, os) (pcs(me := Opened i), os')"
| open_fail: "pcs me = Idle \<Longrightarrow> pid_open path os = None \<Longrightarrow> inst_step path (pcs, os) (pcs(me := Failed), os)"
| lock_ok: "pcs me = Opened i \<Longrightarrow> pid_flock i me os = (True, os') \<Longrightarrow> inst_step path (pcs, os) (pcs(me := Locked i), os')"
| lock_fail: "pcs me = Opened i \<Longrightarrow> pid_flock i me os = (False, os') \<Longrightarrow>
    inst_step path (pcs, os) (pcs(me := Failed), pid_close i me os')"
| write_ok: "pcs me = Locked i \<Longrightarrow> pid_write i (pid_text me) os = (True, os') \<Longrightarrow>
    inst_step path (pcs, os) (pcs(me := Running i), os')"
| write_fail: "pcs me = Locked i \<Longrightarrow> pid_write i (pid_text me) os = (False, os') \<Longrightarrow>
    inst_step path (pcs, os) (pcs(me := Failed), pid_close i me os')"
| close: "pcs me = Running i \<Longrightarrow> inst_step path (pcs, os) (pcs(me := Closing), pid_close i me os)"
| remove: "pcs me = Closing \<Longrightarrow> inst_step path (pcs, os) (pcs(me := Gone), pid_remove path os)"

inductive_cases inst_stepE: "inst_step path s t"

lemmas pid_syscalls = pid_open_def pid_flock_def pid_write_def pid_close_def pid_remove_def

text \<open>The inode an instance has a descriptor of, and whether it has locked it.\<close>

fun pc_inode :: "inst_pc \<Rightarrow> nat option" where
  "pc_inode (Opened i) = Some i"
| "pc_inode (Locked i) = Some i"
| "pc_inode (Running i) = Some i"
| "pc_inode _ = None"

fun pc_holds :: "inst_pc \<Rightarrow> nat option" where
  "pc_holds (Locked i) = Some i"
| "pc_holds (Running i) = Some i"
| "pc_holds _ = None"

definition nobody_left :: "instances \<Rightarrow> bool" where
  "nobody_left s \<longleftrightarrow> (\<forall>me. fst s me \<noteq> Closing \<and> fst s me \<noteq> Gone)"

definition inst_inv :: "string \<Rightarrow> instances \<Rightarrow> bool" where
  "inst_inv path s \<longleftrightarrow>
     (\<forall>me i. pc_holds (fst s me) = Some i \<longrightarrow> po_lock (snd s) i = Some me) \<and>
     (nobody_left s \<longrightarrow> (\<forall>me i. pc_inode (fst s me) = Some i \<longrightarrow> po_names (snd s) path = Some i))"

lemma nobody_left_upd:
  "pc \<notin> {Closing, Gone} \<Longrightarrow> pcs me \<notin> {Closing, Gone} \<Longrightarrow> nobody_left (pcs(me := pc), os') = nobody_left (pcs, os)"
  by (simp add: nobody_left_def) metis

lemma inst_step_preserves: "inst_step path s t \<Longrightarrow> inst_inv path s \<Longrightarrow> inst_inv path t"
proof (induction rule: inst_step.induct)
  case (open_ok pcs me os i os')
  with nobody_left_upd[of "Opened i" pcs me os' os] show ?case
    by (auto simp: inst_inv_def pid_open_def Let_def split: if_splits option.splits)
next
  case (open_fail pcs me os)
  with nobody_left_upd[of Failed pcs me os os] show ?case by (auto simp: inst_inv_def)
next
  case (lock_ok pcs me i os os')
  with nobody_left_upd[of "Locked i" pcs me os' os] show ?case
    by (auto simp: inst_inv_def pid_flock_def split: if_splits) (metis pc_inode.simps(1))
next
  case (lock_fail pcs me i os os')
  with nobody_left_upd[of Failed pcs me "pid_close i me os'" os] show ?case
    by (auto simp: inst_inv_def pid_flock_def pid_close_def split: if_splits)
next
  case (write_ok pcs me i os os')
  with nobody_left_upd[of "Running i" pcs me os' os] show ?case
    by (auto simp: inst_inv_def pid_write_def split: option.splits) (metis pc_holds.simps(1) pc_inode.simps(2))+
next
  case (write_fail pcs me i os os')
  with nobody_left_upd[of Failed pcs me "pid_close i me os'" os] show ?case
    by (auto simp: inst_inv_def pid_write_def pid_close_def split: option.splits) (metis option.inject pc_holds.simps(1))+
next
  case (close pcs me i os)
  then show ?case by (auto simp: inst_inv_def pid_close_def nobody_left_def) (metis option.inject pc_holds.simps(2))+
next
  case (remove pcs me os)
  then show ?case by (auto simp: inst_inv_def pid_remove_def nobody_left_def)
qed

interpretation instances: transition_system "inst_step path" "inst_inv path" for path
  by unfold_locales (rule inst_step_preserves)

text \<open>Every instance starts idle.\<close>

abbreviation all_idle :: "int \<Rightarrow> inst_pc" where "all_idle \<equiv> \<lambda>_. Idle"

lemma inst_inv_init: "inst_inv path (all_idle, os)"
  by (simp add: inst_inv_def)

definition empty_os :: pid_os where
  "empty_os = \<lparr>po_names = (\<lambda>_. None), po_data = (\<lambda>_. []), po_lock = (\<lambda>_. None), po_fresh = 0,
     po_open_ok = (\<lambda>_. True), po_accepts = (\<lambda>_. Some 64), po_remove_ok = (\<lambda>_. True), po_strerror = []\<rparr>"

text \<open>
  C25: However the system calls of any number of starting daemons interleave, and whatever pid
  file was there before, at most one of them gets past the lock, as long as none of them has
  begun to leave.
\<close>

theorem pidfile_single_instance:
  assumes "(inst_step path)\<^sup>*\<^sup>* (all_idle, os) (pcs, os')" "nobody_left (pcs, os')"
    and "pcs a = Running i" "pcs b = Running j"
  shows "a = b"
proof -
  have "inst_inv path (pcs, os')" using instances.steps_preserve[OF assms(1) inst_inv_init] .
  with assms(2) have holds: "\<And>me i. pc_holds (pcs me) = Some i \<Longrightarrow> po_lock os' i = Some me"
    and named: "\<And>me i. pc_inode (pcs me) = Some i \<Longrightarrow> po_names os' path = Some i"
    by (auto simp: inst_inv_def)
  have "po_lock os' i = Some a" "po_lock os' j = Some b" using assms(3,4) by (auto intro: holds)
  moreover have "i = j" using named[of a i] named[of b j] assms(3,4) by simp
  ultimately show ?thesis by simp
qed

definition started_os :: "string \<Rightarrow> int \<Rightarrow> pid_os \<Rightarrow> pid_os" where
  "started_os path me os = snd (pid_write 0 (pid_text me) (snd (pid_flock 0 me (snd (the (pid_open path os))))))"

lemma one_instance_starts:
  "(inst_step path)\<^sup>*\<^sup>* (all_idle, empty_os) (all_idle(me := Running 0), started_os path me empty_os)"
proof -
  let ?o1 = "snd (the (pid_open path empty_os))"
  let ?o2 = "snd (pid_flock 0 me ?o1)"
  have "inst_step path (all_idle, empty_os) (all_idle(me := Opened 0), ?o1)"
    by (rule inst_step.open_ok) (simp_all add: pid_open_def empty_os_def)
  moreover have "inst_step path (all_idle(me := Opened 0), ?o1) ((all_idle(me := Opened 0))(me := Locked 0), ?o2)"
    by (rule inst_step.lock_ok) (simp_all add: pid_open_def pid_flock_def empty_os_def)
  moreover have "inst_step path (all_idle(me := Locked 0), ?o2)
      ((all_idle(me := Locked 0))(me := Running 0), started_os path me empty_os)"
    by (rule inst_step.write_ok) (simp_all add: pid_open_def pid_flock_def pid_write_def empty_os_def started_os_def)
  ultimately show ?thesis by (simp add: converse_rtranclp_into_rtranclp)
qed

theorem pidfile_single_instance_witness:
  "\<exists>os'. (inst_step ''/run/s.pid'')\<^sup>*\<^sup>* (all_idle, empty_os) (all_idle(7 := Running 0), os') \<and>
     nobody_left (all_idle(7 := Running 0), os') \<and> (\<forall>b. (all_idle(7 := Running 0)) b = Running 0 \<longrightarrow> b = 7)"
proof -
  let ?os = "started_os ''/run/s.pid'' 7 empty_os"
  have n: "nobody_left (all_idle(7 := Running 0), ?os)" by (simp add: nobody_left_def)
  show ?thesis
    using pidfile_single_instance[OF one_instance_starts[of "''/run/s.pid''" 7] n, of 7 0] one_instance_starts n
    by (metis fun_upd_same)
qed

section \<open>The guard is a run of these steps\<close>

definition outcome_pc :: "pid_file_guard res \<Rightarrow> inst_pc" where
  "outcome_pc r = (case r of Inr g \<Rightarrow> (case pg_fd g of Some fd \<Rightarrow> Running fd | None \<Rightarrow> Failed) | Inl _ \<Rightarrow> Failed)"

text \<open>The steps of one daemon, as updates of its own place.\<close>

lemma own_steps:
  "pcs me = Idle \<Longrightarrow> pid_open path os = Some (fd, os') \<Longrightarrow> inst_step path (pcs, os) (pcs(me := Opened fd), os')"
  "pid_flock fd me os = (True, os') \<Longrightarrow> inst_step path (pcs(me := Opened fd), os) (pcs(me := Locked fd), os')"
  "pid_flock fd me os = (False, os') \<Longrightarrow> inst_step path (pcs(me := Opened fd), os) (pcs(me := Failed), pid_close fd me os')"
  "pid_write fd (pid_text me) os = (True, os') \<Longrightarrow> inst_step path (pcs(me := Locked fd), os) (pcs(me := Running fd), os')"
  "pid_write fd (pid_text me) os = (False, os') \<Longrightarrow> inst_step path (pcs(me := Locked fd), os) (pcs(me := Failed), pid_close fd me os')"
  "inst_step path (pcs(me := Running fd), os) (pcs(me := Closing), pid_close fd me os)"
  "inst_step path (pcs(me := Closing), os) (pcs(me := Gone), pid_remove path os)"
  using inst_step.open_ok[of pcs me path os fd os'] inst_step.lock_ok[of "pcs(me := Opened fd)" me fd os os' path]
    inst_step.lock_fail[of "pcs(me := Opened fd)" me fd os os' path] inst_step.write_ok[of "pcs(me := Locked fd)" me fd os os' path]
    inst_step.write_fail[of "pcs(me := Locked fd)" me fd os os' path] inst_step.close[of "pcs(me := Running fd)" me fd path os]
    inst_step.remove[of "pcs(me := Closing)" me path os]
  by simp_all

lemma destroy_run:
  "(inst_step (c_str p))\<^sup>*\<^sup>* (pcs(me := Running fd), os) (pcs(me := Gone), destroy_guard \<lparr>pg_path = p, pg_fd = Some fd\<rparr> me os)"
  using own_steps(6)[of "c_str p" pcs me fd os] own_steps(7)[of "c_str p" pcs me "pid_close fd me os"]
  by (simp add: destroy_guard_def converse_rtranclp_into_rtranclp)

text \<open>
  C26: Constructing the guard is exactly one daemon's run of the system calls, from idle to
  running or to failure, with the same effect on the files and locks, and destroying it is the
  run from running to gone; so what holds of all interleavings of the calls holds of guards.
\<close>

theorem guard_refines_steps:
  assumes "validate_pidfile_path oe path = Inr p" "pcs me = Idle"
    and "mk_pid_file_guard oe path me os = (r, os')"
  shows "(inst_step (c_str p))\<^sup>*\<^sup>* (pcs, os) (pcs(me := outcome_pc r), os') \<and>
    (case r of
       Inl e \<Rightarrow> True
     | Inr g \<Rightarrow> (inst_step (c_str p))\<^sup>*\<^sup>* (pcs(me := outcome_pc r), os') (pcs(me := Gone), destroy_guard g me os'))"
proof (cases "pid_open (c_str p) os")
  case None
  then have "inst_step (c_str p) (pcs, os) (pcs(me := Failed), os)" using assms(2) by (auto intro: inst_step.open_fail)
  with None assms show ?thesis by (auto simp: mk_pid_file_guard_def outcome_pc_def)
next
  case (Some fo)
  obtain fd o1 where fo: "fo = (fd, o1)" by fastforce
  obtain ok o2 where lk: "pid_flock fd me o1 = (ok, o2)" by fastforce
  obtain wr o3 where w: "pid_write fd (pid_text me) o2 = (wr, o3)" by fastforce
  have s1: "inst_step (c_str p) (pcs, os) (pcs(me := Opened fd), o1)" using Some assms(2) by (simp add: own_steps(1) fo)
  note mk = assms(1) Some fo lk w mk_pid_file_guard_def outcome_pc_def
  consider "\<not> ok" | "ok" "\<not> wr" | "ok" "wr" by blast
  then show ?thesis
  proof cases
    case 1
    with s1 own_steps(3)[of fd me o1 o2 "c_str p" pcs] lk assms(3) show ?thesis by (auto simp: mk)
  next
    case 2
    with s1 own_steps(2)[of fd me o1 o2 "c_str p" pcs] own_steps(5)[of fd me o2 o3 "c_str p" pcs] lk w assms(3)
    show ?thesis by (auto simp: mk)
  next
    case 3
    then have r: "r = Inr \<lparr>pg_path = p, pg_fd = Some fd\<rparr>" "os' = o3" using assms(3) by (auto simp: mk)
    from 3 s1 own_steps(2)[of fd me o1 o2 "c_str p" pcs] own_steps(4)[of fd me o2 o3 "c_str p" pcs] lk w
    have "(inst_step (c_str p))\<^sup>*\<^sup>* (pcs, os) (pcs(me := Running fd), o3)"
      by (simp add: converse_rtranclp_into_rtranclp)
    with destroy_run[of p pcs me fd o3] show ?thesis by (simp add: r outcome_pc_def)
  qed
qed

lemma sample_pidfile_path: "validate_pidfile_path plain_env ''/run/s.pid'' = Inr ''/run/s.pid''"
  by (simp add: validate_pidfile_path_def is_absolute_def validate_path_in_allowed_dirs_def pidfile_dirs_def
      plain_env_def validate_canonicalize_path_def del: bind_res_eq_Inr)

theorem guard_refines_steps_witness:
  "\<exists>r os'. mk_pid_file_guard plain_env ''/run/s.pid'' 7 empty_os = (r, os') \<and>
     (inst_step (c_str ''/run/s.pid''))\<^sup>*\<^sup>* (all_idle, empty_os) (all_idle(7 := outcome_pc r), os')"
proof -
  obtain r os' where "mk_pid_file_guard plain_env ''/run/s.pid'' 7 empty_os = (r, os')" by fastforce
  with guard_refines_steps[OF sample_pidfile_path _ this, of all_idle] show ?thesis by auto
qed

section \<open>One guard at a time\<close>

lemma mk_guard_owned:
  assumes "validate_pidfile_path oe path = Inr p" "po_open_ok os (c_str p)"
    "po_names os (c_str p) = Some i" "po_lock os i \<noteq> None"
  shows "mk_pid_file_guard oe path me os =
    (Inl (RuntimeError (''Another instance is already running (pidfile locked): '' @ p)),
     pid_close i me (os\<lparr>po_data := (po_data os)(i := [])\<rparr>))"
  using assms by (simp add: mk_pid_file_guard_def pid_open_def pid_flock_def)

text \<open>
  C27: A daemon that finds its pid file locked by another process refuses to start and leaves
  names and locks as they were; but the file of the running daemon has been emptied on the way.
  A daemon that finds it free owns it: the file holds its pid, and destroying the guard
  releases the lock and removes the file.
\<close>

theorem pidfile_guard_outcomes:
  assumes "validate_pidfile_path oe path = Inr p" "po_open_ok os (c_str p)"
    and "po_names os (c_str p) = Some i" "po_accepts os i = Some n" "length (pid_text me) \<le> n" "po_remove_ok os (c_str p)"
  shows "case po_lock os i of
      Some other \<Rightarrow> other \<noteq> me \<longrightarrow>
        mk_pid_file_guard oe path me os =
          (Inl (RuntimeError (''Another instance is already running (pidfile locked): '' @ p)),
           os\<lparr>po_data := (po_data os)(i := [])\<rparr>)
    | None \<Rightarrow> \<exists>g os'. mk_pid_file_guard oe path me os = (Inr g, os') \<and>
        po_data os' i = pid_text me \<and> po_lock os' i = Some me \<and> po_names os' = po_names os \<and>
        destroy_guard g me os' = os\<lparr>po_data := (po_data os)(i := pid_text me), po_names := (po_names os)(c_str p := None)\<rparr>"
proof (cases "po_lock os i")
  case None
  with assms show ?thesis
    by (simp add: mk_pid_file_guard_def pid_syscalls destroy_guard_def fun_upd_idem)
next
  case (Some other)
  with mk_guard_owned[OF assms(1-3), of me] show ?thesis by (simp add: pid_close_def)
qed

definition owned_os :: pid_os where
  "owned_os = empty_os\<lparr>po_names := [''/run/s.pid'' \<mapsto> 0], po_data := (\<lambda>_. ''5''), po_lock := [0 \<mapsto> 5]\<rparr>"

lemma length_pid_text_7: "length (pid_text 7) \<le> 64"
  by (simp add: pid_text_def show_int_def show_nat.simps)

theorem pidfile_guard_outcomes_witness:
  "mk_pid_file_guard plain_env ''/run/s.pid'' 7 owned_os =
     (Inl (RuntimeError ''Another instance is already running (pidfile locked): /run/s.pid''),
      owned_os\<lparr>po_data := (po_data owned_os)(0 := [])\<rparr>) \<and>
   (\<exists>g os'. mk_pid_file_guard plain_env ''/run/s.pid'' 7 (owned_os\<lparr>po_lock := Map.empty\<rparr>) = (Inr g, os') \<and>
      po_data os' 0 = pid_text 7)"
proof
  have c: "c_str ''/run/s.pid'' = ''/run/s.pid''" by simp
  have os: "po_open_ok owned_os x" "po_names owned_os (c_str ''/run/s.pid'') = Some 0" "po_accepts owned_os y = Some 64"
    "po_remove_ok owned_os x" "po_lock owned_os 0 = Some 5" for x y
    unfolding c by (simp_all add: owned_os_def empty_os_def)
  show "mk_pid_file_guard plain_env ''/run/s.pid'' 7 owned_os =
     (Inl (RuntimeError ''Another instance is already running (pidfile locked): /run/s.pid''),
      owned_os\<lparr>po_data := (po_data owned_os)(0 := [])\<rparr>)"
    using pidfile_guard_outcomes[OF sample_pidfile_path os(1,2,3) length_pid_text_7 os(4)] os(5) by simp
  show "\<exists>g os'. mk_pid_file_guard plain_env ''/run/s.pid'' 7 (owned_os\<lparr>po_lock := Map.empty\<rparr>) = (Inr g, os') \<and>
      po_data os' 0 = pid_text 7"
    using pidfile_guard_outcomes[OF sample_pidfile_path _ _ _ length_pid_text_7, of "owned_os\<lparr>po_lock := Map.empty\<rparr>" 0] os
    by auto
qed

text \<open>
  The lock is released before the name is removed. A daemon that starts between the two locks a
  file that is about to lose its name, and a third one then creates and locks another: two
  daemons run at once.
\<close>

lemma two_instances_after_exit:
  "\<exists>pcs os'. (inst_step ''/p'')\<^sup>*\<^sup>* (all_idle, empty_os) (pcs, os') \<and> pcs 2 = Running 0 \<and> pcs 3 = Running 1"
proof -
  define run where "run = (\<lambda>i me os. snd (pid_write i (pid_text me) (snd (pid_flock i me (snd (the (pid_open ''/p'' os)))))))"
  have start: "(inst_step ''/p'')\<^sup>*\<^sup>* (pcs, os) (pcs(me := Running i), run i me os)"
    if "pcs me = Idle" "pid_open ''/p'' os = Some (i, os1)" "po_lock os1 i = None" "po_accepts os1 i = Some 64" for pcs me os i os1
  proof -
    let ?os2 = "snd (pid_flock i me os1)"
    have l: "pid_flock i me os1 = (True, ?os2)" using that(3) by (simp add: pid_flock_def)
    have w: "pid_write i (pid_text me) ?os2 = (True, run i me os)"
      using that(2-4) by (simp add: run_def pid_write_def pid_flock_def)
    have "inst_step ''/p'' (pcs, os) (pcs(me := Opened i), os1)" using that(1,2) by (rule inst_step.open_ok)
    moreover have "inst_step ''/p'' (pcs(me := Opened i), os1) ((pcs(me := Opened i))(me := Locked i), ?os2)"
      using l by (intro inst_step.lock_ok) simp_all
    moreover have "inst_step ''/p'' (pcs(me := Locked i), ?os2) ((pcs(me := Locked i))(me := Running i), run i me os)"
      using w by (intro inst_step.write_ok) simp_all
    ultimately show ?thesis by (simp add: converse_rtranclp_into_rtranclp)
  qed
  define o1 o2 o3 where "o1 = run 0 1 empty_os" and "o2 = run 0 2 (pid_close 0 1 o1)" and "o3 = run 1 3 (pid_remove ''/p'' o2)"
  note os = o1_def o2_def o3_def run_def pid_syscalls empty_os_def
  define p1 p2 where "p1 = all_idle(1 := Running 0)" and "p2 = p1(1 := Closing, 2 := Running 0)"
  have r1: "(inst_step ''/p'')\<^sup>*\<^sup>* (all_idle, empty_os) (p1, o1)"
    unfolding p1_def o1_def by (rule start, simp, simp add: pid_open_def empty_os_def) simp_all
  have c1: "inst_step ''/p'' (p1, o1) (p1(1 := Closing), pid_close 0 1 o1)"
    by (rule inst_step.close) (simp add: p1_def)
  have r2: "(inst_step ''/p'')\<^sup>*\<^sup>* (p1(1 := Closing), pid_close 0 1 o1) (p2, o2)"
    unfolding p2_def o2_def by (rule start, simp add: p1_def, simp add: os) (simp_all add: os)
  have c2: "inst_step ''/p'' (p2, o2) (p2(1 := Gone), pid_remove ''/p'' o2)"
    by (rule inst_step.remove) (simp add: p2_def)
  have r3: "(inst_step ''/p'')\<^sup>*\<^sup>* (p2(1 := Gone), pid_remove ''/p'' o2) (p2(1 := Gone, 3 := Running 1), o3)"
    unfolding o3_def by (rule start, simp add: p1_def p2_def, simp add: os) (simp_all add: os)
  have "(inst_step ''/p'')\<^sup>*\<^sup>* (all_idle, empty_os) (p2, o2)"
    using r1 c1 r2 by (meson rtranclp.rtrancl_into_rtrancl rtranclp_trans)
  then have "(inst_step ''/p'')\<^sup>*\<^sup>* (all_idle, empty_os) (p2(1 := Gone, 3 := Running 1), o3)"
    using c2 r3 by (meson rtranclp.rtrancl_into_rtrancl rtranclp_trans)
  moreover have "(p2(1 := Gone, 3 := Running 1)) 2 = Running 0" by (simp add: p2_def)
  ultimately show ?thesis by (metis fun_upd_same)
qed

end
