(* ===== verification/Platform.thy ===== *)
theory Platform
  imports Prelude "HOL-Library.Word"
begin

text \<open>
  \<^verbatim>\<open>supervisor-lib/src/util/platform.cpp\<close>: the replacement for \<open>pipe2\<close> on systems
  that lack it. Descriptor flags are 32-bit words; the kernel keeps the one flag
  \<open>FD_CLOEXEC\<close> of what \<open>F_SETFD\<close> is given. The value of \<open>O_CLOEXEC\<close>, which callers
  pass, is chosen by the platform.
\<close>

unbundle bit_operations_syntax

type_synonym fd_flags = "nat \<Rightarrow> 32 word"

definition FD_CLOEXEC :: "32 word" where
  "FD_CLOEXEC = 1"

definition f_setfd :: "nat \<Rightarrow> 32 word \<Rightarrow> fd_flags \<Rightarrow> fd_flags" where
  "f_setfd fd arg t = t(fd := arg AND FD_CLOEXEC)"

text \<open>
  \<open>pipe\<close> gives two new descriptors without flags, or fails; its result is the first
  argument.
\<close>

definition pipe2_shim :: "(nat \<times> nat) option \<Rightarrow> 32 word \<Rightarrow> fd_flags \<Rightarrow> (nat \<times> nat) option \<times> fd_flags" where
  "pipe2_shim res flags t =
     (case res of
        None \<Rightarrow> (None, t)
      | Some (r, w) \<Rightarrow>
          let t = t(r := 0, w := 0);
              t = f_setfd r (t r OR flags) t;
              t = f_setfd w (t w OR flags) t
          in (Some (r, w), t))"

definition close_on_exec :: "nat \<Rightarrow> fd_flags \<Rightarrow> bool" where
  "close_on_exec fd t \<longleftrightarrow> bit (t fd) 0"

text \<open>
  The flags are passed on as they are, so both ends are closed on exec exactly when the lowest
  bit of the argument is set; the \<open>O_CLOEXEC\<close> of Linux and of macOS does not have it.
\<close>

lemma pipe2_shim_close_on_exec:
  assumes "pipe2_shim (Some (r, w)) flags t = (res, t')"
  shows "close_on_exec r t' = bit flags 0 \<and> close_on_exec w t' = bit flags 0"
  using assms
  by (cases "r = w") (auto simp: pipe2_shim_def f_setfd_def close_on_exec_def FD_CLOEXEC_def Let_def bit_simps)

lemma pipe2_shim_o_cloexec:
  "\<not> close_on_exec r (snd (pipe2_shim (Some (r, w)) 0x80000 t))"
  "\<not> close_on_exec r (snd (pipe2_shim (Some (r, w)) 0x1000000 t))"
proof -
  have "\<not> bit (0x80000 :: 32 word) 0" "\<not> bit (0x1000000 :: 32 word) 0" by simp_all
  then show "\<not> close_on_exec r (snd (pipe2_shim (Some (r, w)) 0x80000 t))"
    "\<not> close_on_exec r (snd (pipe2_shim (Some (r, w)) 0x1000000 t))"
    using pipe2_shim_close_on_exec[OF surjective_pairing, of r w] by blast+
qed

end
