(* ===== verification/Xml_Documents.thy ===== *)
theory Xml_Documents
  imports Property_Tree Util_String
begin

text \<open>
  XML documents as the daemon and the client exchange them: elements that hold either text or
  other elements with blanks between them. The text is what \<open>escape_xml\<close> makes of some string: no
  \<open>&\<close> stands in it but that of the five entities which it writes, so that nothing is said of numeric
  character references or of malformed ones. What both sides rely on of Boost.PropertyTree's XML
  reader (in its default mode) and of its access by path is the predicate \<open>xml_reader\<close>; a
  reader that can be executed is shown to have it.
\<close>

section \<open>Documents\<close>

text \<open>
  An element with text, as it is written with its entities, or with other elements; the blanks after the opening tag,
  before the closing tag and after the element are part of it.
\<close>

datatype xml =
  Leaf (tag: string) (raw_text: string) (after: string)
| Branch (tag: string) (inside: string) (parts: "xml list") (before_end: string) (after: string)

definition open_tag :: "string \<Rightarrow> string" where
  "open_tag n = ''<'' @ n @ ''>''"

definition close_tag :: "string \<Rightarrow> string" where
  "close_tag n = ''</'' @ n @ ''>''"

fun print_xml :: "xml \<Rightarrow> string" where
  "print_xml (Leaf n s a) = open_tag n @ s @ close_tag n @ a"
| "print_xml (Branch n i cs e a) = open_tag n @ i @ concat (map print_xml cs) @ e @ close_tag n @ a"

definition xml_declaration :: string where
  "xml_declaration = ''<?xml version='' @ [DQUOTE] @ ''1.0'' @ [DQUOTE] @ ''?>'' @ [NL]"

definition blanks :: "string \<Rightarrow> bool" where
  "blanks s \<longleftrightarrow> list_all (\<lambda>c. c \<in> {CHR '' '', TAB, NL, CR}) s"

definition name_ok :: "string \<Rightarrow> bool" where
  "name_ok n \<longleftrightarrow> n \<noteq> [] \<and> list_all isalnum n"

definition written_text :: "string \<Rightarrow> bool" where
  "written_text s \<longleftrightarrow> escape_xml (unescape_xml s) = s"

fun xml_wf :: "xml \<Rightarrow> bool" where
  "xml_wf (Leaf n s a) \<longleftrightarrow> name_ok n \<and> written_text s \<and> NUL \<notin> set s \<and> blanks a"
| "xml_wf (Branch n i cs e a) \<longleftrightarrow> name_ok n \<and> blanks i \<and> blanks e \<and> blanks a \<and> list_all xml_wf cs"

section \<open>What the reader promises\<close>

text \<open>
  The subtree for an element: its children are those of the element, in order, under their tags,
  and a text that is not all blanks is its data, with the entities replaced. Text that is
  all blanks may be kept or dropped.
\<close>

fun denotes :: "'pt ptree_api \<Rightarrow> 'pt \<Rightarrow> xml \<Rightarrow> bool"
  and denotes_all :: "'pt ptree_api \<Rightarrow> (string \<times> 'pt) list \<Rightarrow> xml list \<Rightarrow> bool" where
  "denotes api t (Leaf n s a) \<longleftrightarrow>
     children api t = [] \<and> (s = [] \<or> \<not> blanks s \<longrightarrow> get_str api t [] = Some (unescape_xml s))"
| "denotes api t (Branch n i cs e a) \<longleftrightarrow> denotes_all api (children api t) cs"
| "denotes_all api us [] \<longleftrightarrow> us = []"
| "denotes_all api us (c # cs) \<longleftrightarrow>
     (case us of [] \<Rightarrow> False | (k, u) # us \<Rightarrow> k = tag c \<and> denotes api u c \<and> denotes_all api us cs)"

definition reads_documents :: "'pt ptree_api \<Rightarrow> bool" where
  "reads_documents api \<longleftrightarrow>
     (\<forall>x. xml_wf x \<longrightarrow> (\<exists>t u. read_xml api (xml_declaration @ print_xml x) = Inr t \<and>
        children api t = [(tag x, u)] \<and> denotes api u x))"

text \<open>
  Access by path: components between dots, each naming a child (which one is open when several
  have that name); the empty path is the node itself. A number in the range of \<open>int\<close> reads
  back as it is printed.
\<close>

definition key_ok :: "string \<Rightarrow> bool" where
  "key_ok k \<longleftrightarrow> k \<noteq> [] \<and> CHR ''.'' \<notin> set k"

definition walks_paths :: "'pt ptree_api \<Rightarrow> bool" where
  "walks_paths api \<longleftrightarrow>
     (\<forall>t path. get_str api t path = Option.bind (get_child api t path) (\<lambda>u. get_str api u [])) \<and>
     (\<forall>t key. key_ok key \<longrightarrow> length (filter (\<lambda>e. fst e = key) (children api t)) \<le> 1 \<longrightarrow>
        get_child api t key = map_of (children api t) key) \<and>
     (\<forall>t key path. key_ok key \<longrightarrow> path \<noteq> [] \<longrightarrow>
        get_child api t (key @ ''.'' @ path) = Option.bind (get_child api t key) (\<lambda>u. get_child api u path)) \<and>
     (\<forall>t path i. get_str api t path = Some (show_int i) \<longrightarrow> - (2 ^ 31) \<le> i \<longrightarrow> i < 2 ^ 31 \<longrightarrow>
        get_int api t path = Some i)"

definition xml_reader :: "'pt ptree_api \<Rightarrow> bool" where
  "xml_reader api \<longleftrightarrow> reads_documents api \<and> walks_paths api"

lemma get_str_path: "xml_reader api \<Longrightarrow> get_str api t path = Option.bind (get_child api t path) (\<lambda>u. get_str api u [])"
  unfolding xml_reader_def walks_paths_def by blast

lemma get_child_key:
  "xml_reader api \<Longrightarrow> key_ok key \<Longrightarrow> length (filter (\<lambda>e. fst e = key) (children api t)) \<le> 1 \<Longrightarrow>
     get_child api t key = map_of (children api t) key"
  unfolding xml_reader_def walks_paths_def by blast

lemma get_child_path:
  "xml_reader api \<Longrightarrow> key_ok key \<Longrightarrow> path \<noteq> [] \<Longrightarrow>
     get_child api t (key @ ''.'' @ path) = Option.bind (get_child api t key) (\<lambda>u. get_child api u path)"
  unfolding xml_reader_def walks_paths_def by blast

lemma get_int_path:
  "xml_reader api \<Longrightarrow> get_str api t path = Some (show_int i) \<Longrightarrow> - (2 ^ 31) \<le> i \<Longrightarrow> i < 2 ^ 31 \<Longrightarrow> get_int api t path = Some i"
  unfolding xml_reader_def walks_paths_def by blast

lemma document_read:
  assumes "xml_reader api" "xml_wf x"
  obtains t u where "read_xml api (xml_declaration @ print_xml x) = Inr t" "children api t = [(tag x, u)]" "denotes api u x"
  using assms unfolding xml_reader_def reads_documents_def by blast

text \<open>The children of a branch, one after the other.\<close>

lemma denotes_all_simps [simp]:
  "denotes_all api us (c # cs) \<longleftrightarrow> (\<exists>u us'. us = (tag c, u) # us' \<and> denotes api u c \<and> denotes_all api us' cs)"
  by (auto split: list.splits)

declare denotes_all.simps(2) [simp del]

lemma denotes_all_keys: "denotes_all api us cs \<Longrightarrow> map fst us = map tag cs"
  by (induction cs arbitrary: us) auto

lemma denotes_all_nth: "denotes_all api us cs \<Longrightarrow> length us = length cs \<and> (\<forall>i<length cs. fst (us ! i) = tag (cs ! i) \<and> denotes api (snd (us ! i)) (cs ! i))"
  by (induction cs arbitrary: us) (auto simp: nth_Cons split: nat.splits)

section \<open>Text that survives\<close>

text \<open>Strings without null bytes that are not all blanks, unless empty.\<close>

definition plain_text :: "string \<Rightarrow> bool" where
  "plain_text s \<longleftrightarrow> NUL \<notin> set s \<and> (s = [] \<or> \<not> blanks s)"

lemma blanks_append [simp]: "blanks (s @ t) \<longleftrightarrow> blanks s \<and> blanks t"
  by (simp add: blanks_def)

lemma blanks_Nil [simp]: "blanks []"
  by (simp add: blanks_def)

lemma blanks_subst: "blanks (subst_char xml_needles c) \<longleftrightarrow> blanks [c]"
  by (auto simp: subst_char_def xml_needles_def blanks_def)

lemma blanks_escape: "blanks (escape_xml s) \<longleftrightarrow> blanks s"
proof (induction s)
  case (Cons c s)
  have "blanks (c # s) \<longleftrightarrow> blanks [c] \<and> blanks s" by (simp add: blanks_def)
  with Cons show ?case by (simp add: escape_xml_def blanks_subst)
qed (simp add: escape_xml_def)

lemma NUL_subst: "NUL \<in> set (subst_char xml_needles c) \<longleftrightarrow> c = NUL"
  by (auto simp: subst_char_def xml_needles_def)

lemma NUL_escape: "NUL \<in> set (escape_xml s) \<longleftrightarrow> NUL \<in> set s"
  by (induction s) (auto simp: escape_xml_def NUL_subst)

lemma escape_xml_empty: "escape_xml s = [] \<longleftrightarrow> s = []"
  by (cases s) (auto simp: escape_xml_def subst_char_def xml_needles_def)

lemma unescape_escape [simp]: "unescape_xml (escape_xml s) = s"
  using xml.dec_concat_all by (simp add: escape_xml_def escape_str_concat)

lemma written_escape [simp]: "written_text (escape_xml s)"
  by (simp add: written_text_def)

text \<open>These are exactly the texts that \<open>escape_xml\<close> writes.\<close>

lemma written_text_iff: "written_text s \<longleftrightarrow> s \<in> range escape_xml"
  by (metis rangeE rangeI unescape_escape written_text_def)

lemma written_no_markup: "written_text s \<Longrightarrow> CHR ''<'' \<notin> set s"
  using escape_xml_chars[of "unescape_xml s"] by (auto simp: written_text_def)

lemma escaped_wf: "plain_text s \<Longrightarrow> NUL \<notin> set (escape_xml s)"
  using NUL_escape[of s] by (simp add: plain_text_def)

lemma leaf_text: "plain_text s \<Longrightarrow> denotes api u (Leaf n (escape_xml s) a) \<Longrightarrow> get_str api u [] = Some s"
  by (auto simp: plain_text_def blanks_escape escape_xml_empty)

text \<open>Numbers are printed without markup.\<close>

lemma unescape_plain: "CHR ''&'' \<notin> set s \<Longrightarrow> unescape_xml s = s"
  by (induction s) auto

lemma show_int_chars: "c \<in> set (show_int i) \<Longrightarrow> isdigit c \<or> c = CHR ''-''"
  using show_nat_digits by (auto simp: show_int_def split: if_splits)

lemma escape_plain: "\<forall>c\<in>set s. map_of xml_needles c = None \<Longrightarrow> escape_xml s = s"
  by (induction s) (auto simp: escape_xml_def subst_char_def)

lemma show_int_text: "written_text (show_int i)" "NUL \<notin> set (show_int i)" "unescape_xml (show_int i) = show_int i"
  "\<not> blanks (show_int i)"
proof -
  show u: "NUL \<notin> set (show_int i)" "unescape_xml (show_int i) = show_int i"
    using show_int_chars[of NUL i] show_int_chars[of "CHR ''&''" i]
    by (auto intro!: unescape_plain simp: charclass)
  have "map_of xml_needles c = None" if "c \<in> set (show_int i)" for c
    using show_int_chars[OF that] by (auto simp: xml_needles_def charclass)
  then show "written_text (show_int i)" by (simp add: written_text_def u escape_plain)
  have "show_int i \<noteq> []" by (simp add: show_int_def)
  then obtain c cs where "show_int i = c # cs" by (meson neq_Nil_conv)
  moreover have "\<not> blanks (c # cs)" if "isdigit c \<or> c = CHR ''-''" for cs using that by (auto simp: blanks_def charclass)
  ultimately show "\<not> blanks (show_int i)" using show_int_chars[of c i] by auto
qed

lemma leaf_int: "denotes api u (Leaf n (show_int i) a) \<Longrightarrow> get_str api u [] = Some (show_int i)"
  by (simp add: show_int_text)

section \<open>A reader\<close>

text \<open>Markup and text in order; then a stack of open elements, each with its text and children so far.\<close>

datatype token = OpenTag string | CloseTag string | Chars string

function tokens :: "string \<Rightarrow> token list" where
  "tokens [] = []"
| "tokens (c # cs) =
     (if c = CHR ''<''
      then let n = takeWhile (\<lambda>x. x \<noteq> CHR ''>'') cs
           in (if n \<noteq> [] \<and> hd n = CHR ''/'' then CloseTag (tl n) else OpenTag n) # tokens (drop (Suc (length n)) cs)
      else let s = takeWhile (\<lambda>x. x \<noteq> CHR ''<'') (c # cs)
           in Chars s # tokens (drop (length s) (c # cs)))"
  by pat_completeness auto
termination
proof (relation "measure length")
  fix c :: char and cs x s
  assume "c \<noteq> CHR ''<''" "s = takeWhile (\<lambda>x. x \<noteq> CHR ''<'') (c # cs)"
  then show "(drop (length s) (c # cs), c # cs) \<in> measure length" by simp
qed auto

declare tokens.simps(2) [simp del]

type_synonym frame = "string \<times> string \<times> (string \<times> ptree) list"

fun build_tree :: "token list \<Rightarrow> frame list \<Rightarrow> ptree res" where
  "build_tree [] [(n, d, us)] = Inr (Node d us)"
| "build_tree (OpenTag n # ts) st =
     (if n \<noteq> [] \<and> hd n = CHR ''?'' then build_tree ts st else build_tree ts ((n, [], []) # st))"
| "build_tree (Chars s # ts) ((n, d, us) # st) =
     build_tree ts ((n, d @ (if blanks s then [] else unescape_xml s), us) # st)"
| "build_tree (CloseTag m # ts) ((n, d, us) # (n', d', us') # st) =
     (if m = n then build_tree ts ((n', d', us' @ [(n, Node d us)]) # st) else Inl (RuntimeError ''expected closing tag''))"
| "build_tree ts st = Inl (RuntimeError ''unexpected end of data'')"

fun split_dots :: "string \<Rightarrow> string list" where
  "split_dots [] = [[]]"
| "split_dots (c # cs) = (if c = CHR ''.'' then [] # split_dots cs else (c # hd (split_dots cs)) # tl (split_dots cs))"

fun walk :: "ptree \<Rightarrow> string list \<Rightarrow> ptree option" where
  "walk t [] = Some t"
| "walk t (k # ks) = Option.bind (map_of (node_children t) k) (\<lambda>u. walk u ks)"

definition walk_path :: "ptree \<Rightarrow> string \<Rightarrow> ptree option" where
  "walk_path t path = (if path = [] then Some t else walk t (split_dots path))"

definition tree_api :: "ptree ptree_api" where
  "tree_api =
     \<lparr>read_xml = (\<lambda>s. build_tree (tokens s) [([], [], [])]), read_ini = (\<lambda>_. Inl (RuntimeError ''ini'')),
      get_str = (\<lambda>t path. map_option node_data (walk_path t path)),
      get_int = (\<lambda>t path. Option.bind (walk_path t path) (\<lambda>u. from_chars_int (node_data u))),
      get_child = walk_path, children = node_children\<rparr>"

lemma split_dots_key: "CHR ''.'' \<notin> set k \<Longrightarrow> split_dots k = [k]"
  by (induction k) auto

lemma split_dots_path: "CHR ''.'' \<notin> set k \<Longrightarrow> split_dots (k @ ''.'' @ path) = k # split_dots path"
  by (induction k) auto

lemma from_chars_show_int:
  assumes "- (2 ^ 31) \<le> i" "i < 2 ^ 31"
  shows "from_chars_int (show_int i) = Some i"
proof -
  have h: "hd (show_nat n) \<noteq> CHR ''-''" for n
  proof -
    have "isdigit (hd (show_nat n))" using show_nat_digits[of n] hd_in_set[OF show_nat_nonempty[of n]] by simp
    then show ?thesis using isdigit_not_sign by simp
  qed
  have "\<forall>c\<in>set (show_nat n). isdigit c" for n by (rule show_nat_digits)
  with assms h show ?thesis by (cases "i < 0") (simp_all add: from_chars_int_def show_int_def Let_def)
qed

lemma tree_api_walks: "walks_paths tree_api"
  unfolding walks_paths_def
proof (intro conjI allI impI)
  fix t path
  show "get_str tree_api t path = Option.bind (get_child tree_api t path) (\<lambda>u. get_str tree_api u [])"
    by (cases "walk_path t path") (simp_all add: tree_api_def walk_path_def)
next
  fix t key
  assume "key_ok key"
  then show "get_child tree_api t key = map_of (children tree_api t) key"
    by (simp add: tree_api_def walk_path_def key_ok_def split_dots_key)
next
  fix t key path
  assume "key_ok key" "path \<noteq> ([] :: string)"
  then show "get_child tree_api t (key @ ''.'' @ path) =
      Option.bind (get_child tree_api t key) (\<lambda>u. get_child tree_api u path)"
    using split_dots_path[of key path] by (cases "map_of (node_children t) key")
      (simp_all add: tree_api_def walk_path_def key_ok_def split_dots_key)
next
  fix t path and i :: int
  assume "get_str tree_api t path = Some (show_int i)" "- (2 ^ 31) \<le> i" "i < 2 ^ 31"
  then show "get_int tree_api t path = Some i"
    by (auto simp: tree_api_def from_chars_show_int)
qed

section \<open>The reader reads documents\<close>

text \<open>The tree of an element.\<close>

fun tree_of :: "xml \<Rightarrow> ptree" where
  "tree_of (Leaf n s a) = Node (if blanks s then [] else unescape_xml s) []"
| "tree_of (Branch n i cs e a) = Node [] (map (\<lambda>c. (tag c, tree_of c)) cs)"

lemma tokens_open: "name_ok n \<Longrightarrow> tokens (open_tag n @ r) = OpenTag n # tokens r"
proof -
  assume "name_ok n"
  then have "\<forall>c\<in>set n. c \<noteq> CHR ''>''" "n \<noteq> [] \<and> hd n \<noteq> CHR ''/''"
    by (cases n; auto simp: name_ok_def charclass list_all_iff)+
  then show ?thesis by (simp add: open_tag_def tokens.simps(2) takeWhile_append2)
qed

lemma tokens_close: "name_ok n \<Longrightarrow> tokens (close_tag n @ r) = CloseTag n # tokens r"
proof -
  assume "name_ok n"
  then have "\<forall>c\<in>set n. c \<noteq> CHR ''>''" by (auto simp: name_ok_def charclass list_all_iff)
  then show ?thesis by (simp add: close_tag_def tokens.simps(2) takeWhile_append2)
qed

lemma tokens_chars:
  assumes "CHR ''<'' \<notin> set s" "s \<noteq> []" "r = [] \<or> hd r = CHR ''<''"
  shows "tokens (s @ r) = Chars s # tokens r"
proof -
  have "takeWhile (\<lambda>x. x \<noteq> CHR ''<'') (s @ r) = s"
    using assms(1,3) by (induction s; cases r) auto
  with assms(1,2) show ?thesis by (cases s) (auto simp: tokens.simps(2) Let_def)
qed

lemma open_not_question: "name_ok n \<Longrightarrow> hd n \<noteq> CHR ''?''"
  by (cases n) (auto simp: name_ok_def charclass)

text \<open>What may follow an element: blanks, and then markup or the end.\<close>

definition markup :: "string \<Rightarrow> bool" where
  "markup r \<longleftrightarrow> (\<exists>w m. r = w @ m \<and> blanks w \<and> (m = [] \<or> hd m = CHR ''<''))"

lemma markup_tags: "markup []" "markup (open_tag n @ r)" "markup (close_tag n @ r)"
proof -
  show "markup []" unfolding markup_def by (intro exI[of _ "[]"]) simp
  show "markup (open_tag n @ r)" unfolding markup_def by (intro exI[of _ "[]"] exI[of _ "open_tag n @ r"]) (simp add: open_tag_def)
  show "markup (close_tag n @ r)" unfolding markup_def by (intro exI[of _ "[]"] exI[of _ "close_tag n @ r"]) (simp add: close_tag_def)
qed

lemma markup_blanks: "blanks w \<Longrightarrow> markup r \<Longrightarrow> markup (w @ r)"
  unfolding markup_def
proof (elim exE conjE)
  fix v m
  assume "blanks w" "r = v @ m" "blanks v" "m = [] \<or> hd m = CHR ''<''"
  then show "\<exists>w' m'. w @ r = w' @ m' \<and> blanks w' \<and> (m' = [] \<or> hd m' = CHR ''<'')"
    by (intro exI[of _ "w @ v"] exI[of _ m]) simp
qed

lemma blanks_no_markup: "blanks w \<Longrightarrow> CHR ''<'' \<notin> set w"
  unfolding blanks_def list_all_iff by (rule notI, drule (1) bspec, simp)

lemma build_blank_chars:
  "blanks w \<Longrightarrow> m = [] \<or> hd m = CHR ''<'' \<Longrightarrow> build_tree (tokens (w @ m)) (f # st) = build_tree (tokens m) (f # st)"
  by (cases f, cases "w = []") (simp_all add: tokens_chars blanks_no_markup)

lemma build_blanks:
  assumes "blanks w" "markup r"
  shows "build_tree (tokens (w @ r)) (f # st) = build_tree (tokens r) (f # st)"
proof -
  obtain v m where r: "r = v @ m" "blanks v" "m = [] \<or> hd m = CHR ''<''" using assms(2) by (auto simp: markup_def)
  with assms(1) build_blank_chars[of "w @ v" m f st] build_blank_chars[of v m f st] show ?thesis by simp
qed

lemma print_markup: "markup (print_xml x @ r)"
  by (cases x) (simp_all add: markup_tags)

lemma parts_markup: "markup r \<Longrightarrow> markup (concat (map print_xml cs) @ r)"
  by (cases cs) (simp_all add: print_markup)

lemma build_element:
  "xml_wf x \<Longrightarrow> markup r \<Longrightarrow> build_tree (tokens (print_xml x @ r)) ((n, d, us) # st) =
     build_tree (tokens r) ((n, d, us @ [(tag x, tree_of x)]) # st)"
proof (induction x arbitrary: r n d us st)
  case (Leaf k s a)
  then have k: "name_ok k" "hd k \<noteq> CHR ''?''" "CHR ''<'' \<notin> set s" using open_not_question written_no_markup by auto
  have "build_tree (tokens (s @ close_tag k @ a @ r)) ((k, [], []) # (n, d, us) # st) =
      build_tree (tokens (close_tag k @ a @ r)) ((k, if blanks s then [] else unescape_xml s, []) # (n, d, us) # st)"
  proof (cases "s = []")
    case False
    have "tokens (s @ close_tag k @ a @ r) = Chars s # tokens (close_tag k @ a @ r)"
      using k(3) False by (intro tokens_chars) (auto simp: close_tag_def)
    then show ?thesis by simp
  qed simp
  with k(1,2) Leaf.prems show ?case by (simp add: tokens_open tokens_close build_blanks)
next
  case (Branch k i cs e a)
  then have k: "name_ok k" "hd k \<noteq> CHR ''?''" using open_not_question by auto
  have parts: "build_tree (tokens (concat (map print_xml cs) @ q)) ((m, d', vs) # st') =
      build_tree (tokens q) ((m, d', vs @ map (\<lambda>c. (tag c, tree_of c)) cs) # st')"
    if "markup q" for q m d' vs st'
    using Branch.IH Branch.prems(1)
  proof (induction cs arbitrary: vs)
    case (Cons c cs)
    have "markup (concat (map print_xml cs) @ q)" using that by (rule parts_markup)
    moreover have "build_tree (tokens (concat (map print_xml cs) @ q)) ((m, d', ws) # st') =
      build_tree (tokens q) ((m, d', ws @ map (\<lambda>c. (tag c, tree_of c)) cs) # st')" for ws
      using Cons.prems by (intro Cons.IH) auto
    ultimately show ?case using Cons.prems(1)[of c] Cons.prems(2) by simp
  qed simp
  have m: "markup (e @ close_tag k @ a @ r)" "markup (close_tag k @ a @ r)"
    using Branch.prems by (auto intro: markup_blanks markup_tags)
  show ?case
    using k Branch.prems
    by (simp add: tokens_open tokens_close build_blanks parts m parts_markup)
qed

lemma tree_of_denotes: "denotes tree_api (tree_of x) x"
proof (induction x)
  case (Branch n i cs e a)
  have "denotes_all tree_api (map (\<lambda>c. (tag c, tree_of c)) cs) cs" using Branch.IH by (induction cs) auto
  then show ?case by (simp add: tree_api_def)
qed (auto simp: tree_api_def walk_path_def)

lemma tree_api_reads: "reads_documents tree_api"
  unfolding reads_documents_def
proof (intro allI impI)
  fix x
  assume wf: "xml_wf x"
  have "tokens (xml_declaration @ print_xml x) = OpenTag (''?xml version='' @ [DQUOTE] @ ''1.0'' @ [DQUOTE] @ ''?'') # tokens ([NL] @ print_xml x)"
    by (simp add: xml_declaration_def tokens.simps(2))
  moreover have "build_tree (tokens ([NL] @ print_xml x)) [([], [], [])] = build_tree (tokens (print_xml x)) [([], [], [])]"
    using build_blanks[of "[NL]" "print_xml x"] print_markup[of x "[]"] by (simp add: blanks_def)
  ultimately have "read_xml tree_api (xml_declaration @ print_xml x) = Inr (Node [] [(tag x, tree_of x)])"
    using build_element[OF wf markup_tags(1), of "[]" "[]" "[]" "[]"] by (simp add: tree_api_def)
  then show "\<exists>t u. read_xml tree_api (xml_declaration @ print_xml x) = Inr t \<and> children tree_api t = [(tag x, u)] \<and> denotes tree_api u x"
    using tree_of_denotes[of x] by (auto simp: tree_api_def)
qed

lemma tree_api_reader: "xml_reader tree_api"
  by (simp add: xml_reader_def tree_api_reads tree_api_walks)

end
