(* ===== verification/Rpc_Documents.thy ===== *)
theory Rpc_Documents
  imports Supervisord Supervisorctl Xml_Documents
begin

text \<open>
  The texts that client and daemon print for each other are documents of
  \<^verbatim>\<open>Xml_Documents\<close>, so that each side reads what the other wrote: the call, the result,
  the fault, the information about processes.
\<close>

section \<open>The documents that are exchanged\<close>

definition around :: "string \<Rightarrow> xml \<Rightarrow> xml" where
  "around n x = Branch n [] [x] [] []"

fun value_xml :: "Value \<Rightarrow> xml" where
  "value_xml (VString s) = Leaf ''string'' (escape_xml s) []"
| "value_xml (VInt i) = Leaf ''int'' (show_int i) []"
| "value_xml (VBool b) = Leaf ''boolean'' (if b then ''1'' else ''0'') []"

definition member_xml :: "Member \<Rightarrow> xml" where
  "member_xml m = Branch ''member'' [] [Leaf ''name'' (escape_xml (member_name m)) [], around ''value'' (value_xml (member_value m))] [] []"

definition struct_xml :: "Member list \<Rightarrow> xml" where
  "struct_xml ms = Branch ''struct'' [] (map member_xml ms) [] []"

definition param_xml :: "string \<Rightarrow> xml" where
  "param_xml p = around ''param'' (around ''value'' (value_xml (VString p)))"

definition request_xml :: "string \<Rightarrow> string list \<Rightarrow> xml" where
  "request_xml m ps =
     Branch ''methodCall'' ([NL] @ ''  '')
       [Leaf ''methodName'' (escape_xml m) ([NL] @ ''  ''), Branch ''params'' [] (map param_xml ps) ''  '' [NL]] [] [NL]"

definition response_xml :: "xml \<Rightarrow> xml" where
  "response_xml x =
     Branch ''methodResponse'' ([NL] @ ''  '')
       [Branch ''params'' ([NL] @ ''    '') [Branch ''param'' [] [around ''value'' x] [] ([NL] @ ''  '')] [] [NL]] [] [NL]"

definition fault_xml :: "int \<Rightarrow> string \<Rightarrow> xml" where
  "fault_xml code message =
     Branch ''methodResponse'' ([NL] @ ''  '')
       [Branch ''fault'' ([NL] @ ''    '')
          [Branch ''value'' [] [struct_xml [Member ''faultCode'' (VInt code), Member ''faultString'' (VString message)]] []
             ([NL] @ ''  '')] [] [NL]] [] [NL]"

definition info_xml :: "ProcessInfo \<Rightarrow> xml" where
  "info_xml i = struct_xml (process_info_members i)"

definition infos_xml :: "ProcessInfo list \<Rightarrow> xml" where
  "infos_xml is = around ''array'' (Branch ''data'' [] (map (\<lambda>i. around ''value'' (info_xml i)) is) [] [])"

lemmas xml_tags = open_tag_def close_tag_def

lemma print_value: "print_xml (value_xml v) = show_value v"
  by (cases v) (simp_all add: xml_tags)

lemma print_struct: "print_xml (struct_xml ms) = show_struct ms"
proof -
  have "print_xml (member_xml m) = show_member m" for m
    by (simp add: member_xml_def show_member_def around_def print_value xml_tags)
  then show ?thesis by (simp add: struct_xml_def show_struct_def xml_tags comp_def)
qed

lemma print_request: "xml_declaration @ print_xml (request_xml m ps) = build_xmlrpc_request m ps"
  by (simp add: request_xml_def build_xmlrpc_request_def xml_declaration_def param_xml_def around_def xml_tags comp_def)

lemma print_response: "xml_declaration @ print_xml (response_xml x) = generate_xmlrpc_response (print_xml x)"
  by (simp add: response_xml_def generate_xmlrpc_response_def xml_declaration_def around_def xml_tags)

lemma print_fault: "xml_declaration @ print_xml (fault_xml code m) = generate_xmlrpc_fault code m"
  by (simp add: fault_xml_def generate_xmlrpc_fault_def xml_declaration_def print_struct xml_tags)

lemma print_info: "print_xml (info_xml i) = show_process_info i" "print_xml (infos_xml is) = show_process_infos is"
  by (simp_all add: info_xml_def infos_xml_def show_process_info_def show_process_infos_def print_struct around_def xml_tags comp_def)

lemma document_tag: "tag (request_xml m ps) = ''methodCall''" "tag (response_xml x) = ''methodResponse''"
  "tag (fault_xml code m) = ''methodResponse''"
  by (simp_all add: request_xml_def response_xml_def fault_xml_def)

section \<open>They are well formed\<close>

fun value_plain :: "Value \<Rightarrow> bool" where
  "value_plain (VString s) \<longleftrightarrow> plain_text s"
| "value_plain (VInt i) \<longleftrightarrow> - (2 ^ 31) \<le> i \<and> i < 2 ^ 31"
| "value_plain (VBool b) \<longleftrightarrow> True"

definition member_plain :: "Member \<Rightarrow> bool" where
  "member_plain m \<longleftrightarrow> plain_text (member_name m) \<and> value_plain (member_value m)"

lemma session_names:
  "name_ok ''string''" "name_ok ''int''" "name_ok ''boolean''" "name_ok ''name''" "name_ok ''value''" "name_ok ''member''"
  "name_ok ''struct''" "name_ok ''param''" "name_ok ''params''" "name_ok ''methodName''" "name_ok ''methodCall''"
  "name_ok ''methodResponse''" "name_ok ''fault''" "name_ok ''array''" "name_ok ''data''"
  by (simp_all add: name_ok_def charclass)

lemma layout_blanks: "blanks ''  ''" "blanks [NL]" "blanks [NL, CHR '' '', CHR '' '']"
  "blanks [NL, CHR '' '', CHR '' '', CHR '' '', CHR '' '']"
  by (simp_all add: blanks_def)

lemma digit_text: "written_text ''0''" "written_text ''1''"
  by (simp_all add: written_text_def escape_plain xml_needles_def)

lemma value_wf: "value_plain v \<Longrightarrow> xml_wf (value_xml v)"
  using escaped_wf by (cases v) (auto simp: session_names show_int_text digit_text)

lemma struct_wf: "list_all member_plain ms \<Longrightarrow> xml_wf (struct_xml ms)"
  using escaped_wf by (auto simp: struct_xml_def member_xml_def around_def member_plain_def session_names value_wf list_all_iff)

lemma request_wf: "plain_text m \<Longrightarrow> list_all plain_text ps \<Longrightarrow> xml_wf (request_xml m ps)"
  using escaped_wf
  by (auto simp: request_xml_def param_xml_def around_def session_names layout_blanks list_all_iff)

lemma response_wf: "xml_wf x \<Longrightarrow> xml_wf (response_xml x)"
  by (simp add: response_xml_def around_def session_names layout_blanks)

lemma fault_wf: "plain_text m \<Longrightarrow> - (2 ^ 31) \<le> code \<Longrightarrow> code < 2 ^ 31 \<Longrightarrow> xml_wf (fault_xml code m)"
  by (simp add: fault_xml_def session_names layout_blanks struct_wf member_plain_def plain_text_def blanks_def)

section \<open>Reading them by path\<close>

lemma session_paths:
  assumes "xml_reader api"
  shows "get_child api t ''methodCall.methodName'' = Option.bind (get_child api t ''methodCall'') (\<lambda>u. get_child api u ''methodName'')"
    "get_child api t ''methodCall.params'' = Option.bind (get_child api t ''methodCall'') (\<lambda>u. get_child api u ''params'')"
    "get_child api t ''value.string'' = Option.bind (get_child api t ''value'') (\<lambda>u. get_child api u ''string'')"
    "get_child api t ''value.int'' = Option.bind (get_child api t ''value'') (\<lambda>u. get_child api u ''int'')"
    "get_child api t ''array.data'' = Option.bind (get_child api t ''array'') (\<lambda>u. get_child api u ''data'')"
  using get_child_path[OF assms, of "''methodCall''" "''methodName''" t] get_child_path[OF assms, of "''methodCall''" "''params''" t]
    get_child_path[OF assms, of "''value''" "''string''" t] get_child_path[OF assms, of "''value''" "''int''" t]
    get_child_path[OF assms, of "''array''" "''data''" t]
  by (simp_all add: key_ok_def)

lemma response_paths:
  assumes "xml_reader api"
  shows "get_child api t ''methodResponse.params.param.value'' =
      Option.bind (get_child api t ''methodResponse'') (\<lambda>u. Option.bind (get_child api u ''params'')
        (\<lambda>u. Option.bind (get_child api u ''param'') (\<lambda>u. get_child api u ''value'')))"
    and "get_child api t ''methodResponse.fault.value.struct'' =
      Option.bind (get_child api t ''methodResponse'') (\<lambda>u. Option.bind (get_child api u ''fault'')
        (\<lambda>u. Option.bind (get_child api u ''value'') (\<lambda>u. get_child api u ''struct'')))"
proof -
  have step: "get_child api t (k @ ''.'' @ p) = Option.bind (get_child api t k) (\<lambda>u. get_child api u p)"
    if "k \<in> {''methodResponse'', ''params'', ''param'', ''fault'', ''value''}" "p \<noteq> []" for t k p
    using that by (intro get_child_path[OF assms]) (auto simp: key_ok_def)
  show "get_child api t ''methodResponse.params.param.value'' =
      Option.bind (get_child api t ''methodResponse'') (\<lambda>u. Option.bind (get_child api u ''params'')
        (\<lambda>u. Option.bind (get_child api u ''param'') (\<lambda>u. get_child api u ''value'')))"
    using step[of "''methodResponse''" "''params.param.value''" t] step[of "''params''" "''param.value''"]
      step[of "''param''" "''value''"] by simp
  show "get_child api t ''methodResponse.fault.value.struct'' =
      Option.bind (get_child api t ''methodResponse'') (\<lambda>u. Option.bind (get_child api u ''fault'')
        (\<lambda>u. Option.bind (get_child api u ''value'') (\<lambda>u. get_child api u ''struct'')))"
    using step[of "''methodResponse''" "''fault.value.struct''" t] step[of "''fault''" "''value.struct''"]
      step[of "''value''" "''struct''"] by simp
qed

lemma get_named:
  assumes "xml_reader api" "children api t = us" "name_ok k" "length (filter (\<lambda>e. fst e = k) us) \<le> 1"
  shows "get_child api t k = map_of us k"
proof -
  have "key_ok k" using assms(3) by (auto simp: name_ok_def key_ok_def list_all_iff charclass)
  with assms get_child_key show ?thesis by metis
qed

text \<open>A value inside its element.\<close>

lemma around_denotes: "denotes api t (around n x) \<longleftrightarrow> (\<exists>u. children api t = [(tag x, u)] \<and> denotes api u x)"
  by (auto simp: around_def)

lemma value_tag: "tag (around n x) = n" "tag (value_xml (VString s)) = ''string''" "tag (value_xml (VInt i)) = ''int''"
  "tag (value_xml (VBool b)) = ''boolean''" "tag (member_xml m) = ''member''" "tag (struct_xml ms) = ''struct''" "tag (info_xml info) = ''struct''"
  "tag (infos_xml is) = ''array''" "tag (param_xml p) = ''param''"
  by (simp_all add: around_def member_xml_def struct_xml_def info_xml_def infos_xml_def param_xml_def)

text \<open>A node with an element \<open>value\<close> that holds one value.\<close>

definition has_value :: "'pt ptree_api \<Rightarrow> 'pt \<Rightarrow> Value \<Rightarrow> bool" where
  "has_value api t v \<longleftrightarrow> (\<exists>u w. get_child api t ''value'' = Some u \<and> children api u = [(tag (value_xml v), w)] \<and> denotes api w (value_xml v))"

lemma value_string:
  assumes "xml_reader api" "has_value api t (VString s)" "plain_text s"
  shows "get_str api t ''value.string'' = Some s"
proof -
  obtain u w where u: "get_child api t ''value'' = Some u" "children api u = [(''string'', w)]"
    "denotes api w (Leaf ''string'' (escape_xml s) [])" using assms(2) by (auto simp: has_value_def value_tag)
  from get_named[OF assms(1) u(2) session_names(1)] leaf_text[OF assms(3) u(3)] u(1) show ?thesis
    by (simp add: get_str_path[OF assms(1), of t "''value.string''"] session_paths[OF assms(1)])
qed

lemma value_int:
  assumes "xml_reader api" "has_value api t (VInt i)" "- (2 ^ 31) \<le> i" "i < 2 ^ 31"
  shows "get_int api t ''value.int'' = Some i"
proof -
  obtain u w where u: "get_child api t ''value'' = Some u" "children api u = [(''int'', w)]"
    "denotes api w (Leaf ''int'' (show_int i) [])" using assms(2) by (auto simp: has_value_def value_tag)
  from get_named[OF assms(1) u(2) session_names(2)] leaf_int[OF u(3)] u(1)
  have "get_str api t ''value.int'' = Some (show_int i)"
    by (simp add: get_str_path[OF assms(1), of t "''value.int''"] session_paths[OF assms(1)])
  then show ?thesis using get_int_path[OF assms(1)] assms(3,4) by blast
qed

lemma member_read:
  assumes "xml_reader api" "denotes api t (member_xml m)" "member_plain m"
  shows "get_str api t ''name'' = Some (member_name m)" "has_value api t (member_value m)"
proof -
  obtain a b where c: "children api t = [(''name'', a), (''value'', b)]"
    "denotes api a (Leaf ''name'' (escape_xml (member_name m)) [])" "denotes api b (around ''value'' (value_xml (member_value m)))"
    using assms(2) by (auto simp: member_xml_def value_tag)
  show "get_str api t ''name'' = Some (member_name m)"
    using get_named[OF assms(1) c(1) session_names(4)] leaf_text[OF _ c(2)] assms(3)
    by (simp add: get_str_path[OF assms(1), of t "''name''"] member_plain_def)
  show "has_value api t (member_value m)"
    using get_named[OF assms(1) c(1) session_names(5)] c(3) by (auto simp: has_value_def around_denotes)
qed

section \<open>A call is understood\<close>

lemma params_read:
  assumes "xml_reader api" "denotes_all api us (map param_xml ps)" "list_all plain_text ps"
  shows "concat (map (\<lambda>(k, t). if k = ''param'' then param_value api t else []) us) = ps"
  using assms(2,3)
proof (induction ps arbitrary: us)
  case (Cons p ps)
  then obtain u vs where us: "us = (''param'', u) # vs" "denotes api u (param_xml p)" "denotes_all api vs (map param_xml ps)"
    by (auto simp: value_tag)
  obtain v where v: "children api u = [(''value'', v)]" "denotes api v (around ''value'' (value_xml (VString p)))"
    using us(2) unfolding param_xml_def around_denotes by (auto simp: value_tag)
  have "has_value api u (VString p)"
    using get_named[OF assms(1) v(1) session_names(5)] v(2) by (auto simp: has_value_def around_denotes)
  from value_string[OF assms(1) this] Cons.prems(2) have "param_value api u = [p]" by (simp add: param_value_def)
  with Cons.IH[OF us(3)] Cons.prems(2) us(1) show ?case by simp
qed simp

lemma request_parsed:
  assumes "xml_reader api" "plain_text m" "list_all plain_text ps"
  shows "parse_xmlrpc_request api (build_xmlrpc_request m ps) = Inr (m, ps)"
proof -
  obtain t u where t: "read_xml api (build_xmlrpc_request m ps) = Inr t" "children api t = [(''methodCall'', u)]"
    "denotes api u (request_xml m ps)"
    using document_read[OF assms(1) request_wf[OF assms(2,3)], unfolded print_request document_tag] by blast
  obtain a b where c: "children api u = [(''methodName'', a), (''params'', b)]" "denotes api a (Leaf ''methodName'' (escape_xml m) ([NL] @ ''  ''))"
    "denotes_all api (children api b) (map param_xml ps)"
    using t(3) by (auto simp: request_xml_def)
  have u: "get_child api t ''methodCall'' = Some u"
    using get_named[OF assms(1) t(2) session_names(11)] by simp
  have "get_str api t ''methodCall.methodName'' = Some m"
    using get_named[OF assms(1) c(1) session_names(10)] leaf_text[OF assms(2) c(2)] u
    by (simp add: get_str_path[OF assms(1), of t "''methodCall.methodName''"] session_paths[OF assms(1)])
  moreover have "get_child api t ''methodCall.params'' = Some b"
    using get_named[OF assms(1) c(1) session_names(9)] u by (simp add: session_paths[OF assms(1)])
  ultimately show ?thesis
    using t(1) params_read[OF assms(1) c(3) assms(3)] by (simp add: parse_xmlrpc_request_def parse_params_def)
qed

text \<open>
  C23: A call is understood as it was meant: the XML that the client writes for a method and its
  parameters is parsed by the server to that method and exactly those parameters, for any strings
  without null bytes that do not consist of blanks only, whatever markup characters they contain. Of the XML
  reader only this is used: it reads back documents whose texts are what \<open>escape_xml\<close> writes.
\<close>

theorem request_understood:
  assumes "xml_reader api" "plain_text m" "list_all plain_text ps"
  shows "parse_xmlrpc_request api (build_xmlrpc_request m ps) = Inr (m, ps)"
  using assms by (rule request_parsed)

theorem request_understood_witness:
  "parse_xmlrpc_request tree_api (build_xmlrpc_request ''supervisor.stopProcess'' [''a<b & c'']) =
     Inr (''supervisor.stopProcess'', [''a<b & c''])"
  by (rule request_understood[OF tree_api_reader]) (simp_all add: plain_text_def blanks_def)

section \<open>An answer is understood\<close>

lemma response_read:
  assumes "xml_reader api" "xml_wf x"
  obtains t v u where "read_xml api (generate_xmlrpc_response (print_xml x)) = Inr t" "check_fault api t = Inr ()"
    "get_child api t ''methodResponse.params.param.value'' = Some v" "children api v = [(tag x, u)]" "denotes api u x"
proof -
  obtain t a where t: "read_xml api (generate_xmlrpc_response (print_xml x)) = Inr t" "children api t = [(''methodResponse'', a)]"
    "denotes api a (response_xml x)"
    using document_read[OF assms(1) response_wf[OF assms(2)], unfolded print_response document_tag] by blast
  obtain b where b: "children api a = [(''params'', b)]"
    "denotes api b (Branch ''params'' ([NL] @ ''    '') [Branch ''param'' [] [around ''value'' x] [] ([NL] @ ''  '')] [] [NL])"
    using t(3) by (auto simp: response_xml_def)
  obtain c where c: "children api b = [(''param'', c)]" "denotes api c (Branch ''param'' [] [around ''value'' x] [] ([NL] @ ''  ''))"
    using b(2) by auto
  obtain v where v: "children api c = [(''value'', v)]" "denotes api v (around ''value'' x)" using c(2) by (auto simp: value_tag)
  obtain u where u: "children api v = [(tag x, u)]" "denotes api u x" using v(2) by (auto simp: around_denotes)
  note named = get_named[OF assms(1)]
  have "check_fault api t = Inr ()"
    using named[OF t(2) session_names(12)] named[OF b(1) session_names(13)]
    by (simp add: check_fault_def response_paths[OF assms(1)])
  moreover have "get_child api t ''methodResponse.params.param.value'' = Some v"
    using named[OF t(2) session_names(12)] named[OF b(1) session_names(9)] named[OF c(1) session_names(8)] named[OF v(1) session_names(5)]
    by (simp add: response_paths[OF assms(1)])
  ultimately show thesis using that t(1) u by blast
qed

lemma fault_read:
  assumes "xml_reader api" "plain_text m" "m \<noteq> []" "- (2 ^ 31) \<le> code" "code < 2 ^ 31"
  obtains t where "read_xml api (generate_xmlrpc_fault code m) = Inr t" "check_fault api t = Inl (translate_fault fault_translations m)"
proof -
  let ?c = "Member ''faultCode'' (VInt code)" and ?s = "Member ''faultString'' (VString m)"
  obtain t a where t: "read_xml api (generate_xmlrpc_fault code m) = Inr t" "children api t = [(''methodResponse'', a)]"
    "denotes api a (fault_xml code m)"
    using document_read[OF assms(1) fault_wf[OF assms(2,4,5)], unfolded print_fault document_tag] by blast
  obtain b where b: "children api a = [(''fault'', b)]"
    "denotes api b (Branch ''fault'' ([NL] @ ''    '') [Branch ''value'' [] [struct_xml [?c, ?s]] [] ([NL] @ ''  '')] [] [NL])"
    using t(3) by (auto simp: fault_xml_def)
  obtain v where v: "children api b = [(''value'', v)]" "denotes api v (Branch ''value'' [] [struct_xml [?c, ?s]] [] ([NL] @ ''  ''))"
    using b(2) by auto
  obtain s where s: "children api v = [(''struct'', s)]" "denotes api s (struct_xml [?c, ?s])" using v(2) by (auto simp: value_tag)
  obtain p q where m: "children api s = [(''member'', p), (''member'', q)]" "denotes api p (member_xml ?c)" "denotes api q (member_xml ?s)"
    using s(2) by (auto simp: struct_xml_def value_tag)
  note named = get_named[OF assms(1)]
  have st: "get_child api t ''methodResponse.fault.value.struct'' = Some s"
    using named[OF t(2) session_names(12)] named[OF b(1) session_names(13)] named[OF v(1) session_names(5)] named[OF s(1) session_names(7)]
    by (simp add: response_paths[OF assms(1)])
  have plain: "member_plain ?c" "member_plain ?s" using assms(2,4,5) by (simp_all add: member_plain_def plain_text_def blanks_def)
  have "find_fault_string api (children api s) = m"
    using member_read[OF assms(1) m(2) plain(1)] member_read[OF assms(1) m(3) plain(2)]
      value_string[OF assms(1) _ assms(2), of q] by (simp add: m(1))
  with st assms(3) t(1) that show thesis by (simp add: check_fault_def)
qed

section \<open>Process information is understood\<close>

definition seen_info :: "ProcessInfo \<Rightarrow> ctl_info" where
  "seen_info i = \<lparr>ci_name = pi_name i, ci_statename = show_state (pi_state i), ci_pid = Some (pi_pid i),
     ci_description = pi_description i\<rparr>"

definition info_plain :: "ProcessInfo \<Rightarrow> bool" where
  "info_plain i \<longleftrightarrow> plain_text (pi_name i) \<and> plain_text (pi_stdout_logfile i) \<and> plain_text (pi_spawnerr i) \<and>
     plain_text (pi_description i) \<and> - (2 ^ 31) \<le> pi_pid i \<and> pi_pid i < 2 ^ 31 \<and>
     - (2 ^ 31) \<le> pi_exitstatus i \<and> pi_exitstatus i < 2 ^ 31"

text \<open>What a member of the structure does to the information collected so far.\<close>

fun info_update :: "Member \<Rightarrow> ctl_info \<Rightarrow> ctl_info" where
  "info_update (Member n (VString s)) i =
     (if n = ''name'' then i\<lparr>ci_name := s\<rparr> else if n = ''statename'' then i\<lparr>ci_statename := s\<rparr>
      else if n = ''description'' then i\<lparr>ci_description := s\<rparr> else i)"
| "info_update (Member n (VInt k)) i = (if n = ''pid'' then i\<lparr>ci_pid := Some k\<rparr> else i)"
| "info_update (Member n (VBool b)) i = i"

fun info_typed :: "Member \<Rightarrow> bool" where
  "info_typed (Member n (VString s)) \<longleftrightarrow> n \<noteq> ''pid''"
| "info_typed (Member n (VInt k)) \<longleftrightarrow> n \<notin> {''name'', ''statename'', ''description''}"
| "info_typed (Member n (VBool b)) \<longleftrightarrow> n \<notin> {''name'', ''statename'', ''description'', ''pid''}"

lemma info_member_read:
  assumes "xml_reader api" "denotes api t (member_xml m)" "member_plain m" "info_typed m"
  shows "info_member api t i = Inr (info_update m i)"
proof -
  obtain n v where m: "m = Member n v" by (cases m)
  note r = member_read[OF assms(1-3)]
  show ?thesis
  proof (cases v)
    case (VString s)
    then have "get_str api t ''value.string'' = Some s"
      using value_string[OF assms(1) _, of t s] r(2) assms(3) by (simp add: m member_plain_def)
    then show ?thesis using r(1) assms(4) by (simp add: info_member_def m VString)
  next
    case (VInt k)
    then have "get_int api t ''value.int'' = Some k"
      using value_int[OF assms(1), of t k] r(2) assms(3) by (simp add: m member_plain_def)
    then show ?thesis using r(1) assms(4) by (simp add: info_member_def m VInt)
  next
    case (VBool b)
    then show ?thesis using r(1) assms(4) by (simp add: info_member_def m VBool)
  qed
qed

lemma info_members_read:
  assumes "xml_reader api" "denotes_all api us (map member_xml ms)" "list_all member_plain ms" "list_all info_typed ms"
  shows "fold_res (\<lambda>(k, m) i. if k = ''member'' then info_member api m i else Inr i) us i = Inr (fold info_update ms i)"
  using assms(2-4)
proof (induction ms arbitrary: us i)
  case (Cons m ms)
  then obtain u vs where us: "us = (''member'', u) # vs" "denotes api u (member_xml m)" "denotes_all api vs (map member_xml ms)"
    by (auto simp: value_tag)
  have "info_member api u i = Inr (info_update m i)"
    using info_member_read[OF assms(1) us(2)] Cons.prems by simp
  with Cons.IH[OF us(3)] Cons.prems us(1) show ?case by (simp del: bind_res_eq_Inr)
qed simp

lemma info_members_plain: "info_plain i \<Longrightarrow> list_all member_plain (process_info_members i)"
  by (cases "pi_state i")
    (simp_all add: process_info_members_def info_plain_def member_plain_def plain_text_def blanks_def)

lemma info_members_typed: "list_all info_typed (process_info_members i)"
  by (simp add: process_info_members_def)

lemma info_wf: "info_plain i \<Longrightarrow> xml_wf (info_xml i)"
  by (simp add: info_xml_def struct_wf info_members_plain)

lemma infos_wf: "list_all info_plain is \<Longrightarrow> xml_wf (infos_xml is)"
  by (simp add: infos_xml_def around_def session_names info_wf list_all_iff)

lemma info_from_read:
  assumes "xml_reader api" "children api v = [(''struct'', u)]" "denotes api u (info_xml i)" "info_plain i"
  shows "info_from api v = Inr (seen_info i)"
proof -
  have "denotes_all api (children api u) (map member_xml (process_info_members i))"
    using assms(3) by (simp add: info_xml_def struct_xml_def)
  note f = info_members_read[OF assms(1) this info_members_plain[OF assms(4)] info_members_typed]
  have "get_child api v ''struct'' = Some u" using get_named[OF assms(1,2) session_names(7)] by simp
  then show ?thesis using f by (simp add: info_from_def process_info_members_def seen_info_def)
qed

lemma infos_from_read:
  assumes "xml_reader api" "denotes_all api us (map (\<lambda>i. around ''value'' (info_xml i)) is)" "list_all info_plain is"
  shows "fold_res (\<lambda>(k, t) acc. if k = ''value'' then bind_res (info_from api t) (\<lambda>i. Inr (acc @ [i])) else Inr acc) us acc =
    Inr (acc @ map seen_info is)"
  using assms(2,3)
proof (induction "is" arbitrary: us acc)
  case (Cons i "is")
  then obtain v vs where us: "us = (''value'', v) # vs" "denotes api v (around ''value'' (info_xml i))"
    "denotes_all api vs (map (\<lambda>i. around ''value'' (info_xml i)) is)"
    by (auto simp: value_tag)
  obtain u where "children api v = [(''struct'', u)]" "denotes api u (info_xml i)"
    using us(2) by (auto simp: around_denotes value_tag)
  from info_from_read[OF assms(1) this] Cons.prems Cons.IH[OF us(3)] us(1) show ?case by (simp del: bind_res_eq_Inr)
qed simp

lemma info_read:
  assumes "xml_reader api" "info_plain i"
  obtains t where "read_xml api (generate_xmlrpc_response (show_process_info i)) = Inr t" "check_fault api t = Inr ()"
    "parse_process_info api t = Inr (seen_info i)"
proof -
  obtain t v u where r: "read_xml api (generate_xmlrpc_response (show_process_info i)) = Inr t" "check_fault api t = Inr ()"
    "get_child api t ''methodResponse.params.param.value'' = Some v" "children api v = [(''struct'', u)]" "denotes api u (info_xml i)"
    using response_read[OF assms(1) info_wf[OF assms(2)]] by (auto simp: print_info value_tag)
  then show thesis
    using that[OF r(1,2)] info_from_read[OF assms(1) r(4,5) assms(2)] by (simp add: parse_process_info_def failed_parse_def)
qed

lemma infos_read:
  assumes "xml_reader api" "list_all info_plain is"
  obtains t where "read_xml api (generate_xmlrpc_response (show_process_infos is)) = Inr t" "check_fault api t = Inr ()"
    "parse_process_info_array api t = Inr (map seen_info is)"
proof -
  obtain t v u where r: "read_xml api (generate_xmlrpc_response (show_process_infos is)) = Inr t" "check_fault api t = Inr ()"
    "get_child api t ''methodResponse.params.param.value'' = Some v" "children api v = [(''array'', u)]" "denotes api u (infos_xml is)"
    using response_read[OF assms(1) infos_wf[OF assms(2)]] by (auto simp: print_info value_tag)
  obtain w where w: "children api u = [(''data'', w)]" "denotes_all api (children api w) (map (\<lambda>i. around ''value'' (info_xml i)) is)"
    using r(5) by (auto simp: infos_xml_def around_denotes)
  have "get_child api v ''array.data'' = Some w"
    using get_named[OF assms(1) r(4) session_names(14)] get_named[OF assms(1) w(1) session_names(15)]
    by (simp add: session_paths[OF assms(1)])
  with that[OF r(1,2)] r infos_from_read[OF assms(1) w(2) assms(2)] show thesis
    by (simp add: parse_process_info_array_def failed_parse_def)
qed

text \<open>
  C24: What the daemon reports of its processes is what the client sees: from the response to
  \<open>getProcessInfo\<close> and to \<open>getAllProcessInfo\<close> the client reads the name, the state's name, the
  pid and the description of each process, in the daemon's order, with no process lost or added.
\<close>

theorem process_info_understood:
  assumes "xml_reader api" "list_all info_plain (i # is)"
  shows "(\<exists>t. read_xml api (generate_xmlrpc_response (show_process_info i)) = Inr t \<and> check_fault api t = Inr () \<and>
      parse_process_info api t = Inr (seen_info i)) \<and>
    (\<exists>t. read_xml api (generate_xmlrpc_response (show_process_infos is)) = Inr t \<and> check_fault api t = Inr () \<and>
      parse_process_info_array api t = Inr (map seen_info is))"
proof
  have i: "info_plain i" "list_all info_plain is" using assms(2) by simp_all
  show "\<exists>t. read_xml api (generate_xmlrpc_response (show_process_info i)) = Inr t \<and> check_fault api t = Inr () \<and>
      parse_process_info api t = Inr (seen_info i)"
    by (rule info_read[OF assms(1) i(1)]) blast
  show "\<exists>t. read_xml api (generate_xmlrpc_response (show_process_infos is)) = Inr t \<and> check_fault api t = Inr () \<and>
      parse_process_info_array api t = Inr (map seen_info is)"
    by (rule infos_read[OF assms(1) i(2)]) blast
qed

definition sample_info :: ProcessInfo where
  "sample_info = \<lparr>pi_name = ''web & co'', pi_state = RUNNING, pi_pid = 7, pi_exitstatus = 0, pi_stdout_logfile = [],
     pi_stderr_logfile = [], pi_spawnerr = [], pi_now = 9, pi_start = 1, pi_stop = 0, pi_description = ''pid 7, uptime 0:00:08''\<rparr>"

theorem process_info_understood_witness:
  "\<exists>t. read_xml tree_api (generate_xmlrpc_response (show_process_info sample_info)) = Inr t \<and>
     parse_process_info tree_api t = Inr \<lparr>ci_name = ''web & co'', ci_statename = ''RUNNING'', ci_pid = Some 7,
       ci_description = ''pid 7, uptime 0:00:08''\<rparr>"
proof -
  have "list_all info_plain (sample_info # [])"
    by (simp add: info_plain_def sample_info_def plain_text_def blanks_def)
  from process_info_understood[OF tree_api_reader this] show ?thesis by (auto simp: seen_info_def sample_info_def)
qed

end
