(* ===== verification/Session.thy ===== *)
theory Session
  imports Rpc_Documents
begin

text \<open>
  Client and daemon together: a command of \<^verbatim>\<open>supervisorctl\<close> goes through the client's XML and
  HTTP, the socket, the server's framing and parser, the daemon's handler, and back. What the user sees is
  related to the daemon's state.
\<close>

section \<open>A call from end to end\<close>

text \<open>
  A client's exchange with the server: its socket connects, the bytes it writes reach a new
  connection in some pieces, the server changes its state from \<open>s\<close> to \<open>s'\<close> while it reads them, and what the
  connection writes is delivered to the client.
\<close>

definition serves ::
  "boost_algo \<Rightarrow> 'pt ptree_api \<Rightarrow> 's rpc_server \<Rightarrow> 'w socket_api \<Rightarrow> string \<Rightarrow> string \<Rightarrow> 'w \<Rightarrow> 's \<Rightarrow> 's \<Rightarrow> bool" where
  "serves B api srv so path request w s s' \<longleftrightarrow>
     (\<exists>w1 w2 ds c. so_connect so path w = (OpOk, w1) \<and> so_write so request w1 = (OpOk, w2) \<and>
        concat ds = request \<and> list_all (\<lambda>d. d \<noteq> []) ds \<and>
        feed B api (Some (connection_dispatcher (Some srv))) ds (start_connection new_connection, s) = Some (Inr (c, s')) \<and>
        delivers so w2 (concat (cn_written c)))"

definition call_request :: "string \<Rightarrow> string list \<Rightarrow> string" where
  "call_request m ps = build_http_request (build_xmlrpc_request m ps)"

text \<open>What a call returns for the result of the handler.\<close>

definition outcome :: "'pt ptree_api \<Rightarrow> string \<Rightarrow> string res \<Rightarrow> 'pt res" where
  "outcome api path r =
     (case bind_res (read_xml api (answer r)) (\<lambda>tree. bind_res (check_fault api tree) (\<lambda>_. Inr tree)) of
        Inl e \<Rightarrow> Inl (translate_failure path (Thrown e)) | Inr tree \<Rightarrow> Inr tree)"

lemma call_served:
  assumes "boost_ok B" "xml_reader api" "plain_text m" "list_all plain_text ps" "length (call_request m ps) \<le> 1024 * 1024"
    and "serves B api srv so path (call_request m ps) w s s'"
    and "dispatch_method srv m ps s = Some (r, s'')" "length (answer r) < 2 ^ 64"
  shows "s'' = s'" "fst (call_method api so path m ps w) = outcome api path r"
proof -
  let ?q = "build_xmlrpc_request m ps"
  obtain w1 w2 ds c where v: "so_connect so path w = (OpOk, w1)" "so_write so (build_http_request ?q) w1 = (OpOk, w2)"
    "concat ds = build_http_request ?q" "list_all (\<lambda>d. d \<noteq> []) ds"
    "feed B api (Some (connection_dispatcher (Some srv))) ds (start_connection new_connection, s) = Some (Inr (c, s'))"
    "delivers so w2 (concat (cn_written c))"
    using assms(6) by (auto simp: serves_def call_request_def)
  have "parse_xmlrpc_request api ?q = Inr (m, ps)" using request_parsed[OF assms(2-4)] .
  from request_fed[OF assms(1) v(3,4) _ this, of "connection_dispatcher (Some srv)" s] assms(5,7) v(5)
  have f: "c = answered (build_http_request ?q) r" and "s'' = s'" by (simp_all add: call_request_def connection_dispatcher_def)
  then show "s'' = s'" by simp
  have "delivers so w2 (generate_http_response (answer r))" using v(6) by (simp add: f answered_fields)
  from exchange_read_back[OF v(1,2) this assms(8)]
  show "fst (call_method api so path m ps w) = outcome api path r"
    by (simp add: call_method_def outcome_def case_prod_unfold Let_def)
qed

lemma outcome_value: "xml_reader api \<Longrightarrow> xml_wf x \<Longrightarrow> \<exists>t. outcome api path (Inr (print_xml x)) = Inr t"
  by (erule (1) response_read) (simp add: outcome_def answer_def)

lemma outcome_fault:
  assumes "xml_reader api" "plain_text (what e)" "what e \<noteq> []"
  shows "outcome api path (Inl e) = Inl (translate_failure path (Thrown (translate_fault fault_translations (what e))))"
proof -
  obtain t where "read_xml api (generate_xmlrpc_fault 1 (what e)) = Inr t"
    "check_fault api t = Inl (translate_fault fault_translations (what e))"
    using fault_read[OF assms, of 1] by auto
  then show ?thesis by (simp add: outcome_def answer_def)
qed

lemma outcome_code:
  assumes "xml_reader api" "(code, friendly) \<in> set fault_translations" "NUL \<notin> set name"
  shows "outcome api path (Inl (RuntimeError (code @ '': '' @ name))) = Inl (XmlRpcError code name (name @ '' - '' @ friendly))"
proof -
  have "plain_text (code @ '': '' @ name)"
    using assms(2,3) by (auto simp: fault_translations_def plain_text_def blanks_def)
  then show ?thesis
    using outcome_fault[OF assms(1), of "RuntimeError (code @ '': '' @ name)"] translate_known_fault[OF assms(2), of name] by simp
qed

text \<open>The daemon's own table of handlers.\<close>

definition daemon_server :: "daemon_slice \<Rightarrow> (string \<Rightarrow> configuration res) \<Rightarrow> string \<Rightarrow> daemon rpc_server" where
  "daemon_server run_for parse_file path = register_rpc_handlers run_for parse_file (mk_rpc_server path)"

lemma daemon_dispatch:
  "dispatch_method (daemon_server run_for pf path) ''supervisor.startProcess'' = rpc_start_process"
  "dispatch_method (daemon_server run_for pf path) ''supervisor.stopProcess'' = rpc_stop_process run_for"
  "dispatch_method (daemon_server run_for pf path) ''supervisor.reloadConfig'' = rpc_reload_config run_for pf"
  "dispatch_method (daemon_server run_for pf path) ''supervisor.shutdown'' = rpc_shutdown"
  "dispatch_method (daemon_server run_for pf path) ''supervisor.getProcessInfo'' = rpc_get_process_info"
  "dispatch_method (daemon_server run_for pf path) ''supervisor.getAllProcessInfo'' = rpc_get_all_process_info"
  by (simp_all add: daemon_server_def register_rpc_handlers_def register_process_handlers_def dispatch_register fun_eq_iff)

text \<open>An answer about a name from a request of limited size is itself of limited size.\<close>

lemma length_escape: "length s \<le> length (escape_xml s)" "length (escape_xml s) \<le> 6 * length s"
proof -
  have c: "1 \<le> length (subst_char xml_needles c) \<and> length (subst_char xml_needles c) \<le> 6" for c
    by (simp add: subst_char_def xml_needles_def)
  show "length s \<le> length (escape_xml s)" "length (escape_xml s) \<le> 6 * length s"
  proof (induction s)
    case (Cons x s)
    { case 1 with Cons c[of x] show ?case by (simp add: escape_xml_def) }
    { case 2 with Cons c[of x] show ?case by (simp add: escape_xml_def) }
  qed (simp_all add: escape_xml_def)
qed

lemma answer_small:
  assumes "length (call_request m [name]) \<le> 1024 * 1024" "(code, friendly) \<in> set fault_translations"
  shows "length (answer (Inl (RuntimeError (code @ '': '' @ name)))) < 2 ^ 64"
proof -
  have "length name \<le> 1024 * 1024"
    using assms(1) length_escape(1)[of name] by (simp add: call_request_def build_http_request_def build_xmlrpc_request_def)
  moreover have "length code \<le> 15" using assms(2) by (auto simp: fault_translations_def)
  moreover have "length (show_int 1) = 1" by (simp add: show_int_def show_nat.simps[of "Suc 0"])
  ultimately show ?thesis
    using length_escape(2)[of "code @ '': '' @ name"] length_escape(2)[of "''faultCode''"] length_escape(2)[of "''faultString''"]
    by (simp add: answer_def generate_xmlrpc_fault_def show_struct_def show_member_def)
qed

text \<open>A call whose handler returns true, and one that ends in a fault with a known code.\<close>

abbreviation rpc_fault :: "string \<Rightarrow> string \<Rightarrow> string \<Rightarrow> 'pt res" where
  "rpc_fault code name friendly \<equiv> Inl (XmlRpcError code name (name @ '' - '' @ friendly))"

lemma call_true:
  assumes "boost_ok B" "xml_reader api" "plain_text m" "list_all plain_text ps" "length (call_request m ps) \<le> 1024 * 1024"
    and "serves B api srv so path (call_request m ps) w s s'"
    and "dispatch_method srv m ps s = Some (Inr ''<boolean>1</boolean>'', s1)"
  shows "s1 = s' \<and> (\<exists>t. fst (call_method api so path m ps w) = Inr t)"
proof -
  have "length (answer (Inr ''<boolean>1</boolean>'')) < 2 ^ 64" by (simp add: answer_def generate_xmlrpc_response_def)
  note s = call_served[OF assms this]
  have "print_xml (value_xml (VBool True)) = ''<boolean>1</boolean>''" by (simp add: xml_tags)
  with outcome_value[OF assms(2) value_wf[of "VBool True"], of path] s show ?thesis by auto
qed

lemma call_fault:
  assumes "boost_ok B" "xml_reader api" "plain_text m" "plain_text name" "length (call_request m [name]) \<le> 1024 * 1024"
    and "serves B api srv so path (call_request m [name]) w s s'"
    and "dispatch_method srv m [name] s = Some (Inl (RuntimeError (code @ '': '' @ name)), s1)"
    and "(code, friendly) \<in> set fault_translations"
  shows "s1 = s' \<and> fst (call_method api so path m [name] w) = rpc_fault code name friendly"
proof -
  have ps: "list_all plain_text [name]" using assms(4) by simp
  note s = call_served[OF assms(1-3) ps assms(5-7) answer_small[OF assms(5,8)]]
  with outcome_code[OF assms(2,8), of name path] assms(4) show ?thesis by (simp add: plain_text_def)
qed

lemma fault_codes:
  "(''BAD_NAME'', ''no such process'') \<in> set fault_translations"
  "(''NOT_RUNNING'', ''not running'') \<in> set fault_translations"
  "(''ALREADY_STARTED'', ''already running'') \<in> set fault_translations"
  "(''SPAWN_ERROR'', ''spawn error'') \<in> set fault_translations"
  by (simp_all add: fault_translations_def)

lemma method_names:
  "plain_text ''supervisor.startProcess''" "plain_text ''supervisor.stopProcess''" "plain_text ''supervisor.reloadConfig''"
  "plain_text ''supervisor.shutdown''"
  by (simp_all add: plain_text_def blanks_def)

text \<open>What the two calls about a process return, for every state of the daemon.\<close>

definition start_returns :: "string \<Rightarrow> daemon \<Rightarrow> daemon \<Rightarrow> 'pt res \<Rightarrow> bool" where
  "start_returns name d d' r \<longleftrightarrow>
     (case get_process name d of
        None \<Rightarrow> d' = d \<and> r = rpc_fault ''BAD_NAME'' name ''no such process''
      | Some p \<Rightarrow>
          if p_state p \<in> {RUNNING, STARTING} then d' = d \<and> r = rpc_fault ''ALREADY_STARTED'' name ''already running''
          else \<exists>p'. get_process name d' = Some p' \<and>
            ((\<exists>t. r = Inr t) \<and> p_state p' = STARTING \<and> p_pid p' > 0 \<or>
             r = rpc_fault ''SPAWN_ERROR'' name ''spawn error'' \<and> p_state p' \<in> {BACKOFF, FATAL}))"

lemma start_call:
  assumes "boost_ok B" "xml_reader api" "daemon_inv d" "plain_text name"
    and "length (call_request ''supervisor.startProcess'' [name]) \<le> 1024 * 1024"
    and "serves B api (daemon_server run_for pf path) so spath (call_request ''supervisor.startProcess'' [name]) w d d'"
  shows "start_returns name d d' (fst (call_method api so spath ''supervisor.startProcess'' [name] w))"
proof -
  have ps: "list_all plain_text [name]" using assms(4) by simp
  note true = call_true[OF assms(1,2) method_names(1) ps assms(5,6), unfolded daemon_dispatch]
  note fault = call_fault[OF assms(1,2) method_names(1) assms(4-6), unfolded daemon_dispatch, OF _ fault_codes(1)]
    call_fault[OF assms(1,2) method_names(1) assms(4-6), unfolded daemon_dispatch, OF _ fault_codes(3)]
    call_fault[OF assms(1,2) method_names(1) assms(4-6), unfolded daemon_dispatch, OF _ fault_codes(4)]
  show ?thesis
  proof (cases "get_process name d")
    case None
    with start_process_answers[OF assms(3), of name] fault(1) show ?thesis by (auto simp: start_returns_def)
  next
    case (Some p)
    with start_process_answers[OF assms(3), of name] fault(2,3) true show ?thesis
      by (auto simp: start_returns_def split: if_splits)
  qed
qed



section \<open>What the user of the client sees\<close>

text \<open>A command that is one call about a name, and its message on success.\<close>

definition simple_command :: "(string \<times> string \<times> string) list" where
  "simple_command = [(''start'', ''supervisor.startProcess'', '': started''), (''stop'', ''supervisor.stopProcess'', '': stopped'')]"

lemma simple_command_run:
  assumes "(cmd, m, done) \<in> set simple_command" "name \<noteq> ''all''"
    and "call_method (cl_api cl) (cl_so cl) (cl_socket_path cl) m [name] (ct_world k) = (r, w)"
  shows "execute_command cl cmd [name] k =
    (case r of
       Inr t \<Rightarrow> (0, out (name @ done @ [NL]) (k\<lparr>ct_world := w\<rparr>))
     | Inl e \<Rightarrow> (1, err (''Error: '' @ what e @ [NL]) (k\<lparr>ct_world := w\<rparr>)))"
proof -
  have c: "call cl m [name] k = (r, k\<lparr>ct_world := w\<rparr>)" using assms(3) by (simp add: call_def)
  consider "cmd = ''start''" "m = ''supervisor.startProcess''" "done = '': started''"
    | "cmd = ''stop''" "m = ''supervisor.stopProcess''" "done = '': stopped''"
    using assms(1) by (simp add: simple_command_def) blast
  then show ?thesis
  proof cases
    case 1
    have "run_command cl ''start'' = Some (cmdStart cl)" by (simp add: run_command_def)
    with 1 c assms(2) show ?thesis by (cases r) (simp_all add: execute_command_def cmdStart_def then_do_def)
  next
    case 2
    have "run_command cl ''stop'' = Some (cmdStop cl)" by (simp add: run_command_def)
    with 2 c assms(2) show ?thesis by (cases r) (simp_all add: execute_command_def cmdStop_def then_do_def)
  qed
qed

text \<open>The two ways a simple command ends.\<close>

definition reports_done :: "string \<Rightarrow> 'w ctl \<Rightarrow> int \<times> 'w ctl \<Rightarrow> bool" where
  "reports_done message k rk \<longleftrightarrow> fst rk = 0 \<and> ct_out (snd rk) = ct_out k @ message @ [NL] \<and> ct_err (snd rk) = ct_err k"

definition reports_error :: "string \<Rightarrow> 'w ctl \<Rightarrow> int \<times> 'w ctl \<Rightarrow> bool" where
  "reports_error message k rk \<longleftrightarrow>
     fst rk = 1 \<and> ct_out (snd rk) = ct_out k \<and> ct_err (snd rk) = ct_err k @ ''Error: '' @ message @ [NL]"

lemma simple_command_reports:
  assumes "(cmd, m, done) \<in> set simple_command" "name \<noteq> ''all''"
    and "r = fst (call_method (cl_api cl) (cl_so cl) (cl_socket_path cl) m [name] (ct_world k))"
  shows "r = Inr t \<Longrightarrow> reports_done (name @ done) k (execute_command cl cmd [name] k)"
    and "r = rpc_fault code name friendly \<Longrightarrow> reports_error (name @ '' - '' @ friendly) k (execute_command cl cmd [name] k)"
proof -
  have "call_method (cl_api cl) (cl_so cl) (cl_socket_path cl) m [name] (ct_world k) =
      (r, snd (call_method (cl_api cl) (cl_so cl) (cl_socket_path cl) m [name] (ct_world k)))" using assms(3) by simp
  note run = simple_command_run[OF assms(1,2) this]
  show "r = Inr t \<Longrightarrow> reports_done (name @ done) k (execute_command cl cmd [name] k)"
    and "r = rpc_fault code name friendly \<Longrightarrow> reports_error (name @ '' - '' @ friendly) k (execute_command cl cmd [name] k)"
    by (simp_all add: run reports_done_def reports_error_def out_def err_def)
qed

text \<open>
  C8: What \<^verbatim>\<open>supervisorctl start\<close> tells its user is what happened in the daemon. The command
  goes through the client's XML and HTTP, a socket that cuts the bytes in any way, the server's
  framing and parser, the handler and back: for an unknown name and for a program that is starting
  or running an error is shown and the daemon is as it was; otherwise success is
  reported exactly when the process is now STARTING with a pid, and a spawn error when it is in
  BACKOFF or FATAL.
\<close>

theorem start_command_tells_truth:
  assumes "boost_ok B" "xml_reader (cl_api cl)" "daemon_inv d" "plain_text name" "name \<noteq> ''all''"
    and "length (call_request ''supervisor.startProcess'' [name]) \<le> 1024 * 1024"
    and "serves B (cl_api cl) (daemon_server run_for pf path) (cl_so cl) (cl_socket_path cl)
      (call_request ''supervisor.startProcess'' [name]) (ct_world k) d d'"
  shows "let rk = execute_command cl ''start'' [name] k in
    case get_process name d of
      None \<Rightarrow> d' = d \<and> reports_error (name @ '' - no such process'') k rk
    | Some p \<Rightarrow>
        if p_state p \<in> {RUNNING, STARTING} then d' = d \<and> reports_error (name @ '' - already running'') k rk
        else \<exists>p'. get_process name d' = Some p' \<and>
          (reports_done (name @ '': started'') k rk \<and> p_state p' = STARTING \<and> p_pid p' > 0 \<or>
           reports_error (name @ '' - spawn error'') k rk \<and> p_state p' \<in> {BACKOFF, FATAL})"
proof -
  have "(''start'', ''supervisor.startProcess'', '': started'') \<in> set simple_command" by (simp add: simple_command_def)
  note reports = simple_command_reports[OF this assms(5) refl]
  from start_call[OF assms(1-4,6,7)] reports show ?thesis
    by (auto simp: start_returns_def Let_def split: option.splits if_splits)
qed

text \<open>A socket that delivers the server's answer at once is one over which the server serves.\<close>

lemma instant_serves:
  assumes "boost_ok B" "xml_reader api" "plain_text m" "list_all plain_text ps" "length (call_request m ps) \<le> 1024 * 1024"
    and "dispatch_method srv m ps s = Some (r, s')"
  shows "serves B api srv (instant_socket (generate_http_response (answer r))) path (call_request m ps) () s s'"
proof -
  let ?a = "generate_http_response (answer r)"
  have "feed B api (Some (connection_dispatcher (Some srv))) [call_request m ps] (start_connection new_connection, s) =
      Some (Inr (answered (call_request m ps) r, s'))"
    using request_fed[OF assms(1) _ _ _ request_parsed[OF assms(2-4)], of "[call_request m ps]"
        "connection_dispatcher (Some srv)" s] assms(5,6)
    by (simp add: call_request_def connection_dispatcher_def build_http_request_def)
  moreover have "delivers (instant_socket ?a) () ?a"
    using instant_response[of "answer r"] by (simp add: delivers_def instant_socket_def)
  ultimately show ?thesis
    by (auto simp: serves_def instant_socket_def answered_fields call_request_def build_http_request_def
        intro!: exI[of _ "[call_request m ps]"] exI[of _ "answered (call_request m ps) r"])
qed

lemma length_show_nat: "length (show_nat n) \<le> Suc n"
proof (induction n rule: show_nat.induct)
  case (1 n)
  then show ?case by (subst show_nat.simps) (auto intro: order_trans)
qed

lemma length_call_request:
  "length (call_request m [name]) \<le> 1000 + 12 * (length m + length name)"
  using length_escape(2)[of m] length_escape(2)[of name] length_show_nat[of "length (build_xmlrpc_request m [name])"]
  by (simp add: call_request_def build_http_request_def) (simp add: build_xmlrpc_request_def)

definition sample_client :: "string res \<Rightarrow> (ptree, unit) client" where
  "sample_client r =
     \<lparr>cl_api = tree_api, cl_so = instant_socket (generate_http_response (answer r)), cl_socket_path = ''/run/s.sock''\<rparr>"

definition sample_ctl :: "unit ctl" where
  "sample_ctl = \<lparr>ct_out = [], ct_err = [], ct_world = ()\<rparr>"

theorem start_command_tells_truth_witness:
  "reports_error ''web - no such process'' sample_ctl
     (execute_command (sample_client (Inl (RuntimeError ''BAD_NAME: web''))) ''start'' [''web''] sample_ctl)"
proof -
  let ?r = "Inl (RuntimeError ''BAD_NAME: web'') :: string res" and ?m = "''supervisor.startProcess''"
  let ?srv = "daemon_server manager_slice (\<lambda>_. Inl (RuntimeError [])) ''/run/s.sock''"
  have g: "get_process ''web'' sample_daemon = None"
    by (simp add: get_process_def sample_daemon_fields)
  then have d: "dispatch_method ?srv ?m [''web''] sample_daemon = Some (?r, sample_daemon)"
    by (simp add: daemon_dispatch rpc_start_process_def)
  have plain: "plain_text ?m" "plain_text ''web''" by (simp_all add: plain_text_def blanks_def)
  have len: "length (call_request ?m [''web'']) \<le> 1024 * 1024" using length_call_request[of ?m "''web''"] by simp
  have cl: "cl_api (sample_client ?r) = tree_api" "cl_socket_path (sample_client ?r) = ''/run/s.sock''"
    "cl_so (sample_client ?r) = instant_socket (generate_http_response (answer ?r))" "ct_world sample_ctl = ()"
    by (simp_all add: sample_client_def)
  have "serves classic_boost (cl_api (sample_client ?r)) ?srv (cl_so (sample_client ?r)) (cl_socket_path (sample_client ?r))
      (call_request ?m [''web'']) (ct_world sample_ctl) sample_daemon sample_daemon"
    unfolding cl using instant_serves[OF boost_ok_classic tree_api_reader plain(1) _ len d] plain(2) by simp
  from start_command_tells_truth[OF boost_ok_classic _ sample_daemon_ok plain(2) _ len this] g
  show ?thesis by (simp add: cl tree_api_reader)
qed






text \<open>Commands without an argument.\<close>

lemma length_nullary_request: "length m \<le> 40 \<Longrightarrow> length (call_request m []) \<le> 1024 * 1024"
  using length_escape(2)[of m] length_show_nat[of "length (build_xmlrpc_request m [])"]
  by (simp add: call_request_def build_http_request_def) (simp add: build_xmlrpc_request_def)

lemma nullary_call_true:
  assumes "boost_ok B" "xml_reader (cl_api cl)" "plain_text m" "length m \<le> 40"
    and "serves B (cl_api cl) srv (cl_so cl) (cl_socket_path cl) (call_request m []) (ct_world k) s s'"
    and "dispatch_method srv m [] s = Some (Inr ''<boolean>1</boolean>'', s1)"
  shows "s1 = s' \<and> (\<exists>t w. \<forall>x. call cl m [] (out x k) = (Inr t, (out x k)\<lparr>ct_world := w\<rparr>))"
proof -
  obtain t where "s1 = s'" "fst (call_method (cl_api cl) (cl_so cl) (cl_socket_path cl) m [] (ct_world k)) = Inr t"
    using call_true[OF assms(1-3) _ length_nullary_request[OF assms(4)] assms(5,6)] by auto
  then show ?thesis by (simp add: call_def out_def case_prod_unfold Let_def) blast
qed

text \<open>
  C16: What \<^verbatim>\<open>supervisorctl reload\<close> tells its user, and what has happened in the daemon: without a
  configuration file or while a reload is in progress nothing; when the file cannot be read or is rejected
  nothing but the return to the running state; otherwise the new configuration is in force and exactly its
  programs are supervised with its settings. The user is told each time that the configuration has been
  reloaded, with status 0 and no error, also when it was rejected.
\<close>

theorem reload_command_outcome:
  assumes "boost_ok B" "xml_reader (cl_api cl)" "event_loop run_for" "daemon_inv d"
    and "serves B (cl_api cl) (daemon_server run_for pf path) (cl_so cl) (cl_socket_path cl)
      (call_request ''supervisor.reloadConfig'' []) (ct_world k) d d'"
  shows "daemon_inv d' \<and>
    (if cf_config_file (dm_config d) = [] \<or> dm_state d = DaemonRestarting then d' = d
     else case pf (cf_config_file (dm_config d)) of
            Inl e \<Rightarrow> d' = d\<lparr>dm_state := DaemonRunning\<rparr>
          | Inr c \<Rightarrow> dm_state d' = DaemonRunning \<and> dm_config d' = c \<and>
              (\<forall>x. map_option p_config (get_process x d') = programs_map (cf_programs c) x)) \<and>
    reports_done (''Reloading supervisord configuration...'' @ [NL] @ ''Configuration reloaded'') k
      (execute_command cl ''reload'' [] k)"
proof -
  obtain d1 where r: "reload_config run_for pf d = Some d1" "daemon_inv d1" "reloaded pf d d1"
    using reload_config_reloads[OF assms(3,4)] by blast
  then have "dispatch_method (daemon_server run_for pf path) ''supervisor.reloadConfig'' [] d = Some (Inr ''<boolean>1</boolean>'', d1)"
    by (simp add: daemon_dispatch rpc_reload_config_def)
  from nullary_call_true[OF assms(1,2) method_names(3) _ assms(5) this] obtain t w where
    c: "d1 = d'" "\<forall>x. call cl ''supervisor.reloadConfig'' [] (out x k) = (Inr t, (out x k)\<lparr>ct_world := w\<rparr>)" by auto
  have "run_command cl ''reload'' = Some (cmdReload cl)" by (simp add: run_command_def)
  then have "reports_done (''Reloading supervisord configuration...'' @ [NL] @ ''Configuration reloaded'') k
      (execute_command cl ''reload'' [] k)"
    using c(2) by (simp add: execute_command_def cmdReload_def then_do_def reports_done_def) (simp add: out_def)
  with r c(1) show ?thesis by (simp add: reloaded_def)
qed

theorem reload_command_outcome_witness:
  "reports_done (''Reloading supervisord configuration...'' @ [NL] @ ''Configuration reloaded'') sample_ctl
     (execute_command (sample_client (Inr ''<boolean>1</boolean>'')) ''reload'' [] sample_ctl)"
proof -
  let ?d = "sample_daemon\<lparr>dm_config := default_configuration\<lparr>cf_config_file := ''/etc/s.conf''\<rparr>\<rparr>"
  let ?r = "Inr ''<boolean>1</boolean>'' :: string res" and ?m = "''supervisor.reloadConfig''"
  let ?srv = "daemon_server manager_slice (\<lambda>_. Inl (ConfigParseError ''bad'')) ''/run/s.sock''"
  have inv: "daemon_inv ?d" using sample_daemon_ok by (simp add: daemon_inv_def)
  have "dispatch_method ?srv ?m [] ?d = Some (?r, ?d\<lparr>dm_state := DaemonRunning\<rparr>)"
    by (simp add: daemon_dispatch rpc_reload_config_def reload_config_def sample_daemon_fields Let_def)
  from instant_serves[OF boost_ok_classic tree_api_reader method_names(3) _ length_nullary_request this]
  have "serves classic_boost (cl_api (sample_client ?r)) ?srv (cl_so (sample_client ?r)) (cl_socket_path (sample_client ?r))
      (call_request ?m []) (ct_world sample_ctl) ?d (?d\<lparr>dm_state := DaemonRunning\<rparr>)"
    by (simp add: sample_client_def)
  from reload_command_outcome[OF boost_ok_classic _ own_handlers.event_loop_axioms inv this]
  show ?thesis by (simp add: sample_client_def tree_api_reader)
qed

text \<open>
  C18: \<^verbatim>\<open>supervisorctl shutdown\<close> ends the daemon: the call is answered at once, with the shutdown posted
  to the event loop and nothing else changed. Whatever consistent state \<open>d1\<close> the daemon is in when the loop
  comes to it, other handlers having run in between, the action ends: no process is left and the event loop
  has been told to end, even if other handlers, a reload among them, run while it waits for the children.
\<close>

theorem shutdown_command_stops_daemon:
  assumes "boost_ok B" "xml_reader (cl_api cl)" "reentrant_loop run_for" "daemon_inv d"
    and "serves B (cl_api cl) (daemon_server run_for pf path) (cl_so cl) (cl_socket_path cl)
      (call_request ''supervisor.shutdown'' []) (ct_world k) d d'"
  shows "reports_done ''Shutting down supervisord'' k (execute_command cl ''shutdown'' [] k) \<and>
    d' = d\<lparr>dm_posted := Suc (dm_posted d)\<rparr> \<and> dm_posted d' > 0 \<and> daemon_inv d' \<and>
    (\<forall>d1. daemon_inv d1 \<longrightarrow>
       (\<exists>d''. on_posted_shutdown run_for d1 = Some d'' \<and> dm_loop_stopped d'' \<and> daemon_inv d'' \<and>
          \<not> has_running_processes d''))"
proof -
  have "dispatch_method (daemon_server run_for pf path) ''supervisor.shutdown'' [] d =
      Some (Inr ''<boolean>1</boolean>'', d\<lparr>dm_posted := Suc (dm_posted d)\<rparr>)"
    by (simp add: daemon_dispatch rpc_shutdown_def)
  from nullary_call_true[OF assms(1,2) method_names(4) _ assms(5) this] obtain t w where
    c: "d' = d\<lparr>dm_posted := Suc (dm_posted d)\<rparr>" "\<forall>x. call cl ''supervisor.shutdown'' [] (out x k) = (Inr t, (out x k)\<lparr>ct_world := w\<rparr>)"
    by auto
  have "run_command cl ''shutdown'' = Some (cmdShutdown cl)" by (simp add: run_command_def)
  then have rep: "reports_done ''Shutting down supervisord'' k (execute_command cl ''shutdown'' [] k)"
    using c(2) by (simp add: execute_command_def cmdShutdown_def then_do_def reports_done_def) (simp add: out_def)
  have "\<exists>d''. on_posted_shutdown run_for d1 = Some d'' \<and> dm_loop_stopped d'' \<and> daemon_inv d'' \<and> \<not> has_running_processes d''"
    if "daemon_inv d1" for d1 using posted_shutdown_stops[OF assms(3) that] by blast
  moreover have "daemon_inv d'" using assms(4) c(1) by (simp add: daemon_inv_def)
  ultimately show ?thesis using rep c(1) by simp
qed

theorem shutdown_command_stops_daemon_witness:
  "\<exists>d''. on_posted_shutdown (sighup_slice (\<lambda>_. Inr default_configuration)) (reloadable_daemon\<lparr>dm_posted := 1\<rparr>) = Some d'' \<and>
     \<not> has_running_processes d''"
proof -
  let ?r = "Inr ''<boolean>1</boolean>'' :: string res" and ?m = "''supervisor.shutdown''" and ?d = "reloadable_daemon\<lparr>dm_posted := 1\<rparr>"
  let ?srv = "daemon_server (sighup_slice (\<lambda>_. Inr default_configuration)) (\<lambda>_. Inr default_configuration) ''/run/s.sock''"
  have "dispatch_method ?srv ?m [] reloadable_daemon = Some (?r, ?d)"
    by (simp add: daemon_dispatch rpc_shutdown_def reloadable_daemon_def sample_daemon_fields)
  from instant_serves[OF boost_ok_classic tree_api_reader method_names(4) _ length_nullary_request this]
  have "serves classic_boost (cl_api (sample_client ?r)) ?srv (cl_so (sample_client ?r)) (cl_socket_path (sample_client ?r))
      (call_request ?m []) (ct_world sample_ctl) reloadable_daemon ?d"
    by (simp add: sample_client_def)
  from shutdown_command_stops_daemon[OF boost_ok_classic _ hangup_while_waiting.reentrant_loop_axioms reloadable_daemon_ok this]
  show ?thesis by (auto simp: sample_client_def tree_api_reader)
qed

text \<open>The line that the status of a process is shown as.\<close>

definition status_line :: "ProcessInfo \<Rightarrow> string" where
  "status_line i = pad_right 20 (pi_name i) @ pad_right 15 (show_state (pi_state i)) @ pi_description i @ [NL]"

lemma print_infos: "print_process_infos (map seen_info is) k = out (concat (map status_line is)) k"
  unfolding print_process_infos_def
  by (induction "is" arbitrary: k) (simp_all add: print_process_info_def seen_info_def status_line_def out_def)

lemma outcome_infos:
  assumes "xml_reader api" "list_all info_plain is"
  obtains t where "outcome api path (Inr (show_process_infos is)) = Inr t" "parse_process_info_array api t = Inr (map seen_info is)"
  by (rule infos_read[OF assms], rule that) (simp_all add: outcome_def answer_def)

text \<open>
  C9: \<^verbatim>\<open>supervisorctl status\<close> shows the daemon's processes: one line for each, in the order of their
  names, with the state and the description the daemon holds at that moment, and asking
  changes nothing but the clocks that have been read.
\<close>

theorem status_command_shows_processes:
  assumes "boost_ok B" "xml_reader (cl_api cl)" "length (call_request ''supervisor.getAllProcessInfo'' []) \<le> 1024 * 1024"
    and "serves B (cl_api cl) (daemon_server run_for pf path) (cl_so cl) (cl_socket_path cl)
      (call_request ''supervisor.getAllProcessInfo'' []) (ct_world k) d d'"
    and "get_all_process_info d (dm_sys d) = (is, sy)" "list_all info_plain is"
    and "length (show_process_infos is) < 2 ^ 63"
  shows "d' = d\<lparr>dm_sys := sy\<rparr> \<and>
    (\<exists>k'. execute_command cl ''status'' [] k = (0, k') \<and> ct_out k' = ct_out k @ concat (map status_line is) \<and> ct_err k' = ct_err k)"
proof -
  let ?m = "''supervisor.getAllProcessInfo''"
  have m: "plain_text ?m" by (simp add: plain_text_def blanks_def)
  have d: "dispatch_method (daemon_server run_for pf path) ?m [] d = Some (Inr (show_process_infos is), d\<lparr>dm_sys := sy\<rparr>)"
    using assms(5) by (simp add: daemon_dispatch rpc_get_all_process_info_def)
  have "length (answer (Inr (show_process_infos is))) < 2 ^ 64"
    using assms(7) by (simp add: answer_def generate_xmlrpc_response_def)
  note s = call_served[OF assms(1,2) m list.pred_inject(1) assms(3,4) d this]
  obtain t where t: "outcome (cl_api cl) (cl_socket_path cl) (Inr (show_process_infos is)) = Inr t"
    "parse_process_info_array (cl_api cl) t = Inr (map seen_info is)"
    using outcome_infos[OF assms(2,6)] by blast
  obtain w where c: "call cl ?m [] k = (Inr t, k\<lparr>ct_world := w\<rparr>)"
    using s(2) t(1) by (cases "call_method (cl_api cl) (cl_so cl) (cl_socket_path cl) ?m [] (ct_world k)") (auto simp: call_def)
  have "run_command cl ''status'' = Some (cmdStatus cl)" by (simp add: run_command_def)
  then have "execute_command cl ''status'' [] k = (0, out (concat (map status_line is)) (k\<lparr>ct_world := w\<rparr>))"
    using c t(2) by (simp add: execute_command_def cmdStatus_def then_do_def print_infos)
  with s(1) show ?thesis by (simp add: out_def)
qed

text \<open>A daemon with one program that has not been started.\<close>

definition idle_daemon :: daemon where
  "idle_daemon = sample_daemon\<lparr>mg_processes :=
     [(''web'', (fst sample_fresh)\<lparr>p_config := default_program_config\<lparr>pc_name := ''web''\<rparr>\<rparr>)]\<rparr>"

definition idle_info :: ProcessInfo where
  "idle_info = fst (get_info ((fst sample_fresh)\<lparr>p_config := default_program_config\<lparr>pc_name := ''web''\<rparr>\<rparr>) (dm_sys idle_daemon))"

lemma idle_info_fields:
  "pi_name idle_info = ''web''" "pi_state idle_info = STOPPED" "pi_pid idle_info = -1" "pi_exitstatus idle_info = 0"
  "pi_stdout_logfile idle_info = []" "pi_spawnerr idle_info = []" "pi_description idle_info = []"
  by (simp_all add: idle_info_def get_info_def system_now_def default_program_config_def default_log_config_def sample_eval Let_def)

theorem status_command_shows_processes_witness:
  "\<exists>k'. execute_command (sample_client (Inr (show_process_infos [idle_info]))) ''status'' [] sample_ctl = (0, k') \<and>
     ct_out k' = pad_right 20 ''web'' @ pad_right 15 ''STOPPED'' @ [NL]"
proof -
  let ?r = "Inr (show_process_infos [idle_info]) :: string res" and ?m = "''supervisor.getAllProcessInfo''"
  let ?srv = "daemon_server manager_slice (\<lambda>_. Inl (RuntimeError [])) ''/run/s.sock''"
  obtain sy where g: "get_all_process_info idle_daemon (dm_sys idle_daemon) = ([idle_info], sy)"
    by (simp add: get_all_process_info_def idle_info_def idle_daemon_def case_prod_unfold Let_def)
  then have d: "dispatch_method ?srv ?m [] idle_daemon = Some (?r, idle_daemon\<lparr>dm_sys := sy\<rparr>)"
    by (simp add: daemon_dispatch rpc_get_all_process_info_def)
  have plain: "plain_text ?m" by (simp add: plain_text_def blanks_def)
  have len: "length (call_request ?m []) \<le> 1024 * 1024"
    using length_escape(2)[of ?m] length_show_nat[of "length (build_xmlrpc_request ?m [])"]
    by (simp add: call_request_def build_http_request_def) (simp add: build_xmlrpc_request_def)
  have small: "length (show_process_infos [idle_info]) < 2 ^ 63"
    by (simp add: show_process_infos_def show_process_info_def process_info_members_def show_struct_def show_member_def
        idle_info_fields show_int_def show_nat.simps[of "Suc 0"] show_nat.simps[of 0] escape_xml_def subst_char_def xml_needles_def)
  have info: "list_all info_plain [idle_info]" by (simp add: info_plain_def idle_info_fields plain_text_def blanks_def)
  have cl: "cl_api (sample_client ?r) = tree_api" "cl_socket_path (sample_client ?r) = ''/run/s.sock''"
    "cl_so (sample_client ?r) = instant_socket (generate_http_response (answer ?r))" "ct_world sample_ctl = ()"
    by (simp_all add: sample_client_def)
  have "serves classic_boost (cl_api (sample_client ?r)) ?srv (cl_so (sample_client ?r)) (cl_socket_path (sample_client ?r))
      (call_request ?m []) (ct_world sample_ctl) idle_daemon (idle_daemon\<lparr>dm_sys := sy\<rparr>)"
    unfolding cl using instant_serves[OF boost_ok_classic tree_api_reader plain _ len d] by simp
  from status_command_shows_processes[OF boost_ok_classic _ len this g info small]
  show ?thesis by (auto simp: cl tree_api_reader status_line_def idle_info_fields sample_ctl_def)
qed

end
