(* ===== verification/Entry.thy ===== *)
theory Entry
  imports Supervisord Supervisorctl Config_Behaviour Pidfile
begin

text \<open>
  The entry points: \<^verbatim>\<open>supervisor-app/src/main.cpp\<close> (daemon or client),
  \<^verbatim>\<open>args_parser.cpp\<close> (what is done with parsed options), \<^verbatim>\<open>supervisord_main\<close> of
  \<^verbatim>\<open>daemon/supervisord.cpp\<close> (configuration, umask, logging, pid file, the daemon and the
  destructors that run on every way out) and \<^verbatim>\<open>supervisorctl_main\<close> of
  \<^verbatim>\<open>ctl/supervisorctl.cpp\<close> (server URL, one command or the interactive loop). The parsing
  of the command line belongs to Boost.Program\_options and the event loop to Boost.Asio: both
  are parameters.
\<close>

section \<open>Daemon or client\<close>

datatype launch = RunDaemon "string list" | RunCtl "string list" bool

text \<open>
  \<open>std::rotate\<close> moves the argument at \<open>i\<close> behind the last one, and the argument count
  is reduced by one.
\<close>

definition without_arg :: "nat \<Rightarrow> string list \<Rightarrow> string list" where
  "without_arg i argv = take (length argv - 1) (take i argv @ rotate1 (drop i argv))"

function mode_loop :: "string list \<Rightarrow> nat \<Rightarrow> launch" where
  "mode_loop argv i =
     (if i < length argv then
        if argv ! i \<noteq> [] \<and> hd (argv ! i) = CHR ''-'' then
          if argv ! i \<noteq> ''-d'' \<and> argv ! i \<noteq> ''--daemon'' then mode_loop argv (i + 1)
          else RunDaemon (without_arg i argv)
        else if argv ! i \<noteq> ''d'' then RunCtl argv False
        else RunDaemon (without_arg i argv)
      else RunCtl argv False)"
  by pat_completeness auto
termination
  by (relation "measure (\<lambda>(argv, i). length argv - i)") auto

declare mode_loop.simps [simp del]

definition main_mode :: "string list \<Rightarrow> launch" where
  "main_mode argv =
     (let program_name = filename (hd argv) in
      if program_name = ''supervisorctl'' then RunCtl argv True
      else if program_name = ''supervisord'' then RunDaemon argv
      else mode_loop argv 1)"

section \<open>Options\<close>

text \<open>What the option parser reports: how often \<^verbatim>\<open>-v\<close> was given, and the positional arguments.\<close>

record options =
  op_help :: bool
  op_version :: bool
  op_configuration :: string
  op_verbose_given :: nat
  op_pidfile :: "string option"
  op_serverurl :: "string option"
  op_args :: "string list"

text \<open>The parser takes the declared options and the arguments, and throws on a bad command line.\<close>

type_synonym option_parser = "string list \<Rightarrow> string list \<Rightarrow> options res"

text \<open>\<open>CountValue::xparse\<close> runs once per occurrence: the count goes up and becomes the value.\<close>

definition count_xparse :: "nat \<times> nat \<Rightarrow> nat \<times> nat" where
  "count_xparse s = (case s of (count, store) \<Rightarrow> (Suc count, Suc count))"

definition verbosity :: "options \<Rightarrow> nat" where
  "verbosity vm = snd ((count_xparse ^^ op_verbose_given vm) (0, 0))"

datatype parsed = ShownVersion | ShownHelp | Parsed options

definition common_options :: "string list" where
  "common_options = [''help,h'', ''version'', ''configuration,c'', ''verbose,v'']"

definition parse_args :: "option_parser \<Rightarrow> string list \<Rightarrow> string list \<Rightarrow> logger \<Rightarrow> (parsed \<times> logger) res" where
  "parse_args po extra argv g =
     bind_res (po (common_options @ extra) argv) (\<lambda>vm.
       if op_version vm then Inr (ShownVersion, g)
       else if op_help vm then Inr (ShownHelp, g)
       else Inr (Parsed vm, if verbosity vm > 0 then increment_log_level (int (verbosity vm)) g else g))"

section \<open>The daemon's main function\<close>

text \<open>
  The state of the process, and what it is given. \<open>w_daemon\<close> is the daemon as its destructor
  left it, if one was created. \<open>io_context::run\<close> takes the daemon and its server, may end
  with an exception thrown by a handler, or not at all.
\<close>

record world =
  w_logger :: logger
  w_umask :: nat
  w_pid_os :: pid_os
  w_sys :: sys
  w_daemon :: "(daemon \<times> daemon rpc_server) option"

type_synonym event_run = "daemon \<times> daemon rpc_server \<Rightarrow> (exn option \<times> daemon \<times> daemon rpc_server) option"

record 'pt launch_env =
  le_po :: option_parser
  le_conf :: "'pt conf_env"
  le_socket :: socket_env
  le_pid :: int
  le_run_for :: daemon_slice
  le_run :: event_run

definition daemon_options :: "string list" where
  "daemon_options = [''nodaemon,n'', ''pidfile,p'']"

text \<open>\<open>Supervisord::run\<close> around the event loop.\<close>

definition supervisord_run ::
  "'pt launch_env \<Rightarrow> daemon \<times> daemon rpc_server \<Rightarrow> (int res \<times> daemon \<times> daemon rpc_server) option" where
  "supervisord_run le ds =
     (case run_startup (ce_os (le_conf le)) (le_socket le) (le_run_for le) (parse_file (le_conf le)) (fst ds) (snd ds) of
        (Some e, d, srv) \<Rightarrow> Some (Inl e, leave_run d, srv)
      | (None, ds) \<Rightarrow>
          (case le_run le ds of
             None \<Rightarrow> None
           | Some (Some e, d, srv) \<Rightarrow> Some (Inl e, leave_run d, srv)
           | Some (None, d, srv) \<Rightarrow> let (rc, srv) = run_finish srv in Some (Inr rc, leave_run d, srv)))"

text \<open>The destructors of the daemon's members: the server goes first, then the manager with its processes.\<close>

definition destroy_supervisord ::
  "'pt launch_env \<Rightarrow> daemon \<times> daemon rpc_server \<Rightarrow> (daemon \<times> daemon rpc_server) option" where
  "destroy_supervisord le ds =
     map_option (\<lambda>d. (with_sys d, destroy_server (snd ds)))
       (destroy_manager (le_run_for le) ((fst ds)) (dm_sys (fst ds)))"

text \<open>The pid file of the command line, else of the configuration, else none.\<close>

definition open_pidfile ::
  "'pt launch_env \<Rightarrow> options \<Rightarrow> configuration \<Rightarrow> pid_os \<Rightarrow> pid_file_guard option res \<times> pid_os" where
  "open_pidfile le vm config os =
     (let make = (\<lambda>path. let (r, os) = mk_pid_file_guard (ce_os (le_conf le)) path (le_pid le) os
                         in (bind_res r (\<lambda>g. Inr (Some g)), os))
      in case op_pidfile vm of
           Some path \<Rightarrow> make path
         | None \<Rightarrow>
             if sc_pidfile (cf_supervisord config) \<noteq> [] then make (sc_pidfile (cf_supervisord config))
             else (Inr None, os))"

definition close_pidfile :: "'pt launch_env \<Rightarrow> pid_file_guard option \<Rightarrow> pid_os \<Rightarrow> pid_os" where
  "close_pidfile le guard os = (case guard of None \<Rightarrow> os | Some g \<Rightarrow> destroy_guard g (le_pid le) os)"

text \<open>\<open>Supervisord{config}.run()\<close> with the guard alive: both are destroyed whatever happens.\<close>

definition run_guarded ::
  "'pt launch_env \<Rightarrow> configuration \<Rightarrow> pid_file_guard option \<Rightarrow> world \<Rightarrow> (int \<times> world) option" where
  "run_guarded le config guard w =
     Option.bind (supervisord_run le (mk_supervisord config (le_pid le) (w_sys w))) (\<lambda>(r, ds).
     Option.bind (destroy_supervisord le ds) (\<lambda>ds.
     let w = w\<lparr>w_daemon := Some ds, w_sys := dm_sys (fst ds)\<rparr>;
         (rc, w) = (case r of Inr rc \<Rightarrow> (rc, w\<lparr>w_logger := shutdown_logging (w_logger w)\<rparr>) | Inl e \<Rightarrow> (1, w))
     in Some (rc, w\<lparr>w_pid_os := close_pidfile le guard (w_pid_os w)\<rparr>)))"

definition supervisord_main :: "'pt launch_env \<Rightarrow> string list \<Rightarrow> world \<Rightarrow> (int \<times> world) option" where
  "supervisord_main le argv w =
     (case parse_args (le_po le) daemon_options argv (w_logger w) of
        Inl e \<Rightarrow> Some (1, w)
      | Inr (ShownVersion, g) \<Rightarrow> Some (0, w\<lparr>w_logger := g\<rparr>)
      | Inr (ShownHelp, g) \<Rightarrow> Some (0, w\<lparr>w_logger := g\<rparr>)
      | Inr (Parsed vm, g) \<Rightarrow>
          let w = w\<lparr>w_logger := g\<rparr> in
          (case parse_file (le_conf le) (op_configuration vm) of
             Inl e \<Rightarrow> Some (1, w)
           | Inr config \<Rightarrow>
               let sc = cf_supervisord config;
                   w = w\<lparr>w_umask := sc_umask sc mod 512,
                         w_logger := init_file_logging (sc_logfile sc) (sc_loglevel sc) (w_logger w)\<rparr>
               in case open_pidfile le vm config (w_pid_os w) of
                    (Inl e, os) \<Rightarrow> Some (1, w\<lparr>w_pid_os := os\<rparr>)
                  | (Inr guard, os) \<Rightarrow> run_guarded le config guard (w\<lparr>w_pid_os := os\<rparr>)))"

section \<open>The client's main function\<close>

definition default_serverurl :: string where
  "default_serverurl = ''unix:///run/supervisord.sock''"

text \<open>A file that cannot be opened reads as empty; an exception is reported and the default used.\<close>

definition resolve_serverurl :: "'pt conf_env \<Rightarrow> options \<Rightarrow> 'w ctl \<Rightarrow> string \<times> 'w ctl" where
  "resolve_serverurl ce vm k =
     (case op_serverurl vm of
        Some url \<Rightarrow> (url, k)
      | None \<Rightarrow>
          (case read_ini (ce_pt ce) (case ce_read ce (op_configuration vm) of Some s \<Rightarrow> filtered s | None \<Rightarrow> []) of
             Inr tree \<Rightarrow>
               (case get_str (ce_pt ce) tree ''supervisorctl.serverurl'' of
                  Some url \<Rightarrow> (url, k)
                | None \<Rightarrow> (default_serverurl, k))
           | Inl e \<Rightarrow> (default_serverurl, err (''Warning: Could not load config: '' @ what e @ [NL]) k)))"

definition socket_of_url :: "string \<Rightarrow> string option" where
  "socket_of_url serverurl =
     (if starts_with serverurl ''unix://'' then Some (drop 7 serverurl)
      else if starts_with serverurl ''/'' then Some serverurl
      else None)"

definition ctl_options :: "bool \<Rightarrow> string list" where
  "ctl_options called_supervisorctl = (if called_supervisorctl then [] else [''daemon,d'']) @ [''serverurl,s'']"

definition ctl_usage :: "string \<Rightarrow> string" where
  "ctl_usage name =
     [NL] @ ''Usage:'' @ [NL] @
     ''  '' @ name @ '' status           # Show all process status'' @ [NL] @
     ''  '' @ name @ '' start myapp      # Start a specific process'' @ [NL] @
     ''  '' @ name @ ''                  # Interactive mode'' @ [NL]"

text \<open>
  The client is made for a socket path; \<open>split\<close> is the word splitter and \<open>lines\<close> the
  standard input of the interactive loop.
\<close>

definition supervisorctl_main ::
  "option_parser \<Rightarrow> 'pt conf_env \<Rightarrow> (string \<Rightarrow> ('pt, 'w) client) \<Rightarrow> (string \<Rightarrow> string list) \<Rightarrow> string list \<Rightarrow>
   string list \<Rightarrow> bool \<Rightarrow> logger \<Rightarrow> 'w ctl \<Rightarrow> int \<times> 'w ctl" where
  "supervisorctl_main po ce mk_client split lines argv called_supervisorctl g k =
     (case parse_args po (ctl_options called_supervisorctl) argv g of
        Inl e \<Rightarrow> (1, err (''Error: '' @ what e @ [NL]) k)
      | Inr (ShownVersion, _) \<Rightarrow> (0, k)
      | Inr (ShownHelp, _) \<Rightarrow>
          (0, out (ctl_usage (if called_supervisorctl then ''supervisorctl'' else ''supervisor'')) (snd (cmdHelp [] k)))
      | Inr (Parsed vm, _) \<Rightarrow>
          let (serverurl, k) = resolve_serverurl ce vm k in
          (case socket_of_url serverurl of
             None \<Rightarrow>
               (1, err (''Error: '' @ [SQUOTE] @ serverurl @ [SQUOTE] @
                        '' is not a valid server URL; use a unix:// URL or a socket path'' @ [NL]) k)
           | Some socket_path \<Rightarrow>
               (case op_args vm of
                  [] \<Rightarrow> (0, interactive_mode (ce_boost ce) split (mk_client socket_path) lines k)
                | method # args \<Rightarrow> execute_command (mk_client socket_path) method args k)))"

section \<open>Which mode is chosen\<close>

definition plain_option :: "string \<Rightarrow> bool" where
  "plain_option a \<longleftrightarrow> a \<noteq> [] \<and> hd a = CHR ''-'' \<and> a \<notin> {''-d'', ''--daemon''}"

definition daemon_word :: "string \<Rightarrow> bool" where
  "daemon_word a \<longleftrightarrow> a \<in> {''-d'', ''--daemon'', ''d''}"

lemma without_arg_removes:
  assumes "i < length argv"
  shows "without_arg i argv = take i argv @ drop (Suc i) argv"
proof -
  have "drop i argv = argv ! i # drop (Suc i) argv" using assms by (simp add: Cons_nth_drop_Suc)
  then have "take i argv @ rotate1 (drop i argv) = (take i argv @ drop (Suc i) argv) @ [argv ! i]" by simp
  moreover have "length (take i argv @ drop (Suc i) argv) = length argv - 1" using assms by simp
  ultimately show ?thesis by (simp only: without_arg_def append_eq_conv_conj take_append) simp
qed

lemma mode_loop_eq:
  "mode_loop argv i =
     (case dropWhile plain_option (drop i argv) of
        [] \<Rightarrow> RunCtl argv False
      | a # rest \<Rightarrow> if daemon_word a then RunDaemon (take i argv @ takeWhile plain_option (drop i argv) @ rest)
                    else RunCtl argv False)"
proof (induction argv i rule: mode_loop.induct)
  case (1 argv i)
  show ?case
  proof (cases "i < length argv")
    case True
    then have d: "drop i argv = argv ! i # drop (Suc i) argv" by (simp add: Cons_nth_drop_Suc)
    show ?thesis
    proof (cases "plain_option (argv ! i)")
      case plain: True
      then have step: "mode_loop argv i = mode_loop argv (i + 1)"
        using True by (subst mode_loop.simps) (auto simp: plain_option_def)
      have t: "take (i + 1) argv = take i argv @ [argv ! i]" using True by (simp add: take_Suc_conv_app_nth)
      have "mode_loop argv (i + 1) =
          (case dropWhile plain_option (drop (i + 1) argv) of
             [] \<Rightarrow> RunCtl argv False
           | a # rest \<Rightarrow> if daemon_word a then RunDaemon (take (i + 1) argv @ takeWhile plain_option (drop (i + 1) argv) @ rest)
                         else RunCtl argv False)"
        using "1.IH"[OF True] plain unfolding plain_option_def by blast
      then show ?thesis unfolding step t d by (cases "dropWhile plain_option (drop (Suc i) argv)") (simp_all add: plain del: dropWhile_eq_Nil_conv)
    next
      case False
      then show ?thesis
        using True by (subst mode_loop.simps) (auto simp: d plain_option_def daemon_word_def without_arg_removes)
    qed
  qed (simp add: mode_loop.simps)
qed

text \<open>
  Auxiliary property: The binary runs as what it is called; under any other name it is the daemon exactly when
  the first argument that is not another option is one of the three daemon words, which is then
  removed from the arguments and nothing else, and the client otherwise.
\<close>

theorem main_mode_selection:
  "main_mode (prog # args) =
     (if filename prog = ''supervisorctl'' then RunCtl (prog # args) True
      else if filename prog = ''supervisord'' then RunDaemon (prog # args)
      else case dropWhile plain_option args of
             [] \<Rightarrow> RunCtl (prog # args) False
           | a # rest \<Rightarrow> if daemon_word a then RunDaemon (prog # takeWhile plain_option args @ rest)
                         else RunCtl (prog # args) False)"
  by (cases "dropWhile plain_option args") (simp_all add: main_mode_def mode_loop_eq Let_def del: dropWhile_eq_Nil_conv)

text \<open>The value of an option stops the search, so the daemon word after it is not seen.\<close>

lemma daemon_word_after_value_ignored:
  "main_mode [''supervisor'', ''-c'', ''x.conf'', ''-d''] = RunCtl [''supervisor'', ''-c'', ''x.conf'', ''-d''] False"
  by code_simp

lemma count_xparse_pow: "(count_xparse ^^ n) (0, 0) = (n, n)"
  by (induction n) (simp_all add: count_xparse_def)

lemma verbosity_counts: "verbosity vm = op_verbose_given vm"
  by (simp add: verbosity_def count_xparse_pow)

text \<open>
  Auxiliary property: The client talks to the URL of its command line, else of the configuration file, else,
  also when the file cannot be read or parsed, to the socket the daemon listens on by default.
\<close>

theorem client_finds_daemon:
  "(fst (resolve_serverurl ce vm k) =
     (case op_serverurl vm of
        Some url \<Rightarrow> url
      | None \<Rightarrow>
          (case map_sum id (\<lambda>t. get_str (ce_pt ce) t ''supervisorctl.serverurl'')
                  (read_ini (ce_pt ce) (case ce_read ce (op_configuration vm) of Some s \<Rightarrow> filtered s | None \<Rightarrow> [])) of
             Inr (Some url) \<Rightarrow> url
           | _ \<Rightarrow> default_serverurl))) \<and>
   socket_of_url default_serverurl = Some (cf_socket_file default_configuration) \<and>
   socket_of_url (''unix://'' @ path) = Some path \<and> socket_of_url (SLASH # path) = Some (SLASH # path)"
proof -
  have "socket_of_url default_serverurl = Some (cf_socket_file default_configuration)"
    by (simp add: socket_of_url_def default_serverurl_def default_configuration_def starts_with_def)
  then show ?thesis
    by (auto simp: resolve_serverurl_def socket_of_url_def starts_with_def split: option.splits sum.splits)
qed

end
