(* ===== verification/System.thy ===== *)
theory System
  imports Entry
begin

text \<open>
  The daemon as one reactive system: every RPC call, signal, timer tick and piece of captured
  output is a step on its state. Invariants of the parts are put together: what the configuration parser guarantees of
  a program holds of every program ever supervised, and whichever way the main function ends,
  no child, no lock and no running server is left behind.
\<close>

section \<open>Steps of the daemon and its connections\<close>

text \<open>
  A handler runs only for an operation that is outstanding: a wait for a signal, the timer, a
  posted action, a read of a child's output.
\<close>

inductive daemon_event :: "'pt conf_env \<Rightarrow> daemon_slice \<Rightarrow> daemon \<Rightarrow> daemon \<Rightarrow> bool" for ce run_for where
  terminate: "dm_term_wait d \<Longrightarrow> on_terminate run_for e d = Some d' \<Longrightarrow> daemon_event ce run_for d d'"
| hangup: "dm_hup_wait d \<Longrightarrow> on_sighup run_for (parse_file ce) e d = Some d' \<Longrightarrow> daemon_event ce run_for d d'"
| posted: "dm_posted d > 0 \<Longrightarrow> on_posted_shutdown run_for d = Some d' \<Longrightarrow> daemon_event ce run_for d d'"
| child: "mg_signal_wait d \<Longrightarrow>
    daemon_event ce run_for d (with_sys (on_signal e d (dm_sys d)))"
| timer: "mg_timer_wait d \<Longrightarrow>
    daemon_event ce run_for d (with_sys (on_timer e d (dm_sys d)))"
| captured: "map_of (mg_processes d) n = Some p \<Longrightarrow>
    p_stdout_reads p > 0 \<and> handle_stdout_read ec data p (dm_sys d) = (p', sy') \<or>
    p_stderr_reads p > 0 \<and> handle_stderr_read ec data p (dm_sys d) = (p', sy') \<Longrightarrow>
    daemon_event ce run_for d (with_sys (d\<lparr>mg_processes := map_put n p' (mg_processes d)\<rparr>, sy'))"

text \<open>
  The whole service: the daemon, its server and every connection accepted so far. A client may
  connect at any time while an accept is outstanding, and send any bytes on its connection. What other
  connections do while a handler waits for a child is a slice of the event loop inside that handler.
\<close>

record service =
  sv_daemon :: daemon
  sv_server :: "daemon rpc_server"
  sv_connections :: "connection list"

inductive service_step ::
  "'pt conf_env \<Rightarrow> daemon_slice \<Rightarrow> service \<Rightarrow> service \<Rightarrow> bool" for ce run_for where
  event: "daemon_event ce run_for (sv_daemon s) d \<Longrightarrow> service_step ce run_for s (s\<lparr>sv_daemon := d\<rparr>)"
| accepted: "rs_accepting (sv_server s) \<Longrightarrow> handle_accept e new_connection (sv_server s) = (c, srv) \<Longrightarrow>
    service_step ce run_for s (s\<lparr>sv_server := srv, sv_connections := sv_connections s @ [c]\<rparr>)"
| received: "i < length (sv_connections s) \<Longrightarrow> c = sv_connections s ! i \<Longrightarrow> cn_reading c \<Longrightarrow>
    handle_read (ce_boost ce) (ce_pt ce) (Some (connection_dispatcher (Some (sv_server s)))) e bytes c (sv_daemon s) = Some (Inr (c', d)) \<Longrightarrow>
    service_step ce run_for s (s\<lparr>sv_daemon := d, sv_connections := (sv_connections s)[i := c']\<rparr>)"
| written: "i < length (sv_connections s) \<Longrightarrow> c = sv_connections s ! i \<Longrightarrow> cn_written c \<noteq> [] \<Longrightarrow> cn_open c \<Longrightarrow>
    service_step ce run_for s (s\<lparr>sv_connections := (sv_connections s)[i := handle_write c]\<rparr>)"

text \<open>Every program under supervision passes the parser's checks.\<close>

definition supervised_safe :: "os_env \<Rightarrow> daemon \<Rightarrow> bool" where
  "supervised_safe oe d \<longleftrightarrow> list_all (\<lambda>(n, c). program_safe oe c) (configs (mg_processes d))"

definition daemon_safe :: "'pt conf_env \<Rightarrow> daemon \<Rightarrow> bool" where
  "daemon_safe ce d \<longleftrightarrow> daemon_inv d \<and> supervised_safe (ce_os ce) d"

text \<open>Of the whole service: the daemon is safe, its handlers are the registered ones, every connection is bounded.\<close>

definition service_safe :: "'pt conf_env \<Rightarrow> daemon_slice \<Rightarrow> service \<Rightarrow> bool" where
  "service_safe ce run_for s \<longleftrightarrow>
     daemon_safe ce (sv_daemon s) \<and>
     rs_handlers (sv_server s) = rs_handlers (register_rpc_handlers run_for (parse_file ce) (mk_rpc_server [])) \<and>
     list_all conn_inv (sv_connections s)"

lemma list_all_update: "list_all P xs \<Longrightarrow> P y \<Longrightarrow> list_all P (xs[i := y])"
  by (auto simp: list_all_iff dest!: set_update_subset_insert[THEN subsetD])

text \<open>A step of the manager that keeps its registry keeps the daemon safe.\<close>

lemma safe_keeps:
  assumes "daemon_safe ce d" "keeps_all d (dm_sys d) m' sy'" "mg_processes d' = mg_processes m'" "dm_sys d' = sy'"
  shows "daemon_safe ce d'"
  using assms manager_of_daemon(1)[OF assms(3)]
  by (auto simp: daemon_safe_def daemon_inv_def keeps_all_def supervised_safe_def)

lemma safe_same:
  "daemon_safe ce d \<Longrightarrow> mg_processes d' = mg_processes d \<Longrightarrow> dm_sys d' = dm_sys d \<Longrightarrow> daemon_safe ce d'"
  by (auto simp: daemon_safe_def daemon_inv_def supervised_safe_def mgr_inv_def)

lemma safe_update [simp]:
  "daemon_safe ce (d\<lparr>dm_state := v0\<rparr>) = daemon_safe ce d" "daemon_safe ce (d\<lparr>dm_config := v1\<rparr>) = daemon_safe ce d"
  "daemon_safe ce (d\<lparr>dm_posted := v2\<rparr>) = daemon_safe ce d" "daemon_safe ce (d\<lparr>dm_loop_stopped := v3\<rparr>) = daemon_safe ce d"
  "daemon_safe ce (d\<lparr>dm_term_wait := v4\<rparr>) = daemon_safe ce d" "daemon_safe ce (d\<lparr>dm_hup_wait := v5\<rparr>) = daemon_safe ce d"
  "daemon_safe ce (d\<lparr>dm_sigpipe_ignored := v6\<rparr>) = daemon_safe ce d"
  by (simp_all add: daemon_safe_def daemon_inv_def supervised_safe_def)

lemma safe_registry:
  assumes "daemon_inv d" "\<And>x c. config_of d x = Some c \<Longrightarrow> program_safe (ce_os ce) c"
  shows "daemon_safe ce d"
proof -
  let ?cs = "configs (mg_processes d)"
  have "distinct (map fst ?cs)"
    using assms(1) map_wf_distinct configs_fst by (metis daemon_inv_def mgr_inv_def)
  then have "map_of ?cs n = Some c" if "(n, c) \<in> set ?cs" for n c using that by simp
  with assms show ?thesis by (auto simp: daemon_safe_def supervised_safe_def list_all_iff config_of_def)
qed

lemma programs_map_safe:
  "parse_file ce f = Inr c \<Longrightarrow> programs_map (cf_programs c) x = Some p \<Longrightarrow> program_safe (ce_os ce) p"
  using parse_file_config_ok[of ce f c] programs_map_SomeD[of "cf_programs c" x p]
  by (auto simp: config_ok_def list_all_iff)

lemma get_info_frame: "sys_core (snd (get_info p sy)) = sys_core sy"
  by (auto simp: get_info_def get_uptime_def system_now_def steady_now_def sys_core_def Let_def)

lemma collect_info_frame: "sys_core (snd (collect_info ps sy)) = sys_core sy"
proof (induction ps arbitrary: sy)
  case (Cons e ps)
  then show ?case by (cases e) (simp add: case_prod_unfold Let_def get_info_frame)
qed simp

lemma safe_sys_core:
  "daemon_safe ce d \<Longrightarrow> sys_core sy' = sys_core (dm_sys d) \<Longrightarrow> daemon_safe ce (d\<lparr>dm_sys := sy'\<rparr>)"
  by (auto simp: daemon_safe_def daemon_inv_def supervised_safe_def mgr_inv_def sys_ok_def sys_core_def
      kills_positive_def fork_ret_ok_def)

section \<open>Each handler keeps the daemon safe\<close>

lemma start_all_keeps: "mgr_inv m sy \<Longrightarrow> keeps_all m sy (fst (start_all m sy)) (snd (start_all m sy))"
  using keeps_own_all[OF each_keeps[OF start_op _ surjective_pairing, of m sy]]
  by (cases "mg_processes m = []") (simp_all add: start_all_def keeps_all_def case_prod_unfold Let_def)

lemma read_successor:
  assumes "handle_stdout_read ec data p sy = (p', sy') \<or> handle_stderr_read ec data p sy = (p', sy')"
  shows "successor p sy p' sy'"
proof -
  have "core p' = core p" "sys_core sy' = sys_core sy" using assms handle_read_frame by blast+
  moreover have "sy_reads sy' = sy_reads sy"
    using assms by (auto simp: handle_stdout_read_def handle_stderr_read_def close_stream_def sys_close_def writer_flush_def
        writer_write_def Let_def split: if_splits prod.splits option.splits)
  ultimately show ?thesis using pinv_core[of p' p sy' sy] by (simp add: successor_def core_def sys_core_def)
qed

lemma info_handlers_safe:
  assumes "daemon_safe ce d"
  shows "rpc_get_all_process_info ps d = Some (r, d') \<Longrightarrow> daemon_safe ce d'"
    and "rpc_get_process_info ps d = Some (r, d') \<Longrightarrow> daemon_safe ce d'"
  using assms safe_sys_core[OF assms collect_info_frame] safe_sys_core[OF assms get_info_frame]
  by (auto simp: rpc_get_all_process_info_def rpc_get_process_info_def get_all_process_info_def case_prod_unfold Let_def
      split: list.splits option.splits)

lemma start_handlers_safe:
  assumes "daemon_safe ce d"
  shows "rpc_start_process ps d = Some (r, d') \<Longrightarrow> daemon_safe ce d'"
    and "rpc_start_all ps d = Some (r, d') \<Longrightarrow> daemon_safe ce d'"
proof -
  have inv: "mgr_inv d (dm_sys d)" using assms by (simp add: daemon_safe_def daemon_inv_def)
  have "daemon_safe ce (with_sys ms)" if "start_process n d (dm_sys d) = (ok, ms)" for n ok ms
    using start_process_keeps[OF inv, of n ok "fst ms" "snd ms"] that
    by (intro safe_keeps[OF assms]) (auto simp: with_sys_def)
  with assms show "rpc_start_process ps d = Some (r, d') \<Longrightarrow> daemon_safe ce d'"
    by (auto simp: rpc_start_process_def Let_def split: list.splits option.splits if_splits prod.splits)
  have "daemon_safe ce (with_sys (start_all d (dm_sys d)))"
    by (rule safe_keeps[OF assms start_all_keeps[OF inv]]) (simp_all add: with_sys_def)
  then show "rpc_start_all ps d = Some (r, d') \<Longrightarrow> daemon_safe ce d'"
    unfolding rpc_start_all_def by (rule info_handlers_safe(1))
qed

text \<open>The event loop of a daemon: its slices act on the whole daemon.\<close>

locale daemon_loop = event_loop run_for for run_for :: daemon_slice
begin

lemma stop_all_safe:
  assumes "daemon_safe ce d" "stop_all run_for d (dm_sys d) = Some ms"
  shows "daemon_safe ce (with_sys ms) \<and> \<not> has_running_processes (fst ms)"
proof -
  obtain m' sy' where "ms = (m', sy')" "keeps_all d (dm_sys d) m' sy'" "\<not> has_running_processes m'"
    using stop_all_returns[of d "dm_sys d"] assms by (auto simp: daemon_safe_def daemon_inv_def)
  then show ?thesis using safe_keeps[OF assms(1)] by (simp add: with_sys_def)
qed

lemma stop_handlers_safe:
  assumes "daemon_safe ce d"
  shows "rpc_stop_process run_for ps d = Some (r, d') \<Longrightarrow> daemon_safe ce d'"
    and "rpc_stop_all run_for ps d = Some (r, d') \<Longrightarrow> daemon_safe ce d'"
proof -
  have inv: "mgr_inv d (dm_sys d)" "clock_runs (sy_steady (dm_sys d))"
    using assms by (simp_all add: daemon_safe_def daemon_inv_def)
  have "daemon_safe ce (with_sys ms)" if "stop_process run_for n d (dm_sys d) = Some (ok, ms)" for n ok ms
  proof -
    have "keeps_all d (dm_sys d) (fst ms) (snd ms)"
      using stop_process_returns[OF inv, of n] that by (cases ms) auto
    then show ?thesis by (intro safe_keeps[OF assms]) (simp_all add: with_sys_def)
  qed
  with assms show "rpc_stop_process run_for ps d = Some (r, d') \<Longrightarrow> daemon_safe ce d'"
    by (auto simp: rpc_stop_process_def Let_def split: list.splits option.splits if_splits bind_splits)
  show "rpc_stop_all run_for ps d = Some (r, d') \<Longrightarrow> daemon_safe ce d'"
    using stop_all_safe[OF assms] info_handlers_safe(1)
    by (auto simp: rpc_stop_all_def split: bind_splits)
qed

lemma reload_safe:
  assumes "daemon_safe ce d" "reload_config run_for (parse_file ce) d = Some d'"
  shows "daemon_safe ce d'"
proof (cases "cf_config_file (dm_config d) = [] \<or> dm_state d = DaemonRestarting")
  case True
  then have "d' = d" using assms(2) by (cases "cf_config_file (dm_config d) = []") (simp_all add: reload_config_def)
  with assms(1) show ?thesis by simp
next
  case False
  show ?thesis
  proof (cases "parse_file ce (cf_config_file (dm_config d))")
    case (Inl e)
    with assms False show ?thesis by (auto simp: reload_config_def Let_def intro: safe_same[OF assms(1)])
  next
    case (Inr c)
    have inv: "mgr_inv d (dm_sys d)" "clock_runs (sy_steady (dm_sys d))"
      using assms(1) by (simp_all add: daemon_safe_def daemon_inv_def)
    obtain m' sy' where s: "sync_processes run_for (cf_programs c) (d\<lparr>dm_state := DaemonRestarting\<rparr>) (dm_sys d) = Some (m', sy')"
      "changes_to (dm_sys d) m' sy' (programs_map (cf_programs c))"
      using sync_processes_returns[of "d\<lparr>dm_state := DaemonRestarting\<rparr>" "dm_sys d" "cf_programs c"] inv by auto
    have d': "mg_processes d' = mg_processes m'" "dm_sys d' = sy'"
      using assms(2) False Inr s(1) by (auto simp: reload_config_def with_sys_def Let_def)
    show ?thesis
      using s(2) inv(2) d' programs_map_safe[OF Inr] manager_of_daemon(1,5)[OF d'(1)]
      by (intro safe_registry) (auto simp: changes_to_def daemon_inv_def)
  qed
qed

lemma dispatch_safe:
  assumes "daemon_safe ce d" "dispatch_method (register_rpc_handlers run_for (parse_file ce) srv) meth params d = Some (r, d')"
    and "rs_handlers srv = []"
  shows "daemon_safe ce d'"
  using assms(2,3)
  unfolding register_rpc_handlers_def register_process_handlers_def dispatch_register
  by (auto simp: dispatch_method_def rpc_get_pid_def rpc_get_identification_def rpc_api_version_def
      rpc_shutdown_def rpc_get_state_def rpc_reload_config_def assms(1)
      split: if_splits
      intro: safe_same[OF assms(1)] info_handlers_safe[OF assms(1)] start_handlers_safe[OF assms(1)]
        stop_handlers_safe[OF assms(1)] reload_safe[OF assms(1)])

lemma daemon_event_safe: "daemon_event ce run_for d d' \<Longrightarrow> daemon_safe ce d \<Longrightarrow> daemon_safe ce d'"
proof (induction rule: daemon_event.induct)
  case (terminate d e d')
  then have s: "daemon_safe ce (d\<lparr>dm_term_wait := False, dm_state := DaemonShutdown\<rparr>)" by simp
  with terminate(2,3) show ?case
    using stop_all_safe[OF s] by (auto simp: on_terminate_def Let_def split: if_splits)
next
  case (hangup d e d')
  then have s: "daemon_safe ce (d\<lparr>dm_hup_wait := False\<rparr>)" by simp
  with hangup(2,3) reload_safe[OF s] show ?case
    by (auto simp: on_sighup_def Let_def split: if_splits)
next
  case (posted d d')
  then have s: "daemon_safe ce (d\<lparr>dm_posted := dm_posted d - 1\<rparr>)" by simp
  with posted(2) show ?case
    using stop_all_safe[OF s] by (auto simp: on_posted_shutdown_def Let_def)
next
  case (child d e)
  then have "keeps_all d (dm_sys d) (fst (on_signal e d (dm_sys d))) (snd (on_signal e d (dm_sys d)))"
    by (intro on_signal_keeps(1)[of _ _ e]) (simp_all add: daemon_safe_def daemon_inv_def)
  from safe_keeps[OF child(2) this] show ?case by (simp add: with_sys_def)
next
  case (timer d e)
  then have "keeps_all d (dm_sys d) (fst (on_timer e d (dm_sys d))) (snd (on_timer e d (dm_sys d)))"
    by (intro on_timer_keeps(1)[of _ _ e]) (simp_all add: daemon_safe_def daemon_inv_def)
  from safe_keeps[OF timer(2) this] show ?case by (simp add: with_sys_def)
next
  case (captured d n p ec data p' sy')
  then have "mgr_inv d (dm_sys d)" by (simp add: daemon_safe_def daemon_inv_def)
  moreover have "successor p (dm_sys d) p' sy'" using captured(2) by (intro read_successor) blast
  ultimately show ?case
    using safe_keeps[OF captured(3) put_keeps[OF _ captured(1)]] by (simp add: with_sys_def)
qed

lemma request_safe:
  assumes "daemon_safe ce d" "rs_handlers srv = rs_handlers (register_rpc_handlers run_for (parse_file ce) (mk_rpc_server []))"
    and "process_request api (Some (connection_dispatcher (Some srv))) q c d = Some (c', d')"
  shows "daemon_safe ce d'"
proof -
  have "dispatch_method srv m ps x = dispatch_method (register_rpc_handlers run_for (parse_file ce) (mk_rpc_server [])) m ps x" for m ps x
    using assms(2) by (simp add: dispatch_method_def)
  moreover have "rs_handlers (mk_rpc_server []) = []" by (simp add: mk_rpc_server_def)
  ultimately have "daemon_safe ce x" if "dispatch_method srv m ps d = Some (r, x)" for m ps r x
    using that dispatch_safe[OF assms(1)] by metis
  moreover obtain r where "run_request api (Some (connection_dispatcher (Some srv))) q d = Some (r, d')"
    using assms(3) by (auto simp: process_request_def)
  then have "d' = d \<or> (\<exists>m ps r. dispatch_method srv m ps d = Some (r, d'))"
    by (auto simp: run_request_def connection_dispatcher_def split: option.splits sum.splits)
  ultimately show ?thesis using assms(1) by blast
qed

lemma service_step_safe: "service_step ce run_for s t \<Longrightarrow> service_safe ce run_for s \<Longrightarrow> service_safe ce run_for t"
proof (induction rule: service_step.induct)
  case (event s d)
  then show ?case by (auto simp: service_safe_def intro: daemon_event_safe)
next
  case (accepted s e c srv)
  then show ?case
    by (auto simp: service_safe_def handle_accept_def start_accept_def do_call_def start_connection_def begin_read_def
        new_connection_def conn_inv_def Let_def)
next
  case (received i s c e bytes c' d)
  have c: "conn_inv c" using received(1,2,5) by (simp add: service_safe_def list_all_length)
  have ds: "daemon_safe ce (sv_daemon s)"
    and h: "rs_handlers (sv_server s) = rs_handlers (register_rpc_handlers run_for (parse_file ce) (mk_rpc_server []))"
    using received(5) by (simp_all add: service_safe_def)
  have "daemon_safe ce d"
    using received(4)
  proof (cases rule: handle_read_cases)
    case (complete k)
    then show ?thesis using request_safe[OF ds h] by blast
  qed (simp_all add: ds)
  with handle_read_keeps[OF received(4,3) c] received(5) show ?case
    by (simp add: service_safe_def list_all_update)
next
  case (written i s c)
  then have "conn_inv (handle_write c)" by (simp add: service_safe_def list_all_length conn_inv_def handle_write_def)
  with written(5) show ?case by (simp add: service_safe_def list_all_update)
qed

end

section \<open>The service's state machine\<close>

text \<open>With a well-behaved event loop every step of the service keeps it safe.\<close>

interpretation own_daemon: daemon_loop manager_slice
  by (rule daemon_loop.intro) (rule own_handlers.event_loop_axioms)

interpretation own_service: transition_system "service_step ce manager_slice" "service_safe ce manager_slice"
  for ce :: "'pt conf_env"
  by unfold_locales (rule own_daemon.service_step_safe)

lemma service_steps_safe:
  "event_loop run_for \<Longrightarrow> (service_step ce run_for)\<^sup>*\<^sup>* s t \<Longrightarrow> service_safe ce run_for s \<Longrightarrow> service_safe ce run_for t"
  by (rule transition_system.steps_preserve[OF transition_system.intro])
    (rule daemon_loop.service_step_safe[OF daemon_loop.intro])

lemma add_programs_changes:
  "mgr_inv m sy \<Longrightarrow> changes_to sy (fst (add_programs progs (m, sy))) (snd (add_programs progs (m, sy)))
     (\<lambda>x. case programs_map progs x of Some c \<Rightarrow> Some c | None \<Rightarrow> config_of m x)"
proof (induction progs arbitrary: m sy)
  case Nil
  then show ?case by (simp add: changes_to_def)
next
  case (Cons c progs)
  obtain m1 sy1 where a: "add_process c m sy = (m1, sy1)" by fastforce
  note c1 = add_process_changes[OF Cons.prems a]
  then have "mgr_inv m1 sy1" by (simp add: changes_to_def)
  from Cons.IH[OF this] c1 show ?case
    by (auto simp: a changes_to_def programs_map_Cons fun_eq_iff split: option.splits)
qed

lemma add_programs_waits: "mg_timer_wait (fst (add_programs progs ms)) = mg_timer_wait (fst ms)"
  by (induction progs ms rule: add_programs.induct) (auto simp: add_process_def case_prod_unfold Let_def)

lemma mk_supervisord_waits: "mk_supervisord c pid sy = (d, srv) \<Longrightarrow> mg_timer_wait d"
  by (auto simp: mk_supervisord_def add_programs_waits Let_def mk_manager_def begin_update_timer_def with_sys_def
      manager.defs)

lemma mk_supervisord_server: "mk_supervisord c pid sy = (d, srv) \<Longrightarrow> rs_handlers srv = []"
  by (auto simp: mk_supervisord_def case_prod_unfold Let_def mk_rpc_server_def)

lemma registered_handlers:
  "rs_handlers srv = [] \<Longrightarrow> rs_handlers (register_rpc_handlers run_for pf srv) =
     rs_handlers (register_rpc_handlers run_for pf (mk_rpc_server []))"
  by (simp add: register_rpc_handlers_def register_process_handlers_def register_handler_def mk_rpc_server_def)

lemma mk_supervisord_safe:
  assumes "parse_file ce f = Inr c" "sys_ok sy" "clock_runs (sy_steady sy)"
  shows "daemon_safe ce (fst (mk_supervisord c pid sy))"
proof -
  let ?d = "manager.extend (mk_manager 1000)
    \<lparr>dm_config = c, dm_sys = sy, dm_state = DaemonRunning, dm_posted = 0, dm_loop_stopped = False, dm_getpid = pid,
     dm_term_wait = False, dm_hup_wait = False, dm_sigpipe_ignored = False\<rparr>"
  let ?ms = "add_programs (cf_programs c) (?d, sy)"
  have "mgr_inv ?d sy" and none: "config_of ?d = Map.empty"
    using assms(2) by (simp_all add: mgr_inv_def mk_manager_def begin_update_timer_def begin_signal_handler_def
        config_of_def configs_def manager.defs)
  from add_programs_changes[OF this(1), of "cf_programs c"]
  have "mgr_inv (fst ?ms) (snd ?ms)" "sy_steady (snd ?ms) = sy_steady sy" "config_of (fst ?ms) = programs_map (cf_programs c)"
    by (auto simp: changes_to_def none fun_eq_iff split: option.splits)
  with assms(3) programs_map_safe[OF assms(1)] show ?thesis
    by (intro safe_registry) (auto simp: mk_supervisord_def daemon_inv_def with_sys_def Let_def)
qed

text \<open>
  C5: From its construction on, through any sequence of connections, bytes sent on them in any
  pieces and order, RPC calls, reloads, child exits, timer ticks and shutdown requests, the daemon
  only ever supervises programs that passed every check of the configuration parser, the
  manager's invariant holds in between, and every connection holds at most one megabyte of request
  and one response.
\<close>

theorem only_checked_programs_are_supervised:
  assumes "event_loop run_for" "parse_file ce f = Inr c" "sys_ok sy" "clock_runs (sy_steady sy)"
    and "mk_supervisord c pid sy = (d, srv)"
    and "(service_step ce run_for)\<^sup>*\<^sup>*
      \<lparr>sv_daemon = d, sv_server = register_rpc_handlers run_for (parse_file ce) srv, sv_connections = []\<rparr> s"
  shows "daemon_inv (sv_daemon s) \<and> supervised_safe (ce_os ce) (sv_daemon s) \<and>
    list_all (\<lambda>x. length (cn_request_data x) \<le> 1024 * 1024 \<and> length (cn_written x) \<le> 1) (sv_connections s)"
proof -
  have "daemon_safe ce d" using mk_supervisord_safe[OF assms(2-4), of pid] assms(5) by simp
  then have "service_safe ce run_for
      \<lparr>sv_daemon = d, sv_server = register_rpc_handlers run_for (parse_file ce) srv, sv_connections = []\<rparr>"
    using mk_supervisord_server[OF assms(5)] by (simp add: service_safe_def registered_handlers[of srv])
  from service_steps_safe[OF assms(1,6) this] show ?thesis
    by (auto simp: service_safe_def daemon_safe_def conn_inv_def MAX_REQUEST_SIZE_def list_all_iff)
qed

theorem only_checked_programs_are_supervised_witness:
  "\<exists>d srv. mk_supervisord (default_configuration\<lparr>cf_config_file := ''/etc/s.conf'', cf_included := [''/etc/s.conf''],
       cf_programs := [sample_web]\<rparr>) 1 (snd sample_started) = (d, srv) \<and>
     daemon_inv (with_sys (on_timer False d (dm_sys d))) \<and>
     supervised_safe plain_env (with_sys (on_timer False d (dm_sys d)))"
proof -
  let ?c = "default_configuration\<lparr>cf_config_file := ''/etc/s.conf'', cf_included := [''/etc/s.conf''], cf_programs := [sample_web]\<rparr>"
  obtain d srv where m: "mk_supervisord ?c 1 (snd sample_started) = (d, srv)" by fastforce
  let ?s = "\<lparr>sv_daemon = d, sv_server = register_rpc_handlers manager_slice (parse_file sample_conf) srv, sv_connections = []\<rparr>"
  have "mg_timer_wait d" using m mk_supervisord_waits by blast
  then have "daemon_event sample_conf manager_slice (sv_daemon ?s) (with_sys (on_timer False d (dm_sys d)))"
    by (simp add: daemon_event.timer)
  then have steps: "(service_step sample_conf manager_slice)\<^sup>*\<^sup>* ?s
      (?s\<lparr>sv_daemon := with_sys (on_timer False d (dm_sys d))\<rparr>)"
    by (intro r_into_rtranclp service_step.event)
  have "sys_ok (snd sample_started)" using sample_manager_ok by (simp add: mgr_inv_def)
  from only_checked_programs_are_supervised[OF own_handlers.event_loop_axioms sample_conf_parsed this sample_clock m steps]
  have "daemon_inv (with_sys (on_timer False d (dm_sys d))) \<and>
      supervised_safe plain_env (with_sys (on_timer False d (dm_sys d)))"
    by (simp add: sample_conf_def)
  with m show ?thesis by blast
qed

section \<open>Leaving the main function\<close>

text \<open>The event loop runs nothing but the daemon's handlers and connections.\<close>

definition runs_handlers :: "'pt launch_env \<Rightarrow> bool" where
  "runs_handlers le \<longleftrightarrow>
     (\<forall>d srv. \<exists>e s. le_run le (d, srv) = Some (e, sv_daemon s, sv_server s) \<and>
        (service_step (le_conf le) (le_run_for le))\<^sup>*\<^sup>* \<lparr>sv_daemon = d, sv_server = srv, sv_connections = []\<rparr> s)"

definition holds_no_lock :: "int \<Rightarrow> pid_os \<Rightarrow> bool" where
  "holds_no_lock me os \<longleftrightarrow> (\<forall>i. po_lock os i \<noteq> Some me)"

lemma start_server_handlers:
  "start_server oe se srv = (e, srv') \<Longrightarrow> rs_handlers srv' = rs_handlers srv"
  by (auto simp: start_server_def do_call_def start_accept_def Let_def split: sum.splits if_splits)

lemma run_startup_safe:
  assumes "daemon_safe (le_conf le) d" "rs_handlers srv = []"
    and "run_startup oe se (le_run_for le) (parse_file (le_conf le)) d srv = (e, d', srv')"
  shows "service_safe (le_conf le) (le_run_for le) \<lparr>sv_daemon = d', sv_server = srv', sv_connections = []\<rparr>"
proof -
  let ?d = "d\<lparr>dm_term_wait := True, dm_hup_wait := True, dm_sigpipe_ignored := True\<rparr>"
  have d: "daemon_safe (le_conf le) ?d" using assms(1) by (rule safe_same) simp_all
  then have inv: "mgr_inv ?d (dm_sys ?d)" by (simp add: daemon_safe_def daemon_inv_def)
  have "daemon_safe (le_conf le) (with_sys (start_all ?d (dm_sys ?d)))"
    using safe_keeps[OF d start_all_keeps[OF inv]] by (simp add: with_sys_def)
  with d assms(3) have "daemon_safe (le_conf le) d'"
    by (auto simp: run_startup_def Let_def split: prod.splits option.splits)
  moreover have "rs_handlers srv' = rs_handlers (register_rpc_handlers (le_run_for le) (parse_file (le_conf le)) srv)"
    using assms(3) by (auto simp: run_startup_def Let_def dest: start_server_handlers split: prod.splits option.splits)
  ultimately show ?thesis using registered_handlers[OF assms(2)] by (simp add: service_safe_def)
qed

lemma supervisord_run_returns:
  assumes "event_loop (le_run_for le)" "runs_handlers le" "daemon_safe (le_conf le) (fst ds)" "rs_handlers (snd ds) = []"
  shows "\<exists>r d srv. supervisord_run le ds = Some (r, d, srv) \<and> daemon_safe (le_conf le) d \<and> r \<in> insert (Inr 0) (range Inl)"
proof -
  obtain e d1 srv1 where st: "run_startup (ce_os (le_conf le)) (le_socket le) (le_run_for le) (parse_file (le_conf le))
      (fst ds) (snd ds) = (e, d1, srv1)" by (metis prod_cases3)
  let ?s = "\<lparr>sv_daemon = d1, sv_server = srv1, sv_connections = []\<rparr>"
  have leave: "daemon_safe (le_conf le) (leave_run x)" if "daemon_safe (le_conf le) x" for x
    using that by (rule safe_same) (simp_all add: leave_run_def)
  note s1 = run_startup_safe[OF assms(3,4) st]
  show ?thesis
  proof (cases e)
    case (Some x)
    with st s1 leave show ?thesis by (auto simp: supervisord_run_def service_safe_def)
  next
    case None
    obtain e' s where r: "le_run le (d1, srv1) = Some (e', sv_daemon s, sv_server s)"
      "(service_step (le_conf le) (le_run_for le))\<^sup>*\<^sup>* ?s s"
      using assms(2) unfolding runs_handlers_def by blast
    have "daemon_safe (le_conf le) (sv_daemon s)"
      using service_steps_safe[OF assms(1) r(2) s1] by (simp add: service_safe_def)
    with leave r(1) st None show ?thesis by (cases e') (auto simp: supervisord_run_def run_finish_def)
  qed
qed

lemma destroy_supervisord_returns:
  assumes "event_loop (le_run_for le)" "daemon_safe ce d"
  shows "\<exists>d' srv'. destroy_supervisord le (d, srv) = Some (d', srv') \<and>
    list_all (\<lambda>(n, p). released p) (mg_processes d') \<and> \<not> rs_running srv' \<and> \<not> rs_acceptor_open srv'"
proof -
  obtain m' sy' where "destroy_manager (le_run_for le) d (dm_sys d) = Some (m', sy')"
    "list_all (\<lambda>(n, p). released p) (mg_processes m')"
    using event_loop_destroy_manager[OF assms(1), of d "dm_sys d"] assms(2)
    by (auto simp: daemon_safe_def daemon_inv_def)
  then show ?thesis by (simp add: destroy_supervisord_def with_sys_def destroyed_server)
qed

lemma guard_lock_released:
  assumes "mk_pid_file_guard oe path me os = (r, os')" "holds_no_lock me os"
  shows "case r of Inl e \<Rightarrow> holds_no_lock me os' | Inr g \<Rightarrow> holds_no_lock me (destroy_guard g me os')"
  using assms
  by (auto simp: mk_pid_file_guard_def destroy_guard_def pid_syscalls holds_no_lock_def Let_def
      split: sum.splits option.splits prod.splits if_splits bool.splits)

lemma pidfile_released:
  assumes "open_pidfile le vm config os = (r, os')" "holds_no_lock (le_pid le) os"
  shows "case r of Inl e \<Rightarrow> holds_no_lock (le_pid le) os' | Inr g \<Rightarrow> holds_no_lock (le_pid le) (close_pidfile le g os')"
proof -
  let ?M = "\<lambda>path. mk_pid_file_guard (ce_os (le_conf le)) path (le_pid le) os"
  have made: "case r of Inl e \<Rightarrow> holds_no_lock (le_pid le) os' | Inr g \<Rightarrow> holds_no_lock (le_pid le) (close_pidfile le g os')"
    if "bind_res (fst (?M path)) (\<lambda>g. Inr (Some g)) = r" "snd (?M path) = os'" for path
    using guard_lock_released[OF surjective_pairing assms(2), of "ce_os (le_conf le)" path] that
    by (cases "fst (?M path)") (auto simp: close_pidfile_def)
  show ?thesis
  proof (cases "op_pidfile vm = None \<and> sc_pidfile (cf_supervisord config) = []")
    case True
    with assms show ?thesis by (auto simp: open_pidfile_def close_pidfile_def)
  next
    case False
    then obtain path where "bind_res (fst (?M path)) (\<lambda>g. Inr (Some g)) = r" "snd (?M path) = os'"
      using assms(1) by (auto simp: open_pidfile_def case_prod_unfold Let_def split: option.splits)
    then show ?thesis by (rule made)
  qed
qed

text \<open>
  C6: If the event loop returns, by itself or with an exception, so does the daemon's main
  function, with status 0 or 1. On every path, a bad command line, a rejected configuration, a
  second instance, a socket that cannot be opened, a handler that throws, or an orderly
  shutdown: either no daemon was created and the system was not touched, or afterwards no child
  has a pid, no output stream and no captured log is open, the server is stopped and its acceptor
  closed; and no lock is left on a pid file.
\<close>

theorem daemon_leaves_nothing_behind:
  assumes "event_loop (le_run_for le)" "runs_handlers le" "sys_ok (w_sys w)" "clock_runs (sy_steady (w_sys w))"
    and "holds_no_lock (le_pid le) (w_pid_os w)" "w_daemon w = None"
  shows "\<exists>rc w'. supervisord_main le argv w = Some (rc, w') \<and> rc \<in> {0, 1} \<and>
    holds_no_lock (le_pid le) (w_pid_os w') \<and>
    (case w_daemon w' of
       None \<Rightarrow> w_sys w' = w_sys w
     | Some (d, srv) \<Rightarrow> list_all (\<lambda>(n, p). released p) (mg_processes d) \<and>
         \<not> rs_running srv \<and> \<not> rs_acceptor_open srv)"
proof (cases "\<exists>vm g c guard os. parse_args (le_po le) daemon_options argv (w_logger w) = Inr (Parsed vm, g) \<and>
    parse_file (le_conf le) (op_configuration vm) = Inr c \<and> open_pidfile le vm c (w_pid_os w) = (Inr guard, os)")
  case True
  then obtain vm g c guard os where p: "parse_args (le_po le) daemon_options argv (w_logger w) = Inr (Parsed vm, g)"
    "parse_file (le_conf le) (op_configuration vm) = Inr c" "open_pidfile le vm c (w_pid_os w) = (Inr guard, os)" by blast
  let ?ds = "mk_supervisord c (le_pid le) (w_sys w)"
  obtain r d srv where r: "supervisord_run le ?ds = Some (r, d, srv)" "daemon_safe (le_conf le) d"
    "r \<in> insert (Inr 0) (range Inl)"
    using supervisord_run_returns[OF assms(1,2) mk_supervisord_safe[OF p(2) assms(3,4)]]
      mk_supervisord_server[OF surjective_pairing] by blast
  obtain d' srv' where d: "destroy_supervisord le (d, srv) = Some (d', srv')"
    "list_all (\<lambda>(n, p). released p) (mg_processes d')" "\<not> rs_running srv'" "\<not> rs_acceptor_open srv'"
    using destroy_supervisord_returns[OF assms(1) r(2)] by blast
  have "holds_no_lock (le_pid le) (close_pidfile le guard os)" using pidfile_released[OF p(3) assms(5)] by simp
  with p r d show ?thesis
    by (auto simp: supervisord_main_def run_guarded_def Let_def split: sum.splits)
next
  case False
  then show ?thesis
    using assms(5,6) pidfile_released[OF _ assms(5)]
    by (fastforce simp: supervisord_main_def Let_def split: sum.splits parsed.splits prod.splits)
qed

definition sample_launch :: "ptree launch_env" where
  "sample_launch =
     \<lparr>le_po = (\<lambda>_ _. Inr \<lparr>op_help = False, op_version = False, op_configuration = ''/etc/s.conf'', op_verbose_given = 0,
        op_pidfile = None, op_serverurl = None, op_args = []\<rparr>),
      le_conf = sample_conf, le_socket = \<lparr>se_endpoint_ok = (\<lambda>p. length p < 108), se_active = False, se_open_ok = True, se_bind_ok = True, se_listen_ok = True\<rparr>,
      le_pid = 7, le_run_for = manager_slice, le_run = (\<lambda>(d, srv). Some (None, d, srv))\<rparr>"

definition sample_world :: world where
  "sample_world = \<lparr>w_logger = initial_logger, w_umask = 18, w_pid_os = empty_os, w_sys = snd sample_started, w_daemon = None\<rparr>"

theorem daemon_leaves_nothing_behind_witness:
  "\<exists>rc w'. supervisord_main sample_launch [''supervisord''] sample_world = Some (rc, w') \<and> rc \<in> {0, 1}"
proof -
  have "event_loop (le_run_for sample_launch)"
    by (simp add: sample_launch_def own_handlers.event_loop_axioms)
  moreover have "runs_handlers sample_launch"
    unfolding runs_handlers_def
    by (intro allI, rule_tac x = None in exI, rule_tac x = "\<lparr>sv_daemon = d, sv_server = srv, sv_connections = []\<rparr>" in exI)
      (simp add: sample_launch_def)
  moreover have "sys_ok (w_sys sample_world)" "clock_runs (sy_steady (w_sys sample_world))"
    using sample_manager_ok sample_clock by (simp_all add: mgr_inv_def sample_world_def)
  moreover have "holds_no_lock (le_pid sample_launch) (w_pid_os sample_world)" "w_daemon sample_world = None"
    by (simp_all add: holds_no_lock_def sample_world_def empty_os_def)
  ultimately show ?thesis using daemon_leaves_nothing_behind[of sample_launch sample_world "[''supervisord'']"] by blast
qed

text \<open>
  C28: While another daemon holds the lock of the pid file, starting a second one on it ends with
  status 1: no daemon is built, so no program is started and no socket is touched, and the lock
  and the name of the file stay as they are.
\<close>

theorem second_daemon_refused:
  assumes "parse_args (le_po le) daemon_options argv (w_logger w) = Inr (Parsed vm, g)"
    and "parse_file (le_conf le) (op_configuration vm) = Inr c"
    and "path = (case op_pidfile vm of Some f \<Rightarrow> f | None \<Rightarrow> sc_pidfile (cf_supervisord c))"
    and "validate_pidfile_path (ce_os (le_conf le)) path = Inr p" "po_open_ok (w_pid_os w) (c_str p)"
    and "po_names (w_pid_os w) (c_str p) = Some i" "po_lock (w_pid_os w) i = Some other" "other \<noteq> le_pid le"
  shows "\<exists>w'. supervisord_main le argv w = Some (1, w') \<and> w_sys w' = w_sys w \<and> w_daemon w' = w_daemon w \<and>
    po_lock (w_pid_os w') = po_lock (w_pid_os w) \<and> po_names (w_pid_os w') = po_names (w_pid_os w)"
proof -
  have "path \<noteq> []" using assms(4) by (auto simp: validate_pidfile_path_def is_absolute_def)
  then have "open_pidfile le vm c os = (let (r, os) = mk_pid_file_guard (ce_os (le_conf le)) path (le_pid le) os
      in (bind_res r (\<lambda>g. Inr (Some g)), os))" for os
    using assms(3) by (auto simp: open_pidfile_def split: option.splits)
  with mk_guard_owned[OF assms(4-6)] assms show ?thesis
    by (simp add: supervisord_main_def pid_close_def Let_def)
qed

definition second_launch :: "ptree launch_env" where
  "second_launch = sample_launch\<lparr>le_po := (\<lambda>_ _. Inr \<lparr>op_help = False, op_version = False,
     op_configuration = ''/etc/s.conf'', op_verbose_given = 0, op_pidfile = Some ''/run/s.pid'', op_serverurl = None, op_args = []\<rparr>)\<rparr>"

theorem second_daemon_refused_witness:
  "\<exists>w'. supervisord_main second_launch [''supervisord''] (sample_world\<lparr>w_pid_os := owned_os\<rparr>) = Some (1, w') \<and>
     po_lock (w_pid_os w') 0 = Some 5"
proof -
  let ?w = "sample_world\<lparr>w_pid_os := owned_os\<rparr>"
  have c: "c_str ''/run/s.pid'' = ''/run/s.pid''" by simp
  obtain vm g where a: "parse_args (le_po second_launch) daemon_options [''supervisord''] (w_logger ?w) = Inr (Parsed vm, g)"
    "op_configuration vm = ''/etc/s.conf''" "op_pidfile vm = Some ''/run/s.pid''"
    by (simp add: parse_args_def second_launch_def)
  have os: "po_open_ok (w_pid_os ?w) (c_str ''/run/s.pid'')" "po_names (w_pid_os ?w) (c_str ''/run/s.pid'') = Some 0"
    "po_lock (w_pid_os ?w) 0 = Some 5" unfolding c by (simp_all add: owned_os_def empty_os_def)
  have le: "le_conf second_launch = sample_conf" "ce_os sample_conf = plain_env" "5 \<noteq> le_pid second_launch"
    by (simp_all add: second_launch_def sample_launch_def sample_conf_def)
  obtain cf where f: "parse_file (le_conf second_launch) (op_configuration vm) = Inr cf"
    using sample_conf_parsed by (simp add: a le)
  have "validate_pidfile_path (ce_os (le_conf second_launch)) ''/run/s.pid'' = Inr ''/run/s.pid''"
    by (simp only: le sample_pidfile_path)
  from second_daemon_refused[OF a(1) f _ this os le(3)] os(3) show ?thesis by (auto simp: a(3))
qed

end
