(* ===== verification/Spec2Isabelle.thy ===== *)
theory Spec2Isabelle
  imports Prelude Util_String Log_Levels Config_Types Process_Behaviour Process_Child Manager_Behaviour Supervisord Supervisorctl
    Config_Behaviour Pidfile Platform Xml_Documents Rpc_Documents Session Entry System
begin

text \<open>
  A verification development for supervisorcpp, a supervisor of long running programs: a daemon
  (\<^verbatim>\<open>supervisord\<close>) that reads an INI configuration, starts the programs it names as child
  processes, captures their output, restarts them and answers XML-RPC calls on a Unix socket, and
  a client (\<^verbatim>\<open>supervisorctl\<close>) that makes these calls. Both are one binary.

  \<^bold>\<open>Parts, and how they interact.\<close> The daemon's main function (\<open>supervisord_main\<close>) parses
  the options, reads the configuration (\<open>parse_file\<close>), takes the pid file
  (\<open>mk_pid_file_guard\<close>), builds a \<open>daemon\<close> and runs the event loop. The loop delivers child
  exits and timer ticks to the process manager (\<open>on_signal\<close>, \<open>on_timer\<close>), output of
  children to processes (\<open>handle_stdout_read\<close>), bytes of a client to its connection
  (\<open>handle_read\<close>), and termination and reload signals to the daemon (\<open>on_terminate\<close>,
  \<open>on_sighup\<close>). A complete request is dispatched to the RPC handler of its name, which calls
  the manager; the manager owns one \<open>process\<close> per program; a process owns the log writers of its
  two streams. On the way out the destructors stop every process, close the server and release
  the pid file.

  \<^bold>\<open>Theories\<close> (paths are relative to \<^verbatim>\<open>src/\<close>).

  \<^item> \<^verbatim>\<open>Prelude\<close>: exceptions as values (\<open>exn\<close>, \<open>res\<close>), C++ string and number
    functions (\<open>find_str\<close>, \<open>stoull\<close>, \<open>from_chars_int\<close>), \<open>std::map\<close> as a sorted association list,
    the locale \<open>transition_system\<close> (an invariant kept by steps is kept by runs), collections of
    simplification rules.
  \<^item> \<^verbatim>\<open>Boost_Strings\<close>, \<^verbatim>\<open>Property_Tree\<close>, \<^verbatim>\<open>Filesystem\<close>, \<^verbatim>\<open>Posix\<close>: the interfaces to code
    outside the repository and to the operating system. The answers of the operating system
    (what \<open>fork\<close>, \<open>kill\<close>, \<open>open\<close>, \<open>flock\<close>, the clock return) are parameters of the state.
  \<^item> \<^verbatim>\<open>Util_String\<close> (\<^verbatim>\<open>supervisor-lib/src/util/string.cpp\<close>): escaping for XML and for globs.
  \<^item> \<^verbatim>\<open>Log_Levels\<close> (\<^verbatim>\<open>supervisor-lib/src/logger/log_levels.cpp\<close>, \<^verbatim>\<open>logger.cpp\<close>): levels, and which
    messages the console and the file accept.
  \<^item> \<^verbatim>\<open>Log_Writer\<close> (\<^verbatim>\<open>supervisor-lib/src/logger/log_writer.cpp\<close>): buffering, writing and rotation of a
    captured log; what the log holds is kept also when a rotation is refused half way.
  \<^item> \<^verbatim>\<open>Config_Types\<close> (\<^verbatim>\<open>supervisor-lib/src/config/config_types.h\<close>): the structures with their defaults,
    sizes with 64-bit wrap-around, substitution of the program's name.
  \<^item> \<^verbatim>\<open>Secure\<close> (\<^verbatim>\<open>supervisor-lib/src/util/secure.cpp\<close>): checks of paths, commands, signals, environments,
    descriptors and privileges.
  \<^item> \<^verbatim>\<open>Environment_Grammar\<close>, \<^verbatim>\<open>Config_Parser\<close>, \<^verbatim>\<open>Config_Behaviour\<close>
    (\<^verbatim>\<open>supervisor-lib/src/config/config_parser.cpp\<close>, \<^verbatim>\<open>config_parser.h\<close>, \<^verbatim>\<open>ini_reader.h\<close>,
    \<^verbatim>\<open>ptree_ext.h\<close>): comments, typed values, sections, includes, globs, environments; then what
    accepted configurations have in common.
  \<^item> \<^verbatim>\<open>Process\<close>, \<^verbatim>\<open>Process_Behaviour\<close>, \<^verbatim>\<open>Process_Child\<close> (\<^verbatim>\<open>supervisor-lib/src/process/process.cpp\<close>): the
    state machine of one program and its invariant; retries, timing, descriptors and captured
    output; what the child does between \<open>fork\<close> and \<open>exec\<close>.
  \<^item> \<^verbatim>\<open>Process_Manager\<close>, \<^verbatim>\<open>Manager_Behaviour\<close> (\<^verbatim>\<open>supervisor-lib/src/process/process_manager.cpp\<close>): the registry
    of processes, the reaping of children, stopping with a deadline, synchronisation with a new
    configuration; then what it promises for the handlers that the event loop runs while it waits.
  \<^item> \<^verbatim>\<open>Rpc_Connection\<close>, \<^verbatim>\<open>Rpc_Server\<close> (\<^verbatim>\<open>supervisor-lib/src/rpc\<close>): rendering of values, framing and parsing of
    requests, the handler table and the life of the control socket.
  \<^item> \<^verbatim>\<open>Pidfile\<close> (\<^verbatim>\<open>supervisor-lib/src/util/pidfile.h\<close>): the guard over inodes and locks, and several
    instances interleaved one system call at a time.
  \<^item> \<^verbatim>\<open>Platform\<close> (\<^verbatim>\<open>supervisor-lib/src/util/platform.cpp\<close>): the replacement of \<open>pipe2\<close>.
  \<^item> \<^verbatim>\<open>Supervisord\<close> (\<^verbatim>\<open>supervisor-app/src/daemon\<close>): the daemon, its signal handlers and RPC handlers.
  \<^item> \<^verbatim>\<open>Supervisorctl\<close> (\<^verbatim>\<open>supervisor-app/src/ctl\<close>): the client, over an abstract socket.
  \<^item> \<^verbatim>\<open>Xml_Documents\<close>, \<^verbatim>\<open>Rpc_Documents\<close>, \<^verbatim>\<open>Session\<close>: XML documents and what is relied on of their reader
    (that it reads back the texts which \<open>escape_xml\<close> writes; with a reader that can be executed); the texts of \<^verbatim>\<open>xmlrpc.cpp\<close>, \<^verbatim>\<open>rpc_connection.cpp\<close> and
    \<^verbatim>\<open>supervisorctl.h\<close> as such documents; a client's command from end to end.
  \<^item> \<^verbatim>\<open>Entry\<close> (\<^verbatim>\<open>supervisor-app/src/main.cpp\<close>, \<^verbatim>\<open>args_parser.cpp\<close> and the two main functions): the choice of
    daemon or client, options, construction and destruction of everything.
  \<^item> \<^verbatim>\<open>System\<close>: the daemon with its server and any number of connections as one reactive system
    (\<open>service_step\<close>); properties that span the components.

  \<^bold>\<open>Conventions.\<close> A class is a record, with the member's name behind a short prefix (\<open>p_\<close>
    for a process, \<open>mg_\<close> for the manager, \<open>dm_\<close> for the daemon); a member function takes and returns
    the record and the state of the system, and has the source's name without its trailing
    underscore, with the class in front where two classes share it. A thrown exception is
    \<open>Inl\<close>. An asynchronous operation sets a flag that it is pending; its completion is a handler
    called with any outcome. Logging of the supervisor's own messages is not part of the state.

  \<^bold>\<open>What the lemmas show.\<close>

  \<^item> One process: in every state reachable by any interleaving of calls, exits, timer ticks and
    reads, pid and state agree, retries stay within bounds, no signal goes to a group or to
    everybody; every step follows the transition graph; exactly \<open>startretries\<close> failures are fatal;
    promotion, forced kill and backoff happen at the configured times; no descriptor leaks;
    captured output reaches the log in order. In the child, \<open>exec\<close> is reached only with the
    configured user's rights, the three standard descriptors and the documented environment.
  \<^item> The manager: it implements a registry of settings by name (a refinement), every exit is
    told to its owner, stopping everything ends and leaves no child, whatever handlers run meanwhile, stopping one
    process ends with it gone or its stop time waited for, an unchanged configuration disturbs nothing.
  \<^item> Configuration: what is accepted has passed every check, errors are of one kind, include
    chains are bounded, every field of a program is its value in the section or the default, environments are read
    back as they are written.
  \<^item> RPC: a request cut in any way is dispatched once with what was sent, a connection holds at
    most one megabyte, the client reads back what the server answered, calls, faults and process
    information survive their way through XML, and each outcome of the handlers.
  \<^item> Client and daemon: what \<^verbatim>\<open>supervisorctl\<close> shows for \<open>start\<close>, \<open>stop\<close>, \<open>restart\<close> and \<open>status\<close> is what
    happened in the daemon; \<open>shutdown\<close> ends it; \<open>reload\<close> reports success whatever has happened.
  \<^item> The system: whatever clients send, only checked programs are ever supervised, at most one daemon gets past the pid
    file while none is leaving, a second one ends without touching anything, and a daemon that ends leaves no child,
    no open stream, no server and no lock.

  \<^bold>\<open>Interfaces.\<close> \<open>std_map\<close> (lookup after insertion and removal) and \<open>char_encoding\<close> (an escape that
    can be undone) serve the library; \<open>append_sink\<close> is what a log writer promises its process;
    \<open>process_op\<close> is what the manager needs of the operations it applies to every process;
    \<open>transition_system\<close> is interpreted for a process, a connection, competing
    instances and the whole service; \<open>waiting_loop\<close> states what a slice of the event loop may do to the
    manager (keep its invariant, never turn the clock back) with the degree of change as a parameter. The slices act on
    whatever record extends \<open>manager\<close>: those of the daemon see and change all of the daemon, its state and
    configuration included. Of its two instances, \<open>reentrant_loop\<close> lets a handler change the set of programs and is
    interpreted on a slice of the manager that reconciles and on one of the daemon in which SIGHUP is handled
    (\<open>sighup_slice\<close>); stopping everything and shutting down hold for it. \<open>event_loop\<close>, a sublocale, leaves the
    programs alone and is interpreted on the manager's own handlers, \<open>daemon_loop\<close> is the same for slices of a daemon;
    the operations that look up a process by its name again
    after a wait (stopping one, removing, reconciling, reloading) are proved for it, since the code holds on to
    the object and the iterator it had before.

  \<^bold>\<open>Bounds and termination.\<close> No proof rests on a fixed amount of fuel. The loop that waits for
    children is a \<open>partial_function\<close>; that it returns follows from a clock that passes every
    deadline (\<open>clock_runs\<close>). Includes terminate by the depth that is left (\<open>MAX_DEPTH = 10\<close>, as in
    the code) and then by the files still to read. \<open>MAX_REQUEST_SIZE\<close> and \<open>MAX_PENDING_BUFFER\<close> are the
    code's. The rounds of the sample parser of \<^verbatim>\<open>Environment_Grammar\<close> are the length of the input,
    since each round consumes something.

  \<^bold>\<open>Parameters.\<close> Boost.PropertyTree (readers and access by path), Boost.Spirit (the run of
    a grammar), Boost.StringAlgorithm (case folding and trimming), Boost.Program_options (parsed
    options), Boost.Asio (the event loop and sockets) and the operating system. What a theorem needs
    of them is a named hypothesis (\<open>boost_ok\<close>, \<open>spirit_ok\<close>, \<open>xml_reader\<close>, \<open>event_loop\<close>, \<open>reentrant_loop\<close>, \<open>delivers\<close>), and its
    witness gives an instance. \<open>xml_reader\<close> speaks only of documents whose texts come from \<open>escape_xml\<close> or are printed
    numbers, not of numeric or malformed character references; \<open>delivers\<close> only of reads of no more bytes than are left,
    since a longer one fails at the end of the stream.

  \<^bold>\<open>Not modelled.\<close> The formatting, files and rotation of Boost.Log; mutexes (each object is used from the
    thread of the event loop); deleted copy operations, forward declarations, template plumbing and stream adaptors
    without behaviour of their own; the generated version header (only that the version is shown); unit tests.
    A flush of a log's stream writes its buffer whole or not at all: a disk that fills up in the middle of one is
    outside the model.
\<close>

end
